(* ===== verification/Prelude.thy ===== *)
theory Prelude
  imports Main "HOL-Library.Word"
begin

text \<open>
  What every component of the server shares: Go errors and how \<open>errors.Is\<close> reads them,
  the signed 64-bit arithmetic of \<open>int64\<close> and \<open>time.Duration\<close>, instants and durations,
  UUIDs, and the generic facts about sorted lists and optional values the component proofs
  use. The collection \<open>go_defs\<close> gathers the small definitions that automation may unfold
  everywhere.
\<close>

named_theorems go_defs \<open>small definitions unfolded by the component proofs\<close>

section \<open>Errors\<close>

text \<open>
  A Go error is a chain: a package-level sentinel (identified by its qualified name), an
  error made by \<open>fmt.Errorf\<close> without \<open>%w\<close>, an error wrapped by a message in front
  (\<open>"message: %w"\<close>), or a sentinel with a text behind it (\<open>"%w: %v"\<close>).
  \<open>errors_is e s\<close> is \<open>errors.Is(err, s)\<close>: it walks the chain of wrapped errors.
\<close>

datatype go_error =
    Sentinel string
  | Errorf string
  | Wrap string go_error
  | Suffixed go_error string

type_synonym 'a result = "go_error + 'a"

primrec errors_is :: "go_error \<Rightarrow> string \<Rightarrow> bool" where
  "errors_is (Sentinel n) s = (n = s)"
| "errors_is (Errorf m) s = False"
| "errors_is (Wrap m e) s = errors_is e s"
| "errors_is (Suffixed e m) s = errors_is e s"

section \<open>Signed 64-bit integers, durations and instants\<close>

text \<open>
  \<open>wrap64\<close> is the two's complement reduction of Go's \<open>int64\<close>. Integer division
  truncates towards zero. A \<open>time.Duration\<close> is an \<open>int64\<close> count of nanoseconds; an
  instant is its nanoseconds since the epoch, and \<open>Time.Sub\<close> saturates.
\<close>

definition wrap64 :: "int \<Rightarrow> int" where
  "wrap64 x = (x + 2 ^ 63) mod 2 ^ 64 - 2 ^ 63"

definition trunc_div :: "int \<Rightarrow> int \<Rightarrow> int" where
  "trunc_div a b = sgn a * sgn b * (\<bar>a\<bar> div \<bar>b\<bar>)"

type_synonym duration = int
type_synonym instant = int

definition nanosecond :: duration where "nanosecond = 1"
definition microsecond :: duration where "microsecond = 1000"
definition millisecond :: duration where "millisecond = 1000000"
definition second :: duration where "second = 1000000000"
definition minute :: duration where "minute = 60000000000"
definition hour :: duration where "hour = 3600000000000"

lemmas duration_units [go_defs] =
  nanosecond_def microsecond_def millisecond_def second_def minute_def hour_def

text \<open>The zero value of \<open>time.Time\<close>.\<close>

definition zero_time :: instant where
  "zero_time = - 62135596800 * second"

definition milliseconds :: "duration \<Rightarrow> int" where
  "milliseconds d = trunc_div d millisecond"

definition time_sub :: "instant \<Rightarrow> instant \<Rightarrow> duration" where
  "time_sub a b = max (- (2 ^ 63)) (min (2 ^ 63 - 1) (a - b))"

definition in_int64 :: "int \<Rightarrow> bool" where
  "in_int64 x \<longleftrightarrow> - (2 ^ 63) \<le> x \<and> x < 2 ^ 63"

lemma wrap64_id [simp]: "in_int64 x \<Longrightarrow> wrap64 x = x"
  unfolding wrap64_def in_int64_def by (subst mod_pos_pos_trivial) auto

lemma wrap64_range: "in_int64 (wrap64 x)"
  unfolding wrap64_def in_int64_def
  using pos_mod_bound [of "2 ^ 64" "x + 2 ^ 63"] pos_mod_sign [of "2 ^ 64" "x + 2 ^ 63"] by simp

lemma trunc_div_pos: "0 \<le> a \<Longrightarrow> 0 < b \<Longrightarrow> trunc_div a b = a div b"
  by (cases "a = 0") (auto simp: trunc_div_def)

lemma milliseconds_pos: "0 \<le> d \<Longrightarrow> milliseconds d = d div 1000000"
  by (simp add: milliseconds_def millisecond_def trunc_div_pos)

lemma time_sub_pos_iff: "0 < time_sub a b \<longleftrightarrow> b < a"
  by (auto simp: time_sub_def)

lemma time_sub_exact: "in_int64 (a - b) \<Longrightarrow> time_sub a b = a - b"
  by (auto simp: time_sub_def in_int64_def)

section \<open>Calls to a server\<close>

text \<open>
  What can happen to a call of Redis or PostgreSQL: an answer, or an error before the server
  did anything (\<open>Lost_before\<close>) or after it did (\<open>Lost_after\<close>, a lost reply). \<open>Eval\<close> makes a
  call: the result is the reply or the client's error.
\<close>

datatype link = Answered | Lost_before go_error | Lost_after go_error

definition Eval :: "link \<Rightarrow> ('r \<Rightarrow> 'r \<times> 'a) \<Rightarrow> 'r \<Rightarrow> 'r \<times> 'a result" where
  "Eval way call r =
     (case way of
        Answered \<Rightarrow> (case call r of (r', reply) \<Rightarrow> (r', Inr reply))
      | Lost_before e \<Rightarrow> (r, Inl e)
      | Lost_after e \<Rightarrow> (fst (call r), Inl e))"

lemma Eval_fst: "fst (Eval way f r) = (case way of Lost_before e \<Rightarrow> r | _ \<Rightarrow> fst (f r))"
  by (simp add: Eval_def split: link.splits prod.splits)

lemma Eval_Inr: "Eval way f r = (r', Inr x) \<longleftrightarrow> way = Answered \<and> f r = (r', x)"
  by (auto simp: Eval_def split: link.splits prod.splits)

section \<open>UUIDs\<close>

text \<open>
  A \<open>uuid.UUID\<close> is sixteen bytes, compared as PostgreSQL compares them, most significant
  byte first; \<open>uuid.Nil\<close> is all zero. \<open>ids.New\<close> is \<open>uuid.NewV7\<close>: a component
  that calls it takes the results of its calls as arguments.
\<close>

type_synonym uuid = "128 word"

definition uuid_nil :: uuid where
  "uuid_nil = 0"

definition ids_new :: "uuid result \<Rightarrow> uuid result" where
  "ids_new newV7 = newV7"

section \<open>Lists and options\<close>

text \<open>What \<open>append\<close> in a loop over rows with an early return on an error computes.\<close>

fun collect :: "('a \<Rightarrow> 'b result) \<Rightarrow> 'a list \<Rightarrow> 'b list result" where
  "collect f [] = Inr []"
| "collect f (x # xs) =
     (case f x of Inl e \<Rightarrow> Inl e
      | Inr y \<Rightarrow> (case collect f xs of Inl e \<Rightarrow> Inl e | Inr ys \<Rightarrow> Inr (y # ys)))"

lemma length_filter_mono:
  "\<forall>x\<in>set xs. P x \<longrightarrow> Q x \<Longrightarrow> length (filter P xs) \<le> length (filter Q xs)"
  by (induction xs) auto

lemma filter_take_drop_count:
  "length (filter P (take n xs)) + length (filter P (drop n xs)) = length (filter P xs)"
  by (metis append_take_drop_id filter_append length_append)

lemma distinct_map_filter: "distinct (map f xs) \<Longrightarrow> distinct (map f (filter P xs))"
  by (induction xs) auto

lemma distinct_map_inj: "distinct (map f xs) \<Longrightarrow> x \<in> set xs \<Longrightarrow> y \<in> set xs \<Longrightarrow> f x = f y \<Longrightarrow> x = y"
  by (metis distinct_map inj_onD)

lemma inl_or_inr: "(\<exists>e. r = Inl e) \<or> (\<exists>v. r = Inr v)"
  by (cases r) auto

end
