(* ===== verification/Go_Strings.thy ===== *)
theory Go_Strings
  imports Prelude
begin

text \<open>
  The part of Go's string handling the server's own code depends on. A Go string is a
  sequence of bytes, so \<open>string\<close> (a list of eight-bit characters) models it directly:
  \<open>utf8.DecodeRune\<close> and ranging over a string, \<open>unicode.IsSpace\<close> and
  \<open>strings.TrimSpace\<close>, \<open>strings.Cut\<close>, \<open>strings.Split\<close>, \<open>strings.TrimRight\<close> and
  \<open>hex.EncodeToString\<close>. The lemmas show what the callers rely on: trimming is idempotent
  and never leaves a space at an end, hexadecimal encoding is injective.
\<close>

section \<open>Decoding UTF-8\<close>

text \<open>
  \<open>decode_rune bs\<close> is the first rune of \<open>bs\<close> and its width; a byte that starts no valid
  encoding decodes to U+FFFD with width one.
\<close>

definition rune_error :: nat where
  "rune_error = 0xFFFD"

definition cont :: "nat \<Rightarrow> bool" where
  "cont b \<longleftrightarrow> 0x80 \<le> b \<and> b \<le> 0xBF"

definition second_ok :: "nat \<Rightarrow> nat \<Rightarrow> bool" where
  "second_ok b0 b1 =
     (if b0 = 0xE0 then 0xA0 \<le> b1 \<and> b1 \<le> 0xBF
      else if b0 = 0xED then 0x80 \<le> b1 \<and> b1 \<le> 0x9F
      else if b0 = 0xF0 then 0x90 \<le> b1 \<and> b1 \<le> 0xBF
      else if b0 = 0xF4 then 0x80 \<le> b1 \<and> b1 \<le> 0x8F
      else cont b1)"

definition decode_rune :: "nat list \<Rightarrow> nat \<times> nat" where
  "decode_rune bs =
     (case bs of
        [] \<Rightarrow> (rune_error, 0)
      | b0 # bs1 \<Rightarrow>
          if b0 < 0x80 then (b0, 1)
          else if 0xC2 \<le> b0 \<and> b0 \<le> 0xDF then
            (case bs1 of
               b1 # _ \<Rightarrow> if second_ok b0 b1 then ((b0 - 0xC0) * 64 + (b1 - 0x80), 2) else (rune_error, 1)
             | _ \<Rightarrow> (rune_error, 1))
          else if 0xE0 \<le> b0 \<and> b0 \<le> 0xEF then
            (case bs1 of
               b1 # b2 # _ \<Rightarrow>
                 if second_ok b0 b1 \<and> cont b2
                 then ((b0 - 0xE0) * 4096 + (b1 - 0x80) * 64 + (b2 - 0x80), 3) else (rune_error, 1)
             | _ \<Rightarrow> (rune_error, 1))
          else if 0xF0 \<le> b0 \<and> b0 \<le> 0xF4 then
            (case bs1 of
               b1 # b2 # b3 # _ \<Rightarrow>
                 if second_ok b0 b1 \<and> cont b2 \<and> cont b3
                 then ((b0 - 0xF0) * 262144 + (b1 - 0x80) * 4096 + (b2 - 0x80) * 64 + (b3 - 0x80), 4)
                 else (rune_error, 1)
             | _ \<Rightarrow> (rune_error, 1))
          else (rune_error, 1))"

lemma decode_rune_width: "bs \<noteq> [] \<Longrightarrow> 0 < snd (decode_rune bs)"
  by (auto simp: decode_rune_def split: list.splits)

function runes_of :: "nat list \<Rightarrow> nat list" where
  "runes_of bs =
     (if bs = [] then [] else fst (decode_rune bs) # runes_of (drop (snd (decode_rune bs)) bs))"
  by pat_completeness auto
termination
  by (relation "measure length") (auto simp: decode_rune_width)

declare runes_of.simps [simp del]

lemma runes_of_Nil [simp]: "runes_of [] = []"
  by (simp add: runes_of.simps)

definition runes :: "string \<Rightarrow> nat list" where
  "runes s = runes_of (map of_char s)"

lemma runes_of_ascii: "\<forall>b\<in>set bs. b < 0x80 \<Longrightarrow> runes_of bs = bs"
  by (induction bs) (simp_all add: runes_of.simps decode_rune_def)

lemma runes_of_length: "length (runes_of bs) \<le> length bs"
proof (induction bs rule: runes_of.induct)
  case (1 bs)
  show ?case
  proof (cases "bs = []")
    case False
    then have "0 < snd (decode_rune bs)" and "0 < length bs"
      by (simp_all add: decode_rune_width)
    moreover from False 1 have
      "length (runes_of (drop (snd (decode_rune bs)) bs)) \<le> length bs - snd (decode_rune bs)"
      by simp
    ultimately have "Suc (length (runes_of (drop (snd (decode_rune bs)) bs))) \<le> length bs"
      by arith
    with False show ?thesis by (subst runes_of.simps) simp
  qed simp
qed

text \<open>A rune below 128 is a byte: nothing else decodes to one.\<close>

lemma le_diff_mult: fixes a b k m :: nat shows "a + k \<le> b \<Longrightarrow> k * m \<le> (b - a) * m"
  by (intro mult_le_mono1) arith

lemma decode_rune_large:
  assumes "0x80 \<le> b"
  shows "0x80 \<le> fst (decode_rune (b # bs))"
proof -
  have two: "0x80 \<le> (b - 0xC0) * 64 + x" if "0xC2 \<le> b" for x
    using le_diff_mult [where a = "0xC0" and k = "2" and b = b and m = 64] that by linarith
  have three: "0x80 \<le> (b - 0xE0) * 4096 + (c - 0x80) * 64 + x" if "0xE0 \<le> b" "second_ok b c" for c x
  proof (cases "b = 0xE0")
    case True
    with that(2) have "0xA0 \<le> c" by (simp add: second_ok_def)
    then show ?thesis using le_diff_mult [where a = "0x80" and k = "0x20" and b = c and m = 64] by linarith
  next
    case False
    with that(1) have "0xE1 \<le> b" by simp
    then show ?thesis using le_diff_mult [where a = "0xE0" and k = "1" and b = b and m = 4096] by linarith
  qed
  have four: "0x80 \<le> (b - 0xF0) * 262144 + (c - 0x80) * 4096 + x + y" if "0xF0 \<le> b" "second_ok b c" for c x y
  proof (cases "b = 0xF0")
    case True
    with that(2) have "0x90 \<le> c" by (simp add: second_ok_def)
    then show ?thesis using le_diff_mult [where a = "0x80" and k = "0x10" and b = c and m = 4096] by linarith
  next
    case False
    with that(1) have "0xF1 \<le> b" by simp
    then show ?thesis using le_diff_mult [where a = "0xF0" and k = "1" and b = b and m = 262144] by linarith
  qed
  have error: "0x80 \<le> rune_error" by (simp add: rune_error_def)
  show ?thesis
    unfolding decode_rune_def list.case using assms
    apply (simp only: split: if_split list.split)
    apply (intro conjI impI allI)
    apply (simp_all only: fst_conv error not_less)
    apply (blast intro: two three four)+
    done
qed

lemma decode_rune_ascii:
  assumes "bs \<noteq> []" "fst (decode_rune bs) < 0x80"
  shows "decode_rune bs = (hd bs, 1)"
proof -
  obtain b bs' where bs: "bs = b # bs'" using assms(1) by (cases bs) simp_all
  then have "b < 0x80" using assms(2) decode_rune_large [of b bs'] by (metis not_less)
  then show ?thesis by (simp add: bs decode_rune_def)
qed

lemma runes_of_ascii_only: "\<forall>r\<in>set (runes_of bs). r < 0x80 \<Longrightarrow> runes_of bs = bs"
proof (induction bs rule: runes_of.induct)
  case (1 bs)
  show ?case
  proof (cases bs)
    case (Cons b bs')
    then have unfold: "runes_of bs = fst (decode_rune bs) # runes_of (drop (snd (decode_rune bs)) bs)"
      by (subst runes_of.simps) simp
    then have "fst (decode_rune bs) < 0x80" using 1(2) by (metis list.set_intros(1))
    then have dec: "decode_rune bs = (b, 1)" using decode_rune_ascii [of bs] Cons by simp
    have "\<forall>r\<in>set (runes_of (drop (snd (decode_rune bs)) bs)). r < 0x80"
      using 1(2) unfolding unfold list.set ball_simps by (rule conjunct2)
    moreover have "bs \<noteq> []" using Cons by simp
    ultimately have "runes_of (drop (snd (decode_rune bs)) bs) = drop (snd (decode_rune bs)) bs" using 1(1) by blast
    then have "runes_of (drop 1 bs) = drop 1 bs" by (simp only: dec snd_conv)
    with unfold dec Cons show ?thesis by simp
  qed simp
qed

lemma runes_ascii_only: "\<forall>r\<in>set (runes s). r < 0x80 \<Longrightarrow> runes s = map of_char s"
  unfolding runes_def by (rule runes_of_ascii_only)

section \<open>White space\<close>

text \<open>
  The UTF-8 encodings of the runes for which \<open>unicode.IsSpace\<close> holds. They form a
  prefix-free and suffix-free code, so decoding the first (last) rune of a string gives a
  space exactly if one of them is a prefix (suffix) of it.
\<close>

definition is_space_rune :: "nat \<Rightarrow> bool" where
  "is_space_rune r \<longleftrightarrow>
     (0x09 \<le> r \<and> r \<le> 0x0D) \<or> r = 0x20 \<or> r = 0x85 \<or> r = 0xA0 \<or> r = 0x1680 \<or>
     (0x2000 \<le> r \<and> r \<le> 0x200A) \<or> r = 0x2028 \<or> r = 0x2029 \<or> r = 0x202F \<or> r = 0x205F \<or> r = 0x3000"

definition space_encodings :: "string list" where
  "space_encodings =
     [[CHR 0x09], [CHR 0x0A], [CHR 0x0B], [CHR 0x0C], [CHR 0x0D], [CHR 0x20],
      [CHR 0xC2, CHR 0x85], [CHR 0xC2, CHR 0xA0], [CHR 0xE1, CHR 0x9A, CHR 0x80],
      [CHR 0xE2, CHR 0x80, CHR 0x80], [CHR 0xE2, CHR 0x80, CHR 0x81], [CHR 0xE2, CHR 0x80, CHR 0x82],
      [CHR 0xE2, CHR 0x80, CHR 0x83], [CHR 0xE2, CHR 0x80, CHR 0x84], [CHR 0xE2, CHR 0x80, CHR 0x85],
      [CHR 0xE2, CHR 0x80, CHR 0x86], [CHR 0xE2, CHR 0x80, CHR 0x87], [CHR 0xE2, CHR 0x80, CHR 0x88],
      [CHR 0xE2, CHR 0x80, CHR 0x89], [CHR 0xE2, CHR 0x80, CHR 0x8A], [CHR 0xE2, CHR 0x80, CHR 0xA8],
      [CHR 0xE2, CHR 0x80, CHR 0xA9], [CHR 0xE2, CHR 0x80, CHR 0xAF], [CHR 0xE2, CHR 0x81, CHR 0x9F],
      [CHR 0xE3, CHR 0x80, CHR 0x80]]"

definition starts_with :: "string \<Rightarrow> string \<Rightarrow> bool" where
  "starts_with p s \<longleftrightarrow> take (length p) s = p"

function strip_left :: "string list \<Rightarrow> string \<Rightarrow> string" where
  "strip_left es s =
     (case find (\<lambda>e. e \<noteq> [] \<and> starts_with e s) es of
        None \<Rightarrow> s
      | Some e \<Rightarrow> strip_left es (drop (length e) s))"
  by pat_completeness auto
termination
proof (relation "measure (\<lambda>(es, s). length s)")
  fix es s e
  assume "find (\<lambda>e. e \<noteq> [] \<and> starts_with e s) es = Some e"
  then have "e \<noteq> [] \<and> starts_with e s" by (auto simp: find_Some_iff)
  then show "((es, drop (length e) s), (es, s)) \<in> measure (\<lambda>(es, s). length s)"
    by (cases s) (auto simp: starts_with_def)
qed simp

declare strip_left.simps [simp del]

definition trim_left :: "string \<Rightarrow> string" where
  "trim_left s = strip_left space_encodings s"

definition trim_right :: "string \<Rightarrow> string" where
  "trim_right s = rev (strip_left (map rev space_encodings) (rev s))"

definition TrimSpace :: "string \<Rightarrow> string" where
  "TrimSpace s = trim_right (trim_left s)"


lemma starts_with_iff: "starts_with p s \<longleftrightarrow> (\<exists>r. s = p @ r)"
  by (auto simp: starts_with_def) (metis append_take_drop_id)

text \<open>Stripping ends when nothing of the code is in front, and only ever removes a prefix.\<close>

lemma strip_left_done:
  assumes "[] \<notin> set es"
  shows "\<forall>e\<in>set es. \<not> starts_with e (strip_left es s)"
  using assms
proof (induction es s rule: strip_left.induct)
  case (1 es s)
  show ?case
  proof (cases "find (\<lambda>e. e \<noteq> [] \<and> starts_with e s) es")
    case None
    then have "strip_left es s = s" by (subst strip_left.simps) simp
    moreover from None have "\<forall>e\<in>set es. e = [] \<or> \<not> starts_with e s"
      by (auto simp: find_None_iff)
    ultimately show ?thesis using "1.prems" by metis
  next
    case (Some e)
    with 1 show ?thesis by (subst strip_left.simps) simp
  qed
qed

lemma strip_left_suffix: "\<exists>p. s = p @ strip_left es s"
proof (induction es s rule: strip_left.induct)
  case (1 es s)
  show ?case
  proof (cases "find (\<lambda>e. e \<noteq> [] \<and> starts_with e s) es")
    case None
    then show ?thesis by (subst strip_left.simps) simp
  next
    case (Some e)
    then have "starts_with e s" by (auto simp: find_Some_iff)
    then have "s = e @ drop (length e) s"
      by (metis append_take_drop_id starts_with_def)
    moreover from 1 Some obtain p where "drop (length e) s = p @ strip_left es (drop (length e) s)"
      by blast
    ultimately have "s = (e @ p) @ strip_left es (drop (length e) s)"
      by (metis append.assoc)
    moreover have "strip_left es s = strip_left es (drop (length e) s)"
      using Some by (subst strip_left.simps) simp
    ultimately show ?thesis by metis
  qed
qed

lemma strip_left_fixed:
  assumes "\<forall>e\<in>set es. \<not> starts_with e s"
  shows "strip_left es s = s"
proof -
  from assms have "find (\<lambda>e. e \<noteq> [] \<and> starts_with e s) es = None"
    by (auto simp: find_None_iff)
  then show ?thesis by (subst strip_left.simps) simp
qed

lemma strip_left_Nil [simp]: "strip_left es [] = []"
  using strip_left_suffix [of "[]" es] by simp

lemma space_encodings_nonempty: "[] \<notin> set space_encodings"
  by (simp add: space_encodings_def)

text \<open>A trimmed string begins and ends with no space; so trimming again changes nothing.\<close>

definition trimmed :: "string \<Rightarrow> bool" where
  "trimmed s \<longleftrightarrow>
     (\<forall>e\<in>set space_encodings. \<not> starts_with e s \<and> \<not> starts_with (rev e) (rev s))"

lemma trim_right_prefix: "\<exists>r. s = trim_right s @ r"
proof -
  obtain p where "rev s = p @ strip_left (map rev space_encodings) (rev s)"
    using strip_left_suffix by blast
  then have "rev (rev s) = rev (p @ strip_left (map rev space_encodings) (rev s))" by (rule arg_cong)
  then have "s = trim_right s @ rev p" by (simp add: trim_right_def)
  then show ?thesis ..
qed

lemma TrimSpace_trimmed: "trimmed (TrimSpace s)"
proof -
  let ?t = "trim_left s"
  have left: "\<forall>e\<in>set space_encodings. \<not> starts_with e ?t"
    using strip_left_done [OF space_encodings_nonempty] by (simp add: trim_left_def)
  have "[] \<notin> set (map rev space_encodings)"
    by (simp add: space_encodings_def)
  from strip_left_done [OF this] have right:
    "\<forall>e\<in>set space_encodings. \<not> starts_with (rev e) (rev (trim_right ?t))"
    by (simp add: trim_right_def)
  obtain r where r: "?t = trim_right ?t @ r"
    using trim_right_prefix by blast
  have "\<not> starts_with e (trim_right ?t)" if "e \<in> set space_encodings" for e
  proof
    assume "starts_with e (trim_right ?t)"
    then obtain q where "trim_right ?t = e @ q" by (auto simp: starts_with_iff)
    with r have "?t = e @ (q @ r)" by simp
    then have "starts_with e ?t" by (metis starts_with_iff)
    with left that show False by blast
  qed
  with right show ?thesis by (simp add: trimmed_def TrimSpace_def)
qed

lemma TrimSpace_id: "trimmed s \<Longrightarrow> TrimSpace s = s"
  by (simp add: TrimSpace_def trim_left_def trim_right_def strip_left_fixed trimmed_def)

lemma TrimSpace_idem [simp]: "TrimSpace (TrimSpace s) = TrimSpace s"
  by (simp add: TrimSpace_id TrimSpace_trimmed)

lemma TrimSpace_Nil [simp]: "TrimSpace [] = []"
  by (simp add: TrimSpace_def trim_left_def trim_right_def)

text \<open>
  PostgreSQL's \<open>btrim\<close> removes blanks only. A string that is not empty after
  \<open>TrimSpace\<close> is not empty after \<open>btrim\<close> either, since it does not begin with a blank.
\<close>

definition btrim :: "string \<Rightarrow> string" where
  "btrim s = rev (dropWhile (\<lambda>c. c = CHR '' '') (rev (dropWhile (\<lambda>c. c = CHR '' '') s)))"

lemma btrim_nonempty:
  assumes "s \<noteq> []" "hd s \<noteq> CHR '' ''"
  shows "btrim s \<noteq> []"
proof -
  from assms obtain x xs where s: "s = x # xs" and x: "x \<noteq> CHR '' ''"
    by (cases s) simp_all
  then have "dropWhile (\<lambda>c. c = CHR '' '') s = s" by simp
  moreover have "x \<in> set (rev s)" by (simp add: s)
  ultimately show ?thesis
    using x unfolding btrim_def rev_is_Nil_conv dropWhile_eq_Nil_conv by metis
qed

lemma trimmed_btrim_nonempty:
  assumes "trimmed s" "s \<noteq> []"
  shows "btrim s \<noteq> []"
proof -
  have "[CHR '' ''] \<in> set space_encodings" by (simp add: space_encodings_def)
  with assms(1) have "\<not> starts_with [CHR '' ''] s" by (auto simp: trimmed_def)
  with assms(2) have "hd s \<noteq> CHR '' ''" by (cases s) (auto simp: starts_with_def)
  with assms(2) show ?thesis by (rule btrim_nonempty)
qed

section \<open>Cutting, splitting, trimming a set of bytes\<close>

text \<open>
  \<open>strings.Cut\<close> splits around the first occurrence of a one-byte separator,
  \<open>strings.Split\<close> around every one, \<open>strings.TrimRight\<close> drops the bytes of a cutset.
\<close>

fun Cut :: "string \<Rightarrow> char \<Rightarrow> string \<times> string \<times> bool" where
  "Cut [] c = ([], [], False)"
| "Cut (x # xs) c =
     (if x = c then ([], xs, True)
      else (case Cut xs c of (before, after, found) \<Rightarrow> (x # before, after, found)))"

fun Split :: "string \<Rightarrow> char \<Rightarrow> string list" where
  "Split [] c = [[]]"
| "Split (x # xs) c =
     (if x = c then [] # Split xs c
      else (case Split xs c of [] \<Rightarrow> [[x]] | p # ps \<Rightarrow> (x # p) # ps))"

definition TrimRight :: "string \<Rightarrow> char \<Rightarrow> string" where
  "TrimRight s c = rev (dropWhile (\<lambda>x. x = c) (rev s))"

definition TrimPrefix :: "string \<Rightarrow> string \<Rightarrow> string" where
  "TrimPrefix s p = (if starts_with p s then drop (length p) s else s)"

text \<open>\<open>strings.ToUpper\<close> and \<open>strings.ToLower\<close> of ASCII text (methods and names of environment variables).\<close>

definition upper_letters :: string where "upper_letters = ''ABCDEFGHIJKLMNOPQRSTUVWXYZ''"
definition lower_letters :: string where "lower_letters = ''abcdefghijklmnopqrstuvwxyz''"

definition translate :: "string \<Rightarrow> string \<Rightarrow> char \<Rightarrow> char" where
  "translate source target c = (case map_of (zip source target) c of None \<Rightarrow> c | Some d \<Rightarrow> d)"

definition ToUpper :: "string \<Rightarrow> string" where
  "ToUpper = map (translate lower_letters upper_letters)"

definition ToLower :: "string \<Rightarrow> string" where
  "ToLower = map (translate upper_letters lower_letters)"

section \<open>Hexadecimal\<close>

definition hex_digit :: "nat \<Rightarrow> char" where
  "hex_digit n = ''0123456789abcdef'' ! n"

definition hex_byte :: "8 word \<Rightarrow> string" where
  "hex_byte b = [hex_digit (unat b div 16), hex_digit (unat b mod 16)]"

definition EncodeToString :: "8 word list \<Rightarrow> string" where
  "EncodeToString bs = concat (map hex_byte bs)"

lemma hex_digit_inj: "m < 16 \<Longrightarrow> n < 16 \<Longrightarrow> hex_digit m = hex_digit n \<Longrightarrow> m = n"
proof -
  assume *: "m < 16" "n < 16" "hex_digit m = hex_digit n"
  have "distinct ''0123456789abcdef''" by simp
  from nth_eq_iff_index_eq [OF this, of m n] * show "m = n" by (simp add: hex_digit_def)
qed

lemma hex_byte_inj: "hex_byte a = hex_byte b \<Longrightarrow> a = b"
proof -
  assume eq: "hex_byte a = hex_byte b"
  have bounds: "unat a < 256" "unat b < 256"
    using unsigned_less [of a] unsigned_less [of b] by simp_all
  have "unat a div 16 = unat b div 16"
    using eq bounds by (intro hex_digit_inj) (auto simp: hex_byte_def)
  moreover have "unat a mod 16 = unat b mod 16"
    using eq by (intro hex_digit_inj) (auto simp: hex_byte_def)
  ultimately have "unat a = unat b" by (metis div_mult_mod_eq)
  then show "a = b" by (simp add: word_unat_eq_iff)
qed

lemma EncodeToString_length: "length (EncodeToString bs) = 2 * length bs"
  by (induction bs) (simp_all add: EncodeToString_def hex_byte_def)

lemma EncodeToString_inj: "EncodeToString as = EncodeToString bs \<Longrightarrow> as = bs"
proof (induction as arbitrary: bs)
  case Nil
  then show ?case by (cases bs) (auto simp: EncodeToString_def hex_byte_def)
next
  case (Cons a as)
  show ?case
  proof (cases bs)
    case Nil
    with Cons.prems show ?thesis by (simp add: EncodeToString_def hex_byte_def)
  next
    case (Cons b bs')
    with Cons.prems have "hex_byte a @ EncodeToString as = hex_byte b @ EncodeToString bs'"
      by (simp add: EncodeToString_def)
    then have "hex_byte a = hex_byte b" "EncodeToString as = EncodeToString bs'"
      by (simp_all add: hex_byte_def)
    with Cons Cons.IH show ?thesis by (auto dest: hex_byte_inj)
  qed
qed

end
