(* ===== verification/Lua_Numbers.thy ===== *)
theory Lua_Numbers
  imports Complex_Main "HOL-Library.Log_Nat"
begin

text \<open>
  The numbers of the Lua scripts Redis runs. Every number there is a binary64: the result of
  each arithmetic operation is rounded. The scripts' model takes the rounding as a function
  \<open>rnd\<close> applied after each operation, and rests on three facts about it: it is monotone, it
  is exact on the integers up to \<open>2 ^ 53\<close>, and it does not take a positive number to zero.
  \<open>fl64\<close> is rounding to nearest, ties to even, with a 53-bit significand (the exponent is not
  bounded: no number of these scripts comes near its limits); \<open>exact\<close> is arithmetic
  without rounding. Both are interpretations.
\<close>

locale lua_arith =
  fixes rnd :: "rat \<Rightarrow> rat"
  assumes rnd_mono: "x \<le> y \<Longrightarrow> rnd x \<le> rnd y"
    and rnd_int: "\<bar>n\<bar> \<le> 2 ^ 53 \<Longrightarrow> rnd (of_int n) = of_int n"
    and rnd_pos: "0 < x \<Longrightarrow> 0 < rnd x"
begin

lemma rnd_0 [simp]: "rnd 0 = 0"
  using rnd_int [of 0] by simp

lemma rnd_1 [simp]: "rnd 1 = 1"
  using rnd_int [of 1] by simp

lemma rnd_nonneg: "0 \<le> x \<Longrightarrow> 0 \<le> rnd x"
  using rnd_mono [of 0 x] by simp

lemma rnd_le_int: "x \<le> of_int n \<Longrightarrow> \<bar>n\<bar> \<le> 2 ^ 53 \<Longrightarrow> rnd x \<le> of_int n"
  using rnd_mono [of x "of_int n"] rnd_int [of n] by simp

lemma rnd_ge_int: "of_int n \<le> x \<Longrightarrow> \<bar>n\<bar> \<le> 2 ^ 53 \<Longrightarrow> of_int n \<le> rnd x"
  using rnd_mono [of "of_int n" x] rnd_int [of n] by simp

end

section \<open>Rounding to nearest, ties to even\<close>

definition round_even :: "rat \<Rightarrow> int" where
  "round_even x =
     (let f = \<lfloor>x\<rfloor>; d = x - of_int f
      in if d < 1 / 2 then f else if 1 / 2 < d then f + 1 else if even f then f else f + 1)"

text \<open>The binade of a positive number: the \<open>k\<close> with \<open>2 ^ k \<le> x < 2 ^ (k + 1)\<close>.\<close>

definition binade :: "rat \<Rightarrow> int" where
  "binade x =
     (let (p, q) = quotient_of x;
          k = bitlen p - bitlen q
      in if power_int 2 k \<le> x then k else k - 1)"

definition fl_pos :: "rat \<Rightarrow> rat" where
  "fl_pos x = (let u = power_int 2 (binade x - 52) in of_int (round_even (x / u)) * u)"

definition fl64 :: "rat \<Rightarrow> rat" where
  "fl64 x = (if x = 0 then 0 else if 0 < x then fl_pos x else - fl_pos (- x))"

definition exact :: "rat \<Rightarrow> rat" where
  "exact x = x"

lemma round_even_bounds: "\<lfloor>x\<rfloor> \<le> round_even x \<and> round_even x \<le> \<lceil>x\<rceil>"
proof (cases "x = of_int \<lfloor>x\<rfloor>")
  case True
  then show ?thesis by (auto simp: round_even_def Let_def)
next
  case False
  then have "\<lceil>x\<rceil> = \<lfloor>x\<rfloor> + 1" by linarith
  then show ?thesis by (auto simp: round_even_def Let_def)
qed

lemma round_even_int [simp]: "round_even (of_int n) = n"
  by (simp add: round_even_def)

lemma round_even_mono:
  assumes "x \<le> y"
  shows "round_even x \<le> round_even y"
proof (cases "\<lfloor>x\<rfloor> = \<lfloor>y\<rfloor>")
  case True
  with assms show ?thesis by (auto simp: round_even_def Let_def)
next
  case False
  with assms have "\<lfloor>x\<rfloor> + 1 \<le> \<lfloor>y\<rfloor>" by linarith
  moreover have "\<lceil>x\<rceil> \<le> \<lfloor>x\<rfloor> + 1" by linarith
  ultimately show ?thesis using round_even_bounds [of x] round_even_bounds [of y] by linarith
qed

text \<open>Bit lengths place a positive fraction in its binade.\<close>

lemma bitlen_power_int:
  assumes "0 < p"
  shows "power_int 2 (bitlen p - 1) \<le> (of_int p :: rat)" "(of_int p :: rat) < power_int 2 (bitlen p)"
proof -
  have "0 \<le> bitlen p - 1"
    using assms bitlen_eq_zero_iff [of p] bitlen_nonneg [of p] by linarith
  then have pow: "power_int 2 (bitlen p - 1) = (of_int (2 ^ nat (bitlen p - 1)) :: rat)"
      "power_int 2 (bitlen p) = (of_int (2 ^ nat (bitlen p)) :: rat)"
    using bitlen_nonneg [of p] by (simp_all add: power_int_def)
  show "power_int 2 (bitlen p - 1) \<le> (of_int p :: rat)" "(of_int p :: rat) < power_int 2 (bitlen p)"
    using bitlen_bounds [OF assms] unfolding pow of_int_le_iff of_int_less_iff by simp_all
qed

lemma binade_bounds:
  assumes "0 < x"
  shows "power_int 2 (binade x) \<le> x" "x < power_int 2 (binade x + 1)"
proof -
  obtain p q where pq: "quotient_of x = (p, q)" by (cases "quotient_of x")
  then have q: "0 < q" and x: "x = of_int p / of_int q"
    by (simp_all add: quotient_of_denom_pos quotient_of_div)
  with assms have p: "0 < p" by (simp add: zero_less_divide_iff)
  let ?k = "bitlen p - bitlen q"
  have "x < power_int 2 (bitlen p) / power_int 2 (bitlen q - 1)"
    unfolding x using bitlen_power_int [OF p] bitlen_power_int [OF q] p
    by (intro frac_less) simp_all
  then have hi: "x < power_int 2 (?k + 1)"
    by (simp add: power_int_diff [symmetric] diff_diff_eq2 add.commute add_diff_eq)
  have "power_int 2 (bitlen p - 1) / power_int 2 (bitlen q) \<le> x"
    unfolding x using bitlen_power_int [OF p] bitlen_power_int [OF q] p q
    by (intro frac_le) simp_all
  then have lo: "power_int 2 (?k - 1) \<le> x"
    by (simp add: power_int_diff [symmetric] diff_diff_eq add.commute)
  show "power_int 2 (binade x) \<le> x" "x < power_int 2 (binade x + 1)"
    using hi lo by (simp_all add: binade_def pq Let_def)
qed

lemma binade_mono:
  assumes "0 < x" "x \<le> y"
  shows "binade x \<le> binade y"
proof (rule ccontr)
  assume "\<not> binade x \<le> binade y"
  then have "power_int 2 (binade y + 1) \<le> (power_int 2 (binade x) :: rat)"
    by (intro power_int_increasing) simp_all
  with binade_bounds [OF assms(1)] binade_bounds [of y] assms show False by simp
qed

text \<open>The significand, scaled to an integer, has 53 bits.\<close>

lemma significand_bounds:
  assumes "0 < x"
  shows "2 ^ 52 \<le> x / power_int 2 (binade x - 52)" "x / power_int 2 (binade x - 52) < 2 ^ 53"
proof -
  have "power_int 2 (binade x) = (2 ^ 52 * power_int 2 (binade x - 52) :: rat)"
    by (simp add: power_int_diff)
  moreover have "power_int 2 (binade x + 1) = (2 ^ 53 * power_int 2 (binade x - 52) :: rat)"
    by (simp add: power_int_diff power_int_add)
  ultimately show "2 ^ 52 \<le> x / power_int 2 (binade x - 52)"
      "x / power_int 2 (binade x - 52) < 2 ^ 53"
    using binade_bounds [OF assms] by (simp_all add: pos_le_divide_eq pos_divide_less_eq)
qed

lemma round_even_le: "x \<le> of_int n \<Longrightarrow> round_even x \<le> n"
  using round_even_mono [of x "of_int n"] by simp

lemma round_even_ge: "of_int n \<le> x \<Longrightarrow> n \<le> round_even x"
  using round_even_mono [of "of_int n" x] by simp

lemma fl_pos_bounds:
  assumes "0 < x"
  shows "power_int 2 (binade x) \<le> fl_pos x" "fl_pos x \<le> power_int 2 (binade x + 1)"
proof -
  let ?u = "power_int 2 (binade x - 52) :: rat"
  have "2 ^ 52 \<le> round_even (x / ?u)"
    using significand_bounds [OF assms] by (intro round_even_ge) simp
  then have lo: "(2 ^ 52 :: rat) \<le> of_int (round_even (x / ?u))"
    by (metis of_int_le_iff of_int_numeral of_int_power)
  have "round_even (x / ?u) \<le> 2 ^ 53"
    using significand_bounds [OF assms] by (intro round_even_le) simp
  then have hi: "of_int (round_even (x / ?u)) \<le> (2 ^ 53 :: rat)"
    by (metis of_int_le_iff of_int_numeral of_int_power)
  have "power_int 2 (binade x) = (2 ^ 52 * ?u)" by (simp add: power_int_diff)
  also have "\<dots> \<le> fl_pos x"
    unfolding fl_pos_def Let_def using lo by (intro mult_right_mono) simp_all
  finally show "power_int 2 (binade x) \<le> fl_pos x" .
  have "fl_pos x \<le> 2 ^ 53 * ?u"
    unfolding fl_pos_def Let_def using hi by (intro mult_right_mono) simp_all
  also have "\<dots> = power_int 2 (binade x + 1)" by (simp add: power_int_diff power_int_add)
  finally show "fl_pos x \<le> power_int 2 (binade x + 1)" .
qed

lemma fl_pos_mono:
  assumes "0 < x" "x \<le> y"
  shows "fl_pos x \<le> fl_pos y"
proof (cases "binade x = binade y")
  case True
  then show ?thesis
    unfolding fl_pos_def Let_def using assms
    by (auto intro!: mult_right_mono round_even_mono divide_right_mono)
next
  case False
  with binade_mono [OF assms] have "binade x + 1 \<le> binade y" by simp
  then have "power_int 2 (binade x + 1) \<le> (power_int 2 (binade y) :: rat)"
    by (intro power_int_increasing) simp_all
  with fl_pos_bounds(2) [of x] fl_pos_bounds(1) [of y] assms show ?thesis by simp
qed

lemma fl_pos_positive: "0 < x \<Longrightarrow> 0 < fl_pos x"
  using fl_pos_bounds(1) [of x] by (meson less_le_trans zero_less_numeral zero_less_power_int)

lemma fl_pos_int:
  assumes "0 < n" "n \<le> 2 ^ 53"
  shows "fl_pos (of_int n) = of_int n"
proof -
  let ?x = "of_int n :: rat" and ?k = "binade (of_int n)"
  have "power_int 2 ?k \<le> (2 ^ 53 :: rat)"
  proof -
    have "(of_int n :: rat) \<le> of_int (2 ^ 53)" using assms(2) by (simp only: of_int_le_iff)
    with binade_bounds(1) [of ?x] assms show ?thesis by simp
  qed
  then have k: "?k \<le> 53"
    using power_int_strict_increasing [of 53 ?k "2 :: rat"] by fastforce
  have "of_int (round_even (?x / power_int 2 (?k - 52))) = ?x / power_int 2 (?k - 52)"
  proof (cases "?k = 53")
    case True
    with binade_bounds(1) [of ?x] assms have "(2 ^ 53 :: rat) \<le> of_int n" by simp
    then have "(of_int (2 ^ 53) :: rat) \<le> of_int n" by simp
    with assms(2) have "n = 2 ^ 53" by (simp only: of_int_le_iff)
    with True have "?x / power_int 2 (?k - 52) = of_int (2 ^ 52)" by simp
    then show ?thesis by (metis round_even_int)
  next
    case False
    with k have "power_int 2 (?k - 52) = (inverse (of_int (2 ^ nat (52 - ?k))) :: rat)"
      by (auto simp: power_int_def power_one_over inverse_eq_divide)
    then have "?x / power_int 2 (?k - 52) = of_int (n * 2 ^ nat (52 - ?k))"
      by (simp add: divide_inverse)
    then show ?thesis by (metis round_even_int)
  qed
  then show ?thesis by (simp add: fl_pos_def Let_def)
qed

interpretation binary64: lua_arith fl64
proof unfold_locales
  fix x y :: rat
  assume le: "x \<le> y"
  consider "0 < x" | "x \<le> 0" "0 \<le> y" | "y < 0" using le by linarith
  then show "fl64 x \<le> fl64 y"
  proof cases
    case 1
    with le show ?thesis by (simp add: fl64_def fl_pos_mono)
  next
    case 2
    then have "fl64 x \<le> 0" "0 \<le> fl64 y"
      using fl_pos_positive [of "- x"] fl_pos_positive [of y] by (auto simp: fl64_def)
    then show ?thesis by simp
  next
    case 3
    with le show ?thesis by (simp add: fl64_def fl_pos_mono)
  qed
next
  fix n :: int
  assume "\<bar>n\<bar> \<le> 2 ^ 53"
  then show "fl64 (of_int n) = of_int n"
    using fl_pos_int [of n] fl_pos_int [of "- n"] by (cases "n = 0"; cases "0 < n") (auto simp: fl64_def)
next
  fix x :: rat
  assume "0 < x"
  then show "0 < fl64 x" by (simp add: fl64_def fl_pos_positive)
qed

interpretation unrounded: lua_arith exact
  by unfold_locales (simp_all add: exact_def)

lemma fl64_tenth: "fl64 (1 / 10) = 3602879701896397 / 36028797018963968"
  by code_simp

end
