(* ===== verification/Redis_Keyspace.thy ===== *)
theory Redis_Keyspace
  imports Complex_Main "HOL-Library.AList"
begin

text \<open>
  The Redis commands the server's Lua scripts and Go code call, as an interface. Redis is not
  part of the repository, so the commands are a record of functions over an abstract server
  state \<open>'r\<close>, and the locale \<open>redis_keyspace\<close> states what their documentation promises in
  terms of two views of that state: the value under a key and the key's remaining time to live
  in milliseconds. \<open>mem_redis\<close> is a concrete keyspace with these commands; its interpretation
  shows that the laws can be met and lets a concrete run be evaluated.
\<close>

section \<open>Values and commands\<close>

text \<open>
  Hash fields and scores hold the numbers the rate limiter stores there. A key with an empty
  sorted set does not exist. Commands on a key of another type fail; the laws below speak of
  keys of the right type only.
\<close>

datatype redis_value =
    Str string
  | Hash "string \<rightharpoonup> rat"
  | ZSet "string \<rightharpoonup> rat"

record 'r redis_commands =
  EXISTS :: "'r \<Rightarrow> string \<Rightarrow> bool"
  GET :: "'r \<Rightarrow> string \<Rightarrow> string option"
  SETPX :: "'r \<Rightarrow> string \<Rightarrow> string \<Rightarrow> int \<Rightarrow> 'r option"
    \<comment> \<open>\<open>SET key value PX ms\<close>; an expiry that is not positive is refused\<close>
  DEL :: "'r \<Rightarrow> string \<Rightarrow> 'r"
  HMGET :: "'r \<Rightarrow> string \<Rightarrow> string \<Rightarrow> string \<Rightarrow> rat option \<times> rat option"
  HSET :: "'r \<Rightarrow> string \<Rightarrow> string \<Rightarrow> rat \<Rightarrow> string \<Rightarrow> rat \<Rightarrow> 'r"
  ZREMUPTO :: "'r \<Rightarrow> string \<Rightarrow> rat \<Rightarrow> 'r"
    \<comment> \<open>\<open>ZREMRANGEBYSCORE key -inf max\<close>\<close>
  ZCARD :: "'r \<Rightarrow> string \<Rightarrow> nat"
  ZADD :: "'r \<Rightarrow> string \<Rightarrow> rat \<Rightarrow> string \<Rightarrow> 'r"
  ZFIRST :: "'r \<Rightarrow> string \<Rightarrow> rat option"
    \<comment> \<open>the score in \<open>ZRANGE key 0 0 WITHSCORES\<close>\<close>
  PEXPIRE :: "'r \<Rightarrow> string \<Rightarrow> rat \<Rightarrow> 'r"

definition is_hash :: "redis_value option \<Rightarrow> bool" where
  "is_hash v = (case v of None \<Rightarrow> True | Some (Hash h) \<Rightarrow> True | _ \<Rightarrow> False)"

definition is_zset :: "redis_value option \<Rightarrow> bool" where
  "is_zset v = (case v of None \<Rightarrow> True | Some (ZSet z) \<Rightarrow> True | _ \<Rightarrow> False)"

definition is_str :: "redis_value option \<Rightarrow> bool" where
  "is_str v = (case v of None \<Rightarrow> True | Some (Str s) \<Rightarrow> True | _ \<Rightarrow> False)"

definition hash_at :: "redis_value option \<Rightarrow> string \<rightharpoonup> rat" where
  "hash_at v = (case v of Some (Hash h) \<Rightarrow> h | _ \<Rightarrow> Map.empty)"

definition zset_at :: "redis_value option \<Rightarrow> string \<rightharpoonup> rat" where
  "zset_at v = (case v of Some (ZSet z) \<Rightarrow> z | _ \<Rightarrow> Map.empty)"

definition str_at :: "redis_value option \<Rightarrow> string option" where
  "str_at v = (case v of Some (Str s) \<Rightarrow> Some s | _ \<Rightarrow> None)"

definition zset_value :: "(string \<rightharpoonup> rat) \<Rightarrow> redis_value option" where
  "zset_value z = (if z = Map.empty then None else Some (ZSet z))"

definition above :: "rat \<Rightarrow> (string \<rightharpoonup> rat) \<Rightarrow> string \<rightharpoonup> rat" where
  "above m z = (\<lambda>x. case z x of None \<Rightarrow> None | Some s \<Rightarrow> if s \<le> m then None else Some s)"

lemmas redis_views = is_hash_def is_zset_def is_str_def hash_at_def zset_at_def str_at_def

lemma zset_at_value [simp]: "zset_at (zset_value z) = z"
  by (simp add: zset_at_def zset_value_def)

lemma is_zset_value [simp]: "is_zset (zset_value z)"
  by (simp add: is_zset_def zset_value_def)

lemma above_Some_iff: "above m z x = Some s \<longleftrightarrow> z x = Some s \<and> m < s"
  by (auto simp: above_def split: option.splits)

section \<open>The interface\<close>

locale redis_keyspace =
  fixes R :: "'r redis_commands"
    and kv :: "'r \<Rightarrow> string \<Rightarrow> redis_value option"
    and ttl :: "'r \<Rightarrow> string \<Rightarrow> int option"
    and elapse :: "'r \<Rightarrow> int \<Rightarrow> 'r"
  assumes exists: "EXISTS R r k \<longleftrightarrow> kv r k \<noteq> None"
    and get: "is_str (kv r k) \<Longrightarrow> GET R r k = str_at (kv r k)"
    and setpx_refused: "px \<le> 0 \<Longrightarrow> SETPX R r k y px = None"
    and setpx: "0 < px \<Longrightarrow> \<exists>r'. SETPX R r k y px = Some r' \<and>
                  kv r' = (kv r)(k \<mapsto> Str y) \<and> ttl r' = (ttl r)(k \<mapsto> px)"
    and del: "kv (DEL R r k) = (kv r)(k := None)"
    and del_ttl: "j \<noteq> k \<Longrightarrow> ttl (DEL R r k) j = ttl r j"
    and hmget: "is_hash (kv r k) \<Longrightarrow> HMGET R r k f g = (hash_at (kv r k) f, hash_at (kv r k) g)"
    and hset: "is_hash (kv r k) \<Longrightarrow>
                 kv (HSET R r k f v g w) = (kv r)(k \<mapsto> Hash ((hash_at (kv r k))(f \<mapsto> v, g \<mapsto> w)))"
    and zremupto: "is_zset (kv r k) \<Longrightarrow>
                 kv (ZREMUPTO R r k m) = (kv r)(k := zset_value (above m (zset_at (kv r k))))"
    and zset_finite: "finite (dom (zset_at (kv r k)))"
    and zcard: "is_zset (kv r k) \<Longrightarrow> ZCARD R r k = card (dom (zset_at (kv r k)))"
    and zadd: "is_zset (kv r k) \<Longrightarrow>
                 kv (ZADD R r k s x) = (kv r)(k := zset_value ((zset_at (kv r k))(x \<mapsto> s)))"
    and zfirst_none: "is_zset (kv r k) \<Longrightarrow> ZFIRST R r k = None \<longleftrightarrow> zset_at (kv r k) = Map.empty"
    and zfirst_some: "is_zset (kv r k) \<Longrightarrow> ZFIRST R r k = Some s \<Longrightarrow>
                 s \<in> ran (zset_at (kv r k)) \<and> (\<forall>t\<in>ran (zset_at (kv r k)). s \<le> t)"
    and pexpire: "0 < t \<Longrightarrow> kv (PEXPIRE R r k t) = kv r"
    and pexpire_now: "t \<le> 0 \<Longrightarrow> kv (PEXPIRE R r k t) = (kv r)(k := None)"
    and elapsed: "0 \<le> d \<Longrightarrow> kv (elapse r d) k =
                 (case ttl r k of Some t \<Rightarrow> if t \<le> d then None else kv r k | None \<Rightarrow> kv r k)"
    and hset_ttl: "j \<noteq> k \<Longrightarrow> ttl (HSET R r k f v g w) j = ttl r j"
    and zremupto_ttl: "j \<noteq> k \<Longrightarrow> ttl (ZREMUPTO R r k m) j = ttl r j"
    and zadd_ttl: "j \<noteq> k \<Longrightarrow> ttl (ZADD R r k s x) j = ttl r j"
    and pexpire_ttl: "j \<noteq> k \<Longrightarrow> ttl (PEXPIRE R r k t) j = ttl r j"
    and pexpire_sets: "0 < t \<Longrightarrow> kv r k \<noteq> None \<Longrightarrow> ttl (PEXPIRE R r k t) k = Some \<lfloor>t\<rfloor>"
    and elapsed_ttl: "0 \<le> d \<Longrightarrow> ttl r k = Some px \<Longrightarrow> d < px \<Longrightarrow> ttl (elapse r d) k = Some (px - d)"
begin

lemma del_other [simp]: "j \<noteq> k \<Longrightarrow> kv (DEL R r k) j = kv r j"
  by (simp add: del)

lemma elapse_only_removes: "0 \<le> d \<Longrightarrow> kv (elapse r d) k = None \<or> kv (elapse r d) k = kv r k"
  by (auto simp: elapsed split: option.splits)

end

section \<open>A concrete keyspace\<close>

datatype mem_value =
    MStr string
  | MHash "(string \<times> rat) list"
  | MZSet "(string \<times> rat) list"

type_synonym mem_redis = "(string \<times> mem_value \<times> int option) list"

definition mem_view :: "mem_value \<Rightarrow> redis_value option" where
  "mem_view v =
     (case v of MStr s \<Rightarrow> Some (Str s) | MHash h \<Rightarrow> Some (Hash (map_of h))
      | MZSet z \<Rightarrow> zset_value (map_of z))"

definition mem_kv :: "mem_redis \<Rightarrow> string \<Rightarrow> redis_value option" where
  "mem_kv r k = (case map_of r k of None \<Rightarrow> None | Some (v, t) \<Rightarrow> mem_view v)"

definition mem_ttl :: "mem_redis \<Rightarrow> string \<Rightarrow> int option" where
  "mem_ttl r k = (case map_of r k of None \<Rightarrow> None | Some (v, t) \<Rightarrow> t)"

definition mem_hash :: "mem_redis \<Rightarrow> string \<Rightarrow> (string \<times> rat) list" where
  "mem_hash r k = (case map_of r k of Some (MHash h, t) \<Rightarrow> h | _ \<Rightarrow> [])"

definition mem_zset :: "mem_redis \<Rightarrow> string \<Rightarrow> (string \<times> rat) list" where
  "mem_zset r k = (case map_of r k of Some (MZSet z, t) \<Rightarrow> z | _ \<Rightarrow> [])"

definition mem_put :: "mem_redis \<Rightarrow> string \<Rightarrow> mem_value \<Rightarrow> mem_redis" where
  "mem_put r k v = AList.update k (v, mem_ttl r k) r"

fun mem_least :: "(string \<times> rat) list \<Rightarrow> rat option" where
  "mem_least [] = None"
| "mem_least ((m, s) # z) = (case mem_least z of None \<Rightarrow> Some s | Some t \<Rightarrow> Some (min s t))"

definition mem_commands :: "mem_redis redis_commands" where
  "mem_commands =
     \<lparr>EXISTS = (\<lambda>r k. case map_of r k of None \<Rightarrow> False | Some (MZSet [], t) \<Rightarrow> False | _ \<Rightarrow> True),
      GET = (\<lambda>r k. case map_of r k of Some (MStr s, t) \<Rightarrow> Some s | _ \<Rightarrow> None),
      SETPX = (\<lambda>r k v px. if px \<le> 0 then None else Some (AList.update k (MStr v, Some px) r)),
      DEL = (\<lambda>r k. AList.delete k r),
      HMGET = (\<lambda>r k f g. (map_of (mem_hash r k) f, map_of (mem_hash r k) g)),
      HSET = (\<lambda>r k f v g w. mem_put r k (MHash (AList.update g w (AList.update f v (mem_hash r k))))),
      ZREMUPTO = (\<lambda>r k m.
         mem_put r k (MZSet (filter (\<lambda>(x, s). m < s) (AList.clearjunk (mem_zset r k))))),
      ZCARD = (\<lambda>r k. length (AList.clearjunk (mem_zset r k))),
      ZADD = (\<lambda>r k s m. mem_put r k (MZSet (AList.update m s (AList.clearjunk (mem_zset r k))))),
      ZFIRST = (\<lambda>r k. mem_least (AList.clearjunk (mem_zset r k))),
      PEXPIRE = (\<lambda>r k t.
         if t \<le> 0 then AList.delete k r
         else (case map_of r k of None \<Rightarrow> r
               | Some (v, old) \<Rightarrow> AList.update k (v, Some \<lfloor>t\<rfloor>) r))\<rparr>"

definition mem_live :: "int \<Rightarrow> string \<Rightarrow> mem_value \<times> int option \<Rightarrow> bool" where
  "mem_live d k e = (case snd e of Some ms \<Rightarrow> d < ms | None \<Rightarrow> True)"

definition mem_age :: "int \<Rightarrow> mem_value \<times> int option \<Rightarrow> mem_value \<times> int option" where
  "mem_age d e = (fst e, map_option (\<lambda>ms. ms - d) (snd e))"

definition mem_elapse :: "mem_redis \<Rightarrow> int \<Rightarrow> mem_redis" where
  "mem_elapse r d =
     map (\<lambda>(k, e). (k, mem_age d e)) (filter (\<lambda>(k, e). mem_live d k e) (AList.clearjunk r))"

lemma map_of_filter_distinct:
  "distinct (map fst al) \<Longrightarrow>
   map_of (filter (\<lambda>(k, v). P k v) al) x =
     (case map_of al x of None \<Rightarrow> None | Some v \<Rightarrow> if P x v then Some v else None)"
  by (induction al) (auto split: option.splits dest: map_of_SomeD simp: image_iff)

lemma mem_least_None [simp]: "mem_least z = None \<longleftrightarrow> z = []"
  by (cases z) (auto split: option.splits)

lemma mem_least_Some:
  "mem_least z = Some s \<Longrightarrow> s \<in> snd ` set z \<and> (\<forall>t\<in>snd ` set z. s \<le> t)"
proof (induction z arbitrary: s)
  case (Cons a z)
  then show ?case by (cases a; cases "mem_least z") (auto simp: min_def split: if_splits)
qed simp

lemma ran_of_clearjunk: "snd ` set (AList.clearjunk z) = ran (map_of z)"
  by (metis distinct_clearjunk ran_distinct map_of_clearjunk)

lemma mem_kv_cases:
  "mem_kv r k = (case map_of r k of None \<Rightarrow> None | Some (MStr s, t) \<Rightarrow> Some (Str s)
     | Some (MHash h, t) \<Rightarrow> Some (Hash (map_of h)) | Some (MZSet z, t) \<Rightarrow> zset_value (map_of z))"
  by (auto simp: mem_kv_def mem_view_def split: option.splits mem_value.splits)

lemma mem_kv_put: "mem_kv (mem_put r k v) = (mem_kv r)(k := mem_view v)"
  by (auto simp: mem_kv_def mem_put_def update_conv fun_eq_iff)

lemma mem_hash_view: "is_hash (mem_kv r k) \<Longrightarrow> map_of (mem_hash r k) = hash_at (mem_kv r k)"
  by (auto simp: mem_kv_cases mem_hash_def redis_views zset_value_def
      split: option.splits mem_value.splits if_splits)

lemma mem_zset_view: "map_of (mem_zset r k) = zset_at (mem_kv r k)"
  by (auto simp: mem_kv_cases mem_zset_def redis_views zset_value_def
      split: option.splits mem_value.splits)

lemma mem_zset_finite: "finite (dom (zset_at (mem_kv r k)))"
  by (metis mem_zset_view finite_dom_map_of)

lemma mem_zset_card: "length (AList.clearjunk (mem_zset r k)) = card (dom (zset_at (mem_kv r k)))"
  by (metis mem_zset_view distinct_card distinct_clearjunk dom_clearjunk dom_map_of_conv_image_fst
      length_map list.set_map)

lemma mem_above:
  "map_of (filter (\<lambda>(x, s). m < s) (AList.clearjunk (mem_zset r k))) = above m (zset_at (mem_kv r k))"
  by (auto simp: fun_eq_iff above_def map_of_filter_distinct [OF distinct_clearjunk]
      map_of_clearjunk mem_zset_view split: option.splits)

lemma mem_ttl_put: "j \<noteq> k \<Longrightarrow> mem_ttl (mem_put r k v) j = mem_ttl r j"
  by (simp add: mem_ttl_def mem_put_def update_conv)

lemma map_of_elapse:
  "map_of (mem_elapse r d) k = map_option (mem_age d)
     (case map_of r k of None \<Rightarrow> None | Some e \<Rightarrow> if mem_live d k e then Some e else None)"
  by (simp add: mem_elapse_def map_of_map map_of_filter_distinct [OF distinct_clearjunk] map_of_clearjunk)

lemma mem_elapse_view:
  "0 \<le> d \<Longrightarrow> mem_kv (mem_elapse r d) k =
     (case mem_ttl r k of Some t \<Rightarrow> if t \<le> d then None else mem_kv r k | None \<Rightarrow> mem_kv r k)"
  by (auto simp: mem_kv_def mem_ttl_def map_of_elapse mem_live_def mem_age_def split: option.splits prod.splits)

lemma mem_elapse_ttl:
  "0 \<le> d \<Longrightarrow> mem_ttl r k = Some px \<Longrightarrow> d < px \<Longrightarrow> mem_ttl (mem_elapse r d) k = Some (px - d)"
  by (auto simp: mem_ttl_def map_of_elapse mem_live_def mem_age_def split: option.splits prod.splits)

interpretation mem: redis_keyspace mem_commands mem_kv mem_ttl mem_elapse
proof unfold_locales
  fix r :: mem_redis and k f g x :: string and v w t s m :: rat and d px :: int and y :: string
  show "EXISTS mem_commands r k \<longleftrightarrow> mem_kv r k \<noteq> None"
    by (auto simp: mem_commands_def mem_kv_cases zset_value_def split: option.splits mem_value.splits list.splits)
  show "is_str (mem_kv r k) \<Longrightarrow> GET mem_commands r k = str_at (mem_kv r k)"
    by (auto simp: mem_commands_def mem_kv_cases redis_views zset_value_def
        split: option.splits mem_value.splits if_splits)
  show "px \<le> 0 \<Longrightarrow> SETPX mem_commands r k y px = None"
    by (simp add: mem_commands_def)
  show "0 < px \<Longrightarrow> \<exists>r'. SETPX mem_commands r k y px = Some r' \<and>
      mem_kv r' = (mem_kv r)(k \<mapsto> Str y) \<and> mem_ttl r' = (mem_ttl r)(k \<mapsto> px)"
    by (auto simp: mem_commands_def mem_kv_def mem_ttl_def update_conv mem_view_def fun_eq_iff)
  show "mem_kv (DEL mem_commands r k) = (mem_kv r)(k := None)"
    by (auto simp: mem_commands_def mem_kv_def delete_conv fun_eq_iff)
  show "x \<noteq> k \<Longrightarrow> mem_ttl (DEL mem_commands r k) x = mem_ttl r x"
    by (auto simp: mem_commands_def mem_ttl_def delete_conv)
  show "is_hash (mem_kv r k) \<Longrightarrow>
      HMGET mem_commands r k f g = (hash_at (mem_kv r k) f, hash_at (mem_kv r k) g)"
    by (simp add: mem_commands_def mem_hash_view)
  show "is_hash (mem_kv r k) \<Longrightarrow> mem_kv (HSET mem_commands r k f v g w) =
      (mem_kv r)(k \<mapsto> Hash ((hash_at (mem_kv r k))(f \<mapsto> v, g \<mapsto> w)))"
    by (simp add: mem_commands_def mem_kv_put mem_view_def update_conv' mem_hash_view)
  show "is_zset (mem_kv r k) \<Longrightarrow> mem_kv (ZREMUPTO mem_commands r k m) =
      (mem_kv r)(k := zset_value (above m (zset_at (mem_kv r k))))"
    by (simp add: mem_commands_def mem_kv_put mem_view_def mem_above)
  show "finite (dom (zset_at (mem_kv r k)))"
    by (rule mem_zset_finite)
  show "is_zset (mem_kv r k) \<Longrightarrow> ZCARD mem_commands r k = card (dom (zset_at (mem_kv r k)))"
    by (simp add: mem_commands_def mem_zset_card)
  show "is_zset (mem_kv r k) \<Longrightarrow> mem_kv (ZADD mem_commands r k s x) =
      (mem_kv r)(k := zset_value ((zset_at (mem_kv r k))(x \<mapsto> s)))"
    by (simp add: mem_commands_def mem_kv_put mem_view_def update_conv' map_of_clearjunk mem_zset_view)
  show "is_zset (mem_kv r k) \<Longrightarrow> ZFIRST mem_commands r k = None \<longleftrightarrow> zset_at (mem_kv r k) = Map.empty"
    using mem_zset_view [of r k] by (auto simp: mem_commands_def) (metis map_of_eq_empty_iff map_of_clearjunk)+
  show "is_zset (mem_kv r k) \<Longrightarrow> ZFIRST mem_commands r k = Some s \<Longrightarrow>
      s \<in> ran (zset_at (mem_kv r k)) \<and> (\<forall>t\<in>ran (zset_at (mem_kv r k)). s \<le> t)"
    using mem_least_Some ran_of_clearjunk mem_zset_view by (metis (no_types, lifting) mem_commands_def redis_commands.select_convs(10))
  show "0 < t \<Longrightarrow> mem_kv (PEXPIRE mem_commands r k t) = mem_kv r"
    by (auto simp: mem_commands_def mem_kv_def update_conv fun_eq_iff split: option.splits prod.splits)
  show "t \<le> 0 \<Longrightarrow> mem_kv (PEXPIRE mem_commands r k t) = (mem_kv r)(k := None)"
    by (auto simp: mem_commands_def mem_kv_def delete_conv fun_eq_iff)
  show "0 \<le> d \<Longrightarrow> mem_kv (mem_elapse r d) k =
      (case mem_ttl r k of Some t \<Rightarrow> if t \<le> d then None else mem_kv r k | None \<Rightarrow> mem_kv r k)"
    by (rule mem_elapse_view)
  show "x \<noteq> k \<Longrightarrow> mem_ttl (HSET mem_commands r k f v g w) x = mem_ttl r x"
    "x \<noteq> k \<Longrightarrow> mem_ttl (ZREMUPTO mem_commands r k m) x = mem_ttl r x"
    "x \<noteq> k \<Longrightarrow> mem_ttl (ZADD mem_commands r k s y) x = mem_ttl r x"
    by (simp_all add: mem_commands_def mem_ttl_put)
  show "x \<noteq> k \<Longrightarrow> mem_ttl (PEXPIRE mem_commands r k t) x = mem_ttl r x"
    by (auto simp: mem_commands_def mem_ttl_def update_conv delete_conv split: option.splits)
  show "0 < t \<Longrightarrow> mem_kv r k \<noteq> None \<Longrightarrow> mem_ttl (PEXPIRE mem_commands r k t) k = Some \<lfloor>t\<rfloor>"
    by (auto simp: mem_commands_def mem_ttl_def mem_kv_def update_conv split: option.splits)
  show "0 \<le> d \<Longrightarrow> mem_ttl r k = Some px \<Longrightarrow> d < px \<Longrightarrow> mem_ttl (mem_elapse r d) k = Some (px - d)"
    by (rule mem_elapse_ttl)
qed

end
