(* ===== verification/Rate_Limit.thy ===== *)
theory Rate_Limit
  imports Go_Strings Lua_Numbers Redis_Keyspace
begin

text \<open>
  The distributed rate limiter, \<open>internal/infra/ratelimit/redis.go\<close>: the rule and its
  validation, the Lua script \<open>hybridLimitScript\<close> that Redis runs atomically, and
  \<open>RedisLimiter.Allow\<close> around it.
\<close>

section \<open>Rules and decisions\<close>

record rule =
  ImmediateRequests :: int
  RestoreImmediateRequestsOver :: duration
  MaximumRequests :: int
  MaximumWindow :: duration

record decision =
  Allowed :: bool
  RetryAfter :: duration

definition no_decision :: decision where
  "no_decision = \<lparr>Allowed = False, RetryAfter = 0\<rparr>"

definition ErrLimitExceeded :: string where
  "ErrLimitExceeded = ''ratelimit.ErrLimitExceeded''"

definition validateRule :: "rule \<Rightarrow> go_error option" where
  "validateRule rule =
     (if ImmediateRequests rule < 1 \<or> RestoreImmediateRequestsOver rule \<le> 0 \<or>
         MaximumRequests rule < 1 \<or> MaximumWindow rule \<le> 0
      then Some (Errorf ''rate-limit rule values must be positive'') else None)"

section \<open>The script\<close>

text \<open>
  \<open>restored\<close> is the refill of the immediate allowance. A period of zero milliseconds (a
  rule below one millisecond) makes the quotient infinite, or not a number when no time has
  passed; \<open>math.min\<close> with the limit first gives the limit in both cases.
\<close>

definition restored :: "(rat \<Rightarrow> rat) \<Rightarrow> int \<Rightarrow> int \<Rightarrow> rat \<Rightarrow> rat \<Rightarrow> rat" where
  "restored rnd limit period remaining elapsed =
     (if period = 0 then of_int limit
      else min (of_int limit) (rnd (remaining + rnd (rnd (elapsed * of_int limit) / of_int period))))"

definition token_wait :: "(rat \<Rightarrow> rat) \<Rightarrow> int \<Rightarrow> int \<Rightarrow> rat \<Rightarrow> rat" where
  "token_wait rnd limit period remaining =
     (if remaining < 1
      then of_int \<lceil>rnd (rnd (rnd (1 - remaining) * of_int period) / of_int limit)\<rceil> else 0)"

definition window_wait :: "(rat \<Rightarrow> rat) \<Rightarrow> int \<Rightarrow> rat \<Rightarrow> rat option \<Rightarrow> rat" where
  "window_wait rnd window now oldest =
     (case oldest of None \<Rightarrow> 0 | Some s \<Rightarrow> max 0 (rnd (rnd (s + of_int window) - now)))"

definition hybridLimitScript ::
  "(rat \<Rightarrow> rat) \<Rightarrow> 'r redis_commands \<Rightarrow> 'r \<Rightarrow> string \<Rightarrow> string \<Rightarrow>
   int \<Rightarrow> int \<Rightarrow> int \<Rightarrow> int \<Rightarrow> int \<Rightarrow> string \<Rightarrow> 'r \<times> int list" where
  "hybridLimitScript rnd R r0 bucket window now_ms immediate_limit restoration_period
       maximum_window maximum_requests member =
     (let now = of_int now_ms;
          (remaining, updated_at) =
            (case HMGET R r0 bucket ''tokens'' ''updated_at'' of
               (Some t, Some u) \<Rightarrow> (t, u)
             | _ \<Rightarrow> (of_int immediate_limit, now));
          elapsed = max 0 (rnd (now - updated_at));
          remaining = restored rnd immediate_limit restoration_period remaining elapsed;
          r1 = ZREMUPTO R r0 window (rnd (now - of_int maximum_window));
          count = int (ZCARD R r1 window);
          allowed = (1 \<le> remaining \<and> count < maximum_requests);
          (remaining, r2) =
            (if allowed then (rnd (remaining - 1), ZADD R r1 window now member) else (remaining, r1));
          r3 = HSET R r2 bucket ''tokens'' remaining ''updated_at'' now;
          ttl = rnd (max (of_int restoration_period) (of_int maximum_window) * 2);
          r4 = PEXPIRE R r3 bucket ttl;
          r5 = PEXPIRE R r4 window ttl;
          token_retry = token_wait rnd immediate_limit restoration_period remaining;
          window_retry =
            (if maximum_requests \<le> count
             then window_wait rnd maximum_window now (ZFIRST R r5 window) else 0)
      in (r5, [if allowed then 1 else 0, \<lfloor>max token_retry window_retry\<rfloor>]))"

section \<open>What the script computes, without Redis\<close>

text \<open>
  \<open>limit_step\<close> is the script's effect on the two values it owns: the bucket (tokens and
  time of the last update, if any) and the window (event identifiers with their times).
\<close>

record limit_state =
  bucket_of :: "(rat \<times> rat) option"
  window_of :: "string \<rightharpoonup> rat"

definition tokens_now :: "(rat \<Rightarrow> rat) \<Rightarrow> int \<Rightarrow> int \<Rightarrow> limit_state \<Rightarrow> rat \<Rightarrow> rat" where
  "tokens_now rnd limit period s now =
     (case bucket_of s of
        None \<Rightarrow> restored rnd limit period (of_int limit) 0
      | Some (t, u) \<Rightarrow> restored rnd limit period t (max 0 (rnd (now - u))))"

definition recent :: "(rat \<Rightarrow> rat) \<Rightarrow> int \<Rightarrow> limit_state \<Rightarrow> rat \<Rightarrow> string \<rightharpoonup> rat" where
  "recent rnd window s now = above (rnd (now - of_int window)) (window_of s)"

definition grants :: "(rat \<Rightarrow> rat) \<Rightarrow> int \<Rightarrow> int \<Rightarrow> int \<Rightarrow> int \<Rightarrow> limit_state \<Rightarrow> rat \<Rightarrow> bool" where
  "grants rnd limit period window maximum s now \<longleftrightarrow>
     1 \<le> tokens_now rnd limit period s now \<and> int (card (dom (recent rnd window s now))) < maximum"

definition limit_step ::
  "(rat \<Rightarrow> rat) \<Rightarrow> int \<Rightarrow> int \<Rightarrow> int \<Rightarrow> int \<Rightarrow> limit_state \<Rightarrow> rat \<Rightarrow> string \<Rightarrow> limit_state" where
  "limit_step rnd limit period window maximum s now member =
     (let t = tokens_now rnd limit period s now; z = recent rnd window s now
      in if grants rnd limit period window maximum s now
         then \<lparr>bucket_of = Some (rnd (t - 1), now), window_of = z(member \<mapsto> now)\<rparr>
         else \<lparr>bucket_of = Some (t, now), window_of = z\<rparr>)"

definition limit_view :: "('r \<Rightarrow> string \<Rightarrow> redis_value option) \<Rightarrow> 'r \<Rightarrow> string \<Rightarrow> string \<Rightarrow> limit_state" where
  "limit_view kv r bucket window =
     \<lparr>bucket_of =
        (case (hash_at (kv r bucket) ''tokens'', hash_at (kv r bucket) ''updated_at'') of
           (Some t, Some u) \<Rightarrow> Some (t, u) | _ \<Rightarrow> None),
      window_of = zset_at (kv r window)\<rparr>"

definition integral :: "(string \<rightharpoonup> rat) \<Rightarrow> bool" where
  "integral z \<longleftrightarrow> (\<forall>v\<in>ran z. \<exists>n. v = of_int n \<and> \<bar>n\<bar> \<le> 2 ^ 51)"

locale limiter_redis = redis_keyspace R kv ttl elapse + lua_arith rnd
  for R :: "'r redis_commands" and kv ttl elapse rnd
begin

lemma script_core:
  fixes now limit period win maximum :: int and r r' :: 'r and bucket window member :: string
  assumes keys: "bucket \<noteq> window" "is_hash (kv r bucket)" "is_zset (kv r window)"
    and pos: "0 < max period win"
  defines "s \<equiv> limit_view kv r bucket window"
  defines "ok \<equiv> grants rnd limit period win maximum s (of_int now)"
  defines "t \<equiv> tokens_now rnd limit period s (of_int now)"
  defines "t' \<equiv> (if ok then rnd (t - 1) else t)"
  defines "z \<equiv> recent rnd win s (of_int now)"
  defines "z' \<equiv> (if ok then z(member \<mapsto> of_int now) else z)"
  assumes run: "hybridLimitScript rnd R r bucket window now limit period win maximum member = (r', reply)"
  shows "kv r' = (kv r)(window := zset_value z', bucket \<mapsto>
      Hash ((hash_at (kv r bucket))(''tokens'' \<mapsto> t', ''updated_at'' \<mapsto> of_int now)))"
    and "reply = [if ok then 1 else 0,
      \<lfloor>max (token_wait rnd limit period t')
        (if maximum \<le> int (card (dom z)) then window_wait rnd win (of_int now) (ZFIRST R r' window) else 0)\<rfloor>]"
proof -
  define nw where "nw = (of_int now :: rat)"
  define r1 where "r1 = ZREMUPTO R r window (rnd (nw - of_int win))"
  define r2 where "r2 = (if ok then ZADD R r1 window nw member else r1)"
  define r3 where "r3 = HSET R r2 bucket ''tokens'' t' ''updated_at'' nw"
  define tl where "tl = rnd (max (of_int period) (of_int win) * 2)"
  have old: "(case HMGET R r bucket ''tokens'' ''updated_at'' of
        (Some t, Some u) \<Rightarrow> (t, u) | _ \<Rightarrow> (of_int limit, nw)) =
      (case bucket_of s of Some (t, u) \<Rightarrow> (t, u) | None \<Rightarrow> (of_int limit, nw))"
    using hmget [OF keys(2)] by (auto simp: s_def limit_view_def split: option.splits)
  have tok: "restored rnd limit period
      (fst (case bucket_of s of Some (t, u) \<Rightarrow> (t, u) | None \<Rightarrow> (of_int limit, nw)))
      (max 0 (rnd (nw - snd (case bucket_of s of Some (t, u) \<Rightarrow> (t, u) | None \<Rightarrow> (of_int limit, nw))))) = t"
    by (simp add: t_def nw_def tokens_now_def split: option.splits prod.splits)
  have kv1: "kv r1 = (kv r)(window := zset_value z)"
    using zremupto [OF keys(3)] by (simp add: r1_def nw_def z_def recent_def s_def limit_view_def)
  have cnt: "ZCARD R r1 window = card (dom z)"
    using kv1 by (subst zcard) simp_all
  have allowed: "(1 \<le> t \<and> int (ZCARD R r1 window) < maximum) = ok"
    by (simp add: cnt ok_def grants_def t_def z_def)
  have kv2: "kv r2 = (kv r)(window := zset_value z')"
    using kv1 by (simp add: r2_def z'_def nw_def zadd)
  have kv3: "kv r3 = (kv r)(window := zset_value z', bucket \<mapsto>
      Hash ((hash_at (kv r bucket))(''tokens'' \<mapsto> t', ''updated_at'' \<mapsto> nw)))"
    using kv2 keys unfolding r3_def by (subst hset) (auto simp: fun_upd_twist)
  have "0 < max (of_int period) (of_int win :: rat)" using pos by (simp add: less_max_iff_disj)
  then have tl: "0 < tl" unfolding tl_def by (intro rnd_pos) simp
  have r': "r' = PEXPIRE R (PEXPIRE R r3 bucket tl) window tl" and reply: "reply = [if ok then 1 else 0,
      \<lfloor>max (token_wait rnd limit period t')
        (if maximum \<le> int (ZCARD R r1 window)
         then window_wait rnd win nw (ZFIRST R (PEXPIRE R (PEXPIRE R r3 bucket tl) window tl) window) else 0)\<rfloor>]"
    using run [symmetric] old tok allowed
    by (auto simp: hybridLimitScript_def Let_def nw_def [symmetric] r1_def [symmetric] tl_def [symmetric]
        r2_def r3_def t'_def split: prod.splits if_splits)
  show "kv r' = (kv r)(window := zset_value z', bucket \<mapsto>
      Hash ((hash_at (kv r bucket))(''tokens'' \<mapsto> t', ''updated_at'' \<mapsto> of_int now)))"
    using tl kv3 by (simp add: r' pexpire nw_def)
  show "reply = [if ok then 1 else 0,
      \<lfloor>max (token_wait rnd limit period t')
        (if maximum \<le> int (card (dom z)) then window_wait rnd win (of_int now) (ZFIRST R r' window) else 0)\<rfloor>]"
    by (simp add: reply cnt r' nw_def)
qed

lemma script_refines:
  fixes now :: int
  assumes keys: "bucket \<noteq> window" "is_hash (kv r bucket)" "is_zset (kv r window)"
    and pos: "0 < max period win"
    and run: "hybridLimitScript rnd R r bucket window now limit period win maximum member = (r', reply)"
  shows "limit_view kv r' bucket window =
      limit_step rnd limit period win maximum (limit_view kv r bucket window) (of_int now) member"
    and "hd reply = 1 \<longleftrightarrow> grants rnd limit period win maximum (limit_view kv r bucket window) (of_int now)"
    and "is_hash (kv r' bucket)" "is_zset (kv r' window)"
    and "k \<noteq> bucket \<Longrightarrow> k \<noteq> window \<Longrightarrow> kv r' k = kv r k"
  using script_core [OF keys pos run] keys(1)
  by (simp_all add: limit_view_def hash_at_def is_hash_def limit_step_def Let_def)

lemma script_ttl_other:
  assumes "hybridLimitScript rnd R r bucket window now limit period win maximum member = (r', reply)"
    and "k \<noteq> bucket" "k \<noteq> window"
  shows "ttl r' k = ttl r k"
  using assms
  by (auto simp: hybridLimitScript_def Let_def hset_ttl zadd_ttl zremupto_ttl pexpire_ttl
      split: prod.splits if_splits)

lemma script_ttl_window:
  assumes "hybridLimitScript rnd R r bucket window now limit period win maximum member = (r', reply)"
    and pos: "0 < rnd (max (of_int period) (of_int win) * 2)"
  shows "kv r' window = None \<or> ttl r' window = Some \<lfloor>rnd (max (of_int period) (of_int win) * 2)\<rfloor>"
proof -
  obtain q where "r' = PEXPIRE R q window (rnd (max (of_int period) (of_int win) * 2))"
    using assms(1) by (auto simp: hybridLimitScript_def Let_def split: prod.splits if_splits)
  with pos show ?thesis by (cases "kv q window") (simp_all add: pexpire pexpire_sets)
qed

text \<open>
  The hint of a refusal: at least one millisecond. The scores in the window are the integer
  times of earlier events.
\<close>

lemma token_wait_pos:
  assumes "t < 1" "0 < limit" "0 < period"
  shows "1 \<le> token_wait rnd limit period t"
proof -
  have "0 < rnd (1 - t)" using assms(1) by (intro rnd_pos) simp
  then have "0 < rnd (rnd (1 - t) * of_int period)" using assms(3) by (intro rnd_pos) simp
  then have "0 < rnd (rnd (rnd (1 - t) * of_int period) / of_int limit)"
    using assms(2) by (intro rnd_pos) simp
  then show ?thesis using assms(1) by (simp add: token_wait_def)
qed

lemma window_wait_pos:
  assumes "rnd (of_int now - of_int win) < of_int u"
    and "\<bar>now\<bar> \<le> 2 ^ 51" "\<bar>win\<bar> \<le> 2 ^ 51" "\<bar>u\<bar> \<le> 2 ^ 51"
  shows "window_wait rnd win (of_int now) (Some (of_int u)) = of_int (u + win - now)" "1 \<le> u + win - now"
proof -
  have "rnd (of_int (now - win)) = of_int (now - win)" using assms by (intro rnd_int) simp
  with assms(1) have "(of_int (now - win) :: rat) < of_int u" by simp
  then have gt: "now - win < u" by (simp only: of_int_less_iff)
  then show "1 \<le> u + win - now" by simp
  have "rnd (of_int (u + win)) = of_int (u + win)" using assms by (intro rnd_int) simp
  moreover have "rnd (of_int (u + win - now)) = of_int (u + win - now)"
    using assms by (intro rnd_int) simp
  ultimately show "window_wait rnd win (of_int now) (Some (of_int u)) = of_int (u + win - now)"
    using gt by (simp add: window_wait_def)
qed

lemma script_denial_hint:
  fixes now :: int
  assumes keys: "bucket \<noteq> window" "is_hash (kv r bucket)" "is_zset (kv r window)"
    and pos: "0 < period" "0 < win" "0 < limit" "0 < maximum"
    and small: "\<bar>now\<bar> \<le> 2 ^ 51" "win \<le> 2 ^ 51" "integral (zset_at (kv r window))"
    and run: "hybridLimitScript rnd R r bucket window now limit period win maximum member = (r', reply)"
    and denied: "hd reply \<noteq> 1"
  shows "1 \<le> reply ! 1"
proof -
  let ?s = "limit_view kv r bucket window"
  let ?t = "tokens_now rnd limit period ?s (of_int now)" and ?z = "recent rnd win ?s (of_int now)"
  have p: "0 < max period win" using pos by simp
  note refined = script_refines [OF keys p run] and core = script_core [OF keys p run]
  from denied refined(2) have no: "\<not> grants rnd limit period win maximum ?s (of_int now)" by simp
  then have z': "zset_at (kv r' window) = ?z" using core(1) keys(1) by simp
  have reply: "reply ! 1 = \<lfloor>max (token_wait rnd limit period ?t)
      (if maximum \<le> int (card (dom ?z)) then window_wait rnd win (of_int now) (ZFIRST R r' window) else 0)\<rfloor>"
    using core(2) no by simp
  show ?thesis
  proof (cases "?t < 1")
    case True
    from token_wait_pos [OF this pos(3) pos(1)] show ?thesis
      unfolding reply by (simp add: le_floor_iff le_max_iff_disj)
  next
    case False
    with no have full: "maximum \<le> int (card (dom ?z))" by (simp add: grants_def)
    with pos(4) have "?z \<noteq> Map.empty" by auto
    with zfirst_none [OF refined(4)] obtain v where v: "ZFIRST R r' window = Some v"
      by (metis z' option.exhaust)
    with zfirst_some [OF refined(4)] have "v \<in> ran ?z" by (simp add: z')
    then obtain x where x: "?z x = Some v" by (auto simp: ran_def)
    then have gt: "rnd (of_int now - of_int win) < v" and "v \<in> ran (zset_at (kv r window))"
      by (auto simp: recent_def above_Some_iff limit_view_def intro: ranI)
    with small(3) obtain u where u: "v = of_int u" "\<bar>u\<bar> \<le> 2 ^ 51" by (auto simp: integral_def)
    have "\<bar>win\<bar> \<le> 2 ^ 51" using small(2) pos(2) by simp
    from window_wait_pos [OF gt [unfolded u(1)] small(1) this u(2)] show ?thesis
      unfolding reply using full v u(1) by (simp add: le_floor_iff le_max_iff_disj)
  qed
qed

end

section \<open>Allow\<close>

text \<open>
  A limiter holds the Redis connection, the HMAC secret and the key prefix. The number
  arithmetic of the server's Lua interpreter and HMAC-SHA256 belong to it as parameters. A call
  finds its clock, its random bytes and what happens on the way to Redis in its environment: an
  answer, or an error before the script ran (\<open>Lost_before\<close>) or after it ran
  (\<open>Lost_after\<close>, a lost reply).
\<close>

record 'r RedisLimiter =
  client :: "'r redis_commands"
  lua :: "rat \<Rightarrow> rat"
  hmac_sha256 :: "string \<Rightarrow> string \<Rightarrow> 8 word list"
  secret :: string
  prefix :: string

record call_env =
  clock :: instant
  random :: "8 word list result"
  link :: link

definition NewRedisLimiter ::
  "'r redis_commands option \<Rightarrow> (rat \<Rightarrow> rat) \<Rightarrow> (string \<Rightarrow> string \<Rightarrow> 8 word list) \<Rightarrow> string \<Rightarrow> string \<Rightarrow>
   'r RedisLimiter result" where
  "NewRedisLimiter redis arith hmac key_secret keyPrefix =
     (case redis of
        None \<Rightarrow> Inl (Errorf ''Redis client is required'')
      | Some commands \<Rightarrow>
          if length key_secret < 32
          then Inl (Errorf ''rate-limit key secret must contain at least 32 bytes'')
          else
            (let trimmed = TrimSpace keyPrefix;
                 chosen = (if trimmed = [] then ''consumel:rate-limit'' else trimmed)
             in Inr \<lparr>client = commands, lua = arith, hmac_sha256 = hmac, secret = key_secret, prefix = chosen\<rparr>))"

definition identity_message :: "string \<Rightarrow> string \<Rightarrow> string \<Rightarrow> string" where
  "identity_message operation dimension identity =
     operation @ [CHR 0x00] @ dimension @ [CHR 0x00] @ identity"

definition identityKey :: "'r RedisLimiter \<Rightarrow> string \<Rightarrow> string \<Rightarrow> string \<Rightarrow> string" where
  "identityKey limiter operation dimension identity =
     prefix limiter @ '':'' @ operation @ '':'' @ dimension @ '':'' @
     EncodeToString (hmac_sha256 limiter (secret limiter) (identity_message operation dimension identity))"

definition randomMember :: "8 word list result \<Rightarrow> string result" where
  "randomMember bytes = (case bytes of Inl e \<Rightarrow> Inl e | Inr b \<Rightarrow> Inr (EncodeToString b))"

definition UnixMilli :: "instant \<Rightarrow> int" where
  "UnixMilli t = t div 1000000"

definition decision_of :: "int list \<Rightarrow> decision" where
  "decision_of reply =
     \<lparr>Allowed = (reply ! 0 = 1), RetryAfter = wrap64 (wrap64 (reply ! 1) * millisecond)\<rparr>"

definition Allow ::
  "'r RedisLimiter \<Rightarrow> call_env \<Rightarrow> 'r \<Rightarrow> string \<Rightarrow> string \<Rightarrow> string \<Rightarrow> rule \<Rightarrow>
   'r \<times> decision \<times> go_error option" where
  "Allow limiter env r operation dimension identity rule =
     (case validateRule rule of
        Some err \<Rightarrow> (r, no_decision, Some err)
      | None \<Rightarrow>
          (let operation = TrimSpace operation; dimension = TrimSpace dimension; identity = TrimSpace identity
           in if operation = [] \<or> dimension = [] \<or> identity = []
              then (r, no_decision, Some (Errorf ''rate-limit operation, dimension, and identity are required''))
              else
                (let key = identityKey limiter operation dimension identity
                 in case randomMember (random env) of
                      Inl err \<Rightarrow> (r, no_decision, Some (Wrap ''create rate-limit event identifier'' err))
                    | Inr member \<Rightarrow>
                        (case Eval (link env)
                                (\<lambda>r. hybridLimitScript (lua limiter) (client limiter) r
                                   (key @ '':bucket'') (key @ '':window'') (UnixMilli (clock env))
                                   (ImmediateRequests rule) (milliseconds (RestoreImmediateRequestsOver rule))
                                   (milliseconds (MaximumWindow rule)) (MaximumRequests rule) member) r of
                           (r', Inl err) \<Rightarrow> (r', no_decision, Some (Wrap ''enforce distributed rate limit'' err))
                         | (r', Inr reply) \<Rightarrow>
                             if length reply \<noteq> 2
                             then (r', no_decision, Some (Errorf ''invalid distributed rate-limit response''))
                             else
                               (if \<not> Allowed (decision_of reply)
                                then (r', decision_of reply, Some (Sentinel ErrLimitExceeded))
                                else (r', decision_of reply, None))))))"

section \<open>Keys\<close>

text \<open>
  The message under the HMAC separates its three parts by NUL bytes, so different requests
  give different messages as long as operation and dimension hold no NUL byte (they are
  constants of the code).
\<close>

lemma append_nul_inj:
  "a @ CHR 0x00 # b = c @ CHR 0x00 # d \<Longrightarrow> CHR 0x00 \<notin> set a \<Longrightarrow> CHR 0x00 \<notin> set c \<Longrightarrow> a = c \<and> b = d"
proof (induction a arbitrary: c)
  case Nil
  then show ?case by (cases c) auto
next
  case (Cons x a)
  then show ?case by (cases c) auto
qed

lemma identity_message_inj:
  assumes "identity_message o1 d1 i1 = identity_message o2 d2 i2"
    and "CHR 0x00 \<notin> set o1 \<union> set d1 \<union> set o2 \<union> set d2"
  shows "o1 = o2 \<and> d1 = d2 \<and> i1 = i2"
  using assms by (auto simp: identity_message_def dest!: append_nul_inj)

lemma bucket_window_distinct [simp]: "a @ '':bucket'' \<noteq> b @ '':window''" "b @ '':window'' \<noteq> a @ '':bucket''"
proof -
  have "last (a @ '':bucket'') \<noteq> last (b @ '':window'')" by simp
  then show "a @ '':bucket'' \<noteq> b @ '':window''" by metis
  then show "b @ '':window'' \<noteq> a @ '':bucket''" by metis
qed

section \<open>Runs of calls\<close>

record limiter_call =
  c_operation :: string
  c_dimension :: string
  c_identity :: string
  c_rule :: rule
  c_env :: call_env
  c_served :: int

definition call_key :: "'r RedisLimiter \<Rightarrow> limiter_call \<Rightarrow> string" where
  "call_key limiter c =
     identityKey limiter (TrimSpace (c_operation c)) (TrimSpace (c_dimension c)) (TrimSpace (c_identity c))"

definition call_ms :: "limiter_call \<Rightarrow> int" where
  "call_ms c = UnixMilli (clock (c_env c))"

definition invoke :: "'r RedisLimiter \<Rightarrow> 'r \<Rightarrow> limiter_call \<Rightarrow> 'r \<times> decision \<times> go_error option" where
  "invoke limiter r c = Allow limiter (c_env c) r (c_operation c) (c_dimension c) (c_identity c) (c_rule c)"

text \<open>
  The calls of any number of API instances, in the order Redis serves them; \<open>c_served\<close> is the
  time of the Redis server in milliseconds, by which keys expire, while \<open>clock\<close> is the
  clock of the calling instance.
\<close>

fun allow_run ::
  "'r RedisLimiter \<Rightarrow> ('r \<Rightarrow> int \<Rightarrow> 'r) \<Rightarrow> 'r \<Rightarrow> int \<Rightarrow> limiter_call list \<Rightarrow> (limiter_call \<times> bool) list" where
  "allow_run limiter elapse r server [] = []"
| "allow_run limiter elapse r server (c # cs) =
     (case invoke limiter (elapse r (c_served c - server)) c of
        (r', d, e) \<Rightarrow> (c, Allowed d) # allow_run limiter elapse r' (c_served c) cs)"

definition reaches :: "limiter_call \<Rightarrow> bool" where
  "reaches c \<longleftrightarrow> validateRule (c_rule c) = None \<and> (case random (c_env c) of Inl e \<Rightarrow> False | Inr b \<Rightarrow> True) \<and>
     TrimSpace (c_operation c) \<noteq> [] \<and> TrimSpace (c_dimension c) \<noteq> [] \<and> TrimSpace (c_identity c) \<noteq> [] \<and>
     (case link (c_env c) of Lost_before e \<Rightarrow> False | _ \<Rightarrow> True)"

definition call_member :: "limiter_call \<Rightarrow> string" where
  "call_member c = (case random (c_env c) of Inr b \<Rightarrow> EncodeToString b | Inl e \<Rightarrow> [])"

definition script_of :: "'r RedisLimiter \<Rightarrow> 'r \<Rightarrow> limiter_call \<Rightarrow> 'r \<times> int list" where
  "script_of limiter r c =
     hybridLimitScript (lua limiter) (client limiter) r
       (call_key limiter c @ '':bucket'') (call_key limiter c @ '':window'') (call_ms c)
       (ImmediateRequests (c_rule c)) (milliseconds (RestoreImmediateRequestsOver (c_rule c)))
       (milliseconds (MaximumWindow (c_rule c))) (MaximumRequests (c_rule c)) (call_member c)"

lemma invoke_unreached: "\<not> reaches c \<Longrightarrow> fst (invoke limiter r c) = r \<and> \<not> Allowed (fst (snd (invoke limiter r c)))"
  by (auto simp: reaches_def invoke_def Allow_def no_decision_def randomMember_def Eval_def Let_def
      split: option.splits sum.splits link.splits prod.splits)

lemma invoke_eval:
  assumes "reaches c"
  shows "invoke limiter r c =
     (case Eval (link (c_env c)) (\<lambda>r. script_of limiter r c) r of
        (r', Inl err) \<Rightarrow> (r', no_decision, Some (Wrap ''enforce distributed rate limit'' err))
      | (r', Inr reply) \<Rightarrow>
          if length reply \<noteq> 2 then (r', no_decision, Some (Errorf ''invalid distributed rate-limit response''))
          else if \<not> Allowed (decision_of reply)
          then (r', decision_of reply, Some (Sentinel ErrLimitExceeded))
          else (r', decision_of reply, None))"
proof -
  have checks: "validateRule (c_rule c) = None" "TrimSpace (c_operation c) \<noteq> []"
      "TrimSpace (c_dimension c) \<noteq> []" "TrimSpace (c_identity c) \<noteq> []"
    using assms by (simp_all add: reaches_def)
  have member: "randomMember (random (c_env c)) = Inr (call_member c)"
    using assms by (auto simp: reaches_def randomMember_def call_member_def split: sum.splits)
  show ?thesis
    unfolding invoke_def Allow_def Let_def script_of_def call_key_def call_ms_def checks(1) member
    using checks by simp
qed

lemma invoke_reached:
  assumes "reaches c" "script_of limiter r c = (r', [x, y])"
  shows "fst (invoke limiter r c) = r'"
    and "Allowed (fst (snd (invoke limiter r c))) \<longleftrightarrow> x = 1 \<and> link (c_env c) = Answered"
proof -
  show "fst (invoke limiter r c) = r'"
  proof (cases "link (c_env c)")
    case Answered
    then show ?thesis by (simp add: invoke_eval [OF assms(1)] Eval_def assms(2))
  next
    case (Lost_before e)
    with assms(1) show ?thesis by (simp add: reaches_def)
  next
    case (Lost_after e)
    then show ?thesis by (simp add: invoke_eval [OF assms(1)] Eval_def assms(2))
  qed
  show "Allowed (fst (snd (invoke limiter r c))) \<longleftrightarrow> x = 1 \<and> link (c_env c) = Answered"
  proof (cases "link (c_env c)")
    case Answered
    then show ?thesis by (simp add: invoke_eval [OF assms(1)] Eval_def assms(2) decision_of_def)
  next
    case (Lost_before e)
    with assms(1) show ?thesis by (simp add: reaches_def)
  next
    case (Lost_after e)
    then show ?thesis by (simp add: invoke_eval [OF assms(1)] Eval_def assms(2) no_decision_def)
  qed
qed

section \<open>The rolling window is a hard limit\<close>

text \<open>
  \<open>counted\<close> counts the granted events of a history in the half-open window of \<open>win\<close>
  milliseconds that ends at \<open>t\<close>. \<open>window_inv\<close> ties a history to the sorted set at time
  \<open>now\<close>: every granted event young enough to matter is in the set, and no window holds more
  than the maximum.
\<close>

definition counted :: "int \<Rightarrow> (int \<times> string) list \<Rightarrow> int \<Rightarrow> int" where
  "counted win hist t = int (length (filter (\<lambda>(u, m). t - win < u \<and> u \<le> t) hist))"

definition window_inv :: "int \<Rightarrow> int \<Rightarrow> (string \<rightharpoonup> rat) \<Rightarrow> int \<Rightarrow> (int \<times> string) list \<Rightarrow> bool" where
  "window_inv win maximum z now hist \<longleftrightarrow>
     distinct (map snd hist) \<and>
     (\<forall>(u, m)\<in>set hist. u \<le> now \<and> (now - win < u \<longrightarrow> z m = Some (of_int u))) \<and>
     (\<forall>t. counted win hist t \<le> maximum)"

lemma window_inv_empty [simp]: "window_inv win maximum z now [] \<longleftrightarrow> 0 \<le> maximum"
  by (simp add: window_inv_def counted_def)

lemma window_inv_later: "window_inv win maximum z t hist \<Longrightarrow> t \<le> t' \<Longrightarrow> window_inv win maximum z t' hist"
  unfolding window_inv_def by fastforce

lemma window_inv_stale:
  "window_inv win maximum z t hist \<Longrightarrow> t + win \<le> t' \<Longrightarrow> 0 \<le> win \<Longrightarrow> window_inv win maximum z' t' hist"
  unfolding window_inv_def by fastforce

lemma counted_le_set:
  assumes "distinct (map snd hist)" "finite (dom z)"
    and "\<forall>(u, m)\<in>set hist. t - win < u \<and> u \<le> t \<longrightarrow> m \<in> dom z"
  shows "counted win hist t \<le> int (card (dom z))"
proof -
  let ?f = "filter (\<lambda>(u, m). t - win < u \<and> u \<le> t) hist"
  from assms(1) have "distinct (map snd ?f)" by (rule distinct_map_filter)
  from distinct_card [OF this] have "length ?f = card (set (map snd ?f))" by simp
  also have "\<dots> \<le> card (dom z)"
    using assms(2,3) by (intro card_mono) auto
  finally show ?thesis by (simp add: counted_def)
qed

context lua_arith
begin

lemma window_inv_step:
  assumes inv: "window_inv win maximum (window_of s) now hist" and fin: "finite (dom (window_of s))"
    and small: "\<bar>now\<bar> \<le> 2 ^ 51" "0 \<le> win" "win \<le> 2 ^ 51"
    and fresh: "m \<notin> snd ` set hist"
  shows "window_inv win maximum
     (window_of (limit_step rnd limit period win maximum s (of_int now) m)) now
     (if grants rnd limit period win maximum s (of_int now) then (now, m) # hist else hist)"
proof -
  let ?z = "recent rnd win s (of_int now)"
  let ?ok = "grants rnd limit period win maximum s (of_int now)"
  have bound: "\<bar>now - win\<bar> \<le> 2 ^ 53" using small by (simp add: abs_le_iff)
  then have "rnd (of_int (now - win)) = of_int (now - win)" by (rule rnd_int)
  then have z: "?z x = Some v \<longleftrightarrow> window_of s x = Some v \<and> of_int (now - win) < v" for x v
    by (simp add: recent_def above_Some_iff)
  then have "dom ?z \<subseteq> dom (window_of s)" by (auto simp: dom_def)
  with fin have fin: "finite (dom ?z)" by (auto intro: finite_subset)
  have kept: "?z x = Some (of_int u)" if "(u, x) \<in> set hist" "now - win < u" for u x
  proof -
    from inv that have "window_of s x = Some (of_int u)"
      by (fastforce simp: window_inv_def)
    with that(2) show ?thesis by (simp add: z del: of_int_diff)
  qed
  have old: "u \<le> now" if "(u, x) \<in> set hist" for u x
    using inv that by (fastforce simp: window_inv_def)
  show ?thesis
  proof (cases ?ok)
    case False
    with inv kept old show ?thesis
      by (auto simp: window_inv_def limit_step_def Let_def)
  next
    case True
    have "counted win hist now \<le> int (card (dom ?z))"
      using inv fin kept by (intro counted_le_set) (auto simp: window_inv_def)
    also have "\<dots> < maximum" using True by (simp add: grants_def)
    finally have room: "counted win hist now < maximum" .
    have "counted win ((now, m) # hist) t \<le> maximum" for t
    proof (cases "t - win < now \<and> now \<le> t")
      case inside: True
      have "counted win hist t \<le> counted win hist now"
        unfolding counted_def using inside old by (auto intro!: length_filter_mono)
      with room inside show ?thesis by (simp add: counted_def)
    next
      case False
      with inv show ?thesis by (auto simp: counted_def window_inv_def)
    qed
    with True inv kept old fresh show ?thesis
      by (auto simp: window_inv_def limit_step_def Let_def image_iff)
  qed
qed

end

text \<open>
  A rule as the code uses it: valid, and with periods of at least a millisecond, so that the
  script does not see a zero.
\<close>

definition usable_rule :: "rule \<Rightarrow> bool" where
  "usable_rule rule \<longleftrightarrow>
     validateRule rule = None \<and>
     millisecond \<le> RestoreImmediateRequestsOver rule \<and> in_int64 (RestoreImmediateRequestsOver rule) \<and>
     millisecond \<le> MaximumWindow rule \<and> in_int64 (MaximumWindow rule)"

lemma milliseconds_small: "millisecond \<le> d \<Longrightarrow> in_int64 d \<Longrightarrow> 0 < milliseconds d \<and> milliseconds d \<le> 2 ^ 51"
  by (simp add: millisecond_def milliseconds_pos in_int64_def pos_imp_zdiv_pos_iff)

lemma usable_rule_ms:
  assumes "usable_rule rule"
  shows "0 < milliseconds (RestoreImmediateRequestsOver rule)"
    "milliseconds (RestoreImmediateRequestsOver rule) \<le> 2 ^ 51" "0 < milliseconds (MaximumWindow rule)"
    "milliseconds (MaximumWindow rule) \<le> 2 ^ 51" "0 < ImmediateRequests rule" "0 < MaximumRequests rule"
  using assms milliseconds_small
  by (simp_all add: usable_rule_def validateRule_def split: if_splits)

definition keys_typed :: "('r \<Rightarrow> string \<Rightarrow> redis_value option) \<Rightarrow> 'r \<Rightarrow> bool" where
  "keys_typed kv r \<longleftrightarrow> (\<forall>k. is_hash (kv r (k @ '':bucket'')) \<and> is_zset (kv r (k @ '':window'')))"

definition events_of :: "'r RedisLimiter \<Rightarrow> string \<Rightarrow> (limiter_call \<times> bool) list \<Rightarrow> (int \<times> string) list" where
  "events_of limiter key run =
     map (\<lambda>(c, g). (call_ms c, call_member c)) (filter (\<lambda>(c, g). g \<and> call_key limiter c = key) run)"

text \<open>
  The invariant of a run, for one key: the last call on the key was served at \<open>served\<close> and
  claimed the time \<open>last_time\<close>. Either the sorted set still tells the history, and it will not
  expire within two windows of that call, or those two windows are over.
\<close>

definition key_inv ::
  "('r \<Rightarrow> string \<Rightarrow> redis_value option) \<Rightarrow> ('r \<Rightarrow> string \<Rightarrow> int option) \<Rightarrow> 'r \<Rightarrow> string \<Rightarrow> int \<Rightarrow> int \<Rightarrow>
   int \<Rightarrow> int \<Rightarrow> int \<Rightarrow> (int \<times> string) list \<Rightarrow> bool" where
  "key_inv kv ttl r window win maximum server served last_time hist \<longleftrightarrow>
     hist = [] \<or>
     window_inv win maximum (zset_at (kv r window)) last_time hist \<and>
       (kv r window = None \<or> (\<exists>px. ttl r window = Some px \<and> 2 * win \<le> px + (server - served))) \<or>
     (\<exists>z. window_inv win maximum z last_time hist) \<and> 2 * win \<le> server - served"

context limiter_redis
begin

lemma elapse_typed:
  assumes "0 \<le> d"
  shows "is_hash (kv r k) \<Longrightarrow> is_hash (kv (elapse r d) k)" "is_zset (kv r k) \<Longrightarrow> is_zset (kv (elapse r d) k)"
  using elapse_only_removes [OF assms, of r k] by (auto simp: is_hash_def is_zset_def)

lemma keys_typed_elapse: "keys_typed kv r \<Longrightarrow> 0 \<le> d \<Longrightarrow> keys_typed kv (elapse r d)"
  by (simp add: keys_typed_def elapse_typed)

lemma key_inv_elapse:
  assumes "key_inv kv ttl r window win maximum server served last_time hist" "0 \<le> d" "0 \<le> win"
  shows "key_inv kv ttl (elapse r d) window win maximum (server + d) served last_time hist"
proof -
  consider "hist = []"
    | "window_inv win maximum (zset_at (kv r window)) last_time hist" "kv r window = None"
    | px where "window_inv win maximum (zset_at (kv r window)) last_time hist"
        "ttl r window = Some px" "2 * win \<le> px + (server - served)"
    | z where "window_inv win maximum z last_time hist" "2 * win \<le> server - served"
    using assms(1) unfolding key_inv_def by (elim disjE conjE exE) blast+
  then show ?thesis
  proof cases
    case 2
    with elapse_only_removes [OF assms(2), of r window] show ?thesis by (simp add: key_inv_def)
  next
    case 3
    show ?thesis
    proof (cases "px \<le> d")
      case True
      with 3 show ?thesis unfolding key_inv_def by (intro disjI2) auto
    next
      case False
      with 3 elapsed [OF assms(2), of r window] elapsed_ttl [OF assms(2) 3(2)]
      show ?thesis by (simp add: key_inv_def)
    qed
  next
    case 4
    with assms(2) show ?thesis unfolding key_inv_def by (intro disjI2) auto
  qed (simp add: key_inv_def)
qed

lemma key_inv_call:
  assumes "key_inv kv ttl r window win maximum server served last_time hist"
    and "last_time \<le> now" "2 * \<bar>last_time - served\<bar> \<le> win" "2 * \<bar>now - server\<bar> \<le> win"
    and "0 \<le> win" "0 \<le> maximum"
  shows "window_inv win maximum (zset_at (kv r window)) now hist"
  using assms(1) unfolding key_inv_def
proof (elim disjE)
  assume "window_inv win maximum (zset_at (kv r window)) last_time hist \<and>
    (kv r window = None \<or> (\<exists>px. ttl r window = Some px \<and> 2 * win \<le> px + (server - served)))"
  with assms(2) show ?thesis by (blast intro: window_inv_later)
next
  assume over: "(\<exists>z. window_inv win maximum z last_time hist) \<and> 2 * win \<le> server - served"
  from over have "2 * win \<le> server - served" by blast
  then have "last_time + win \<le> now" using assms(3,4) by arith
  with over show ?thesis using assms(5) by (blast intro: window_inv_stale)
qed (use assms(6) in simp)

lemma script_call:
  assumes lim: "client limiter = R" "lua limiter = rnd"
    and typed: "keys_typed kv r" and rule: "usable_rule (c_rule c)"
    and run: "script_of limiter r c = (r', reply)"
  defines "L \<equiv> ImmediateRequests (c_rule c)"
    and "P \<equiv> milliseconds (RestoreImmediateRequestsOver (c_rule c))"
    and "W \<equiv> milliseconds (MaximumWindow (c_rule c))" and "M \<equiv> MaximumRequests (c_rule c)"
    and "s \<equiv> limit_view kv r (call_key limiter c @ '':bucket'') (call_key limiter c @ '':window'')"
  shows "keys_typed kv r'" "\<exists>x y. reply = [x, y]"
    and "key \<noteq> call_key limiter c \<Longrightarrow> kv r' (key @ '':window'') = kv r (key @ '':window'')"
    and "key \<noteq> call_key limiter c \<Longrightarrow> ttl r' (key @ '':window'') = ttl r (key @ '':window'')"
    and "kv r' (call_key limiter c @ '':window'') = None \<or>
      (\<exists>px. ttl r' (call_key limiter c @ '':window'') = Some px \<and> 2 * W \<le> px)"
    and "limit_view kv r' (call_key limiter c @ '':bucket'') (call_key limiter c @ '':window'') =
      limit_step rnd L P W M s (of_int (call_ms c)) (call_member c)"
    and "hd reply = 1 \<longleftrightarrow> grants rnd L P W M s (of_int (call_ms c))"
proof -
  let ?b = "call_key limiter c @ '':bucket''" and ?w = "call_key limiter c @ '':window''"
  note defs = L_def P_def W_def M_def s_def
  have keys: "?b \<noteq> ?w" "is_hash (kv r ?b)" "is_zset (kv r ?w)"
    using typed by (simp_all add: keys_typed_def)
  have pos: "0 < max P W" using usable_rule_ms [OF rule] by (simp add: P_def W_def)
  note run' = run [unfolded script_of_def lim, folded defs]
  note refined = script_refines [OF keys pos run', folded s_def]
  show "keys_typed kv r'"
    unfolding keys_typed_def
  proof
    fix k
    show "is_hash (kv r' (k @ '':bucket'')) \<and> is_zset (kv r' (k @ '':window''))"
    proof (cases "k = call_key limiter c")
      case True
      with refined(3,4) show ?thesis by simp
    next
      case False
      with typed refined(5) show ?thesis by (simp add: keys_typed_def)
    qed
  qed
  show "\<exists>x y. reply = [x, y]" using script_core(2) [OF keys pos run'] by blast
  show "key \<noteq> call_key limiter c \<Longrightarrow> kv r' (key @ '':window'') = kv r (key @ '':window'')"
    using refined(5) by simp
  show "key \<noteq> call_key limiter c \<Longrightarrow> ttl r' (key @ '':window'') = ttl r (key @ '':window'')"
    using script_ttl_other [OF run'] by simp
  have "rnd (max (of_int P) (of_int W) * 2) = of_int (max P W * 2)"
    using usable_rule_ms [OF rule] rnd_int [of "max P W * 2"] by (simp add: P_def W_def)
  moreover have "0 < (of_int (max P W * 2) :: rat)" using pos by (simp only: of_int_0_less_iff)
  ultimately have "kv r' ?w = None \<or> ttl r' ?w = Some (max P W * 2)"
    using script_ttl_window [OF run'] by (simp only: floor_of_int)
  then show "kv r' ?w = None \<or> (\<exists>px. ttl r' ?w = Some px \<and> 2 * W \<le> px)"
    using script_ttl_window [OF run'] pos by (auto simp del: of_int_max)
  show "limit_view kv r' ?b ?w = limit_step rnd L P W M s (of_int (call_ms c)) (call_member c)"
    "hd reply = 1 \<longleftrightarrow> grants rnd L P W M s (of_int (call_ms c))"
    by (rule refined)+
qed

text \<open>
  One call seen from the key \<open>key\<close>: a call that never reaches Redis or is about another
  key leaves the invariant alone; a call on the key restores it with the new event counted.
\<close>

lemma key_inv_invoke_other:
  assumes lim: "client limiter = R" "lua limiter = rnd"
    and typed: "keys_typed kv r" and usable: "usable_rule (c_rule c)"
    and other: "\<not> (reaches c \<and> call_key limiter c = key)"
    and inv: "key_inv kv ttl r (key @ '':window'') win maximum server served last_time hist"
    and step: "invoke limiter r c = (r', dec, e)"
  shows "keys_typed kv r'" "key_inv kv ttl r' (key @ '':window'') win maximum server served last_time hist"
    and "\<not> (Allowed dec \<and> call_key limiter c = key)"
proof -
  have "keys_typed kv r' \<and> key_inv kv ttl r' (key @ '':window'') win maximum server served last_time hist \<and>
      \<not> (Allowed dec \<and> call_key limiter c = key)"
  proof (cases "reaches c")
    case False
    with invoke_unreached [of c limiter r] typed inv show ?thesis by (simp add: step)
  next
    case True
    obtain q reply where sc: "script_of limiter r c = (q, reply)" by (cases "script_of limiter r c")
    note call = script_call [OF lim typed usable sc]
    from call(2) obtain x y where "reply = [x, y]" by blast
    with invoke_reached(1) [OF True, of limiter r q x y] sc have "r' = q" by (simp add: step)
    with True other call(1) call(3,4) [of key] inv show ?thesis by (auto simp: key_inv_def)
  qed
  then show "keys_typed kv r'" "key_inv kv ttl r' (key @ '':window'') win maximum server served last_time hist"
    "\<not> (Allowed dec \<and> call_key limiter c = key)"
    by auto
qed

lemma key_inv_invoke_same:
  fixes rule :: rule
  assumes lim: "client limiter = R" "lua limiter = rnd"
    and typed: "keys_typed kv r" and usable: "usable_rule rule" and rule: "c_rule c = rule"
    and same: "reaches c" "call_key limiter c = key"
  defines "W \<equiv> milliseconds (MaximumWindow rule)"
  assumes inv: "key_inv kv ttl r (key @ '':window'') W (MaximumRequests rule) (c_served c) served last_time hist"
    and times: "last_time \<le> call_ms c" "\<bar>call_ms c\<bar> \<le> 2 ^ 51" "2 * \<bar>last_time - served\<bar> \<le> W"
      "2 * \<bar>call_ms c - c_served c\<bar> \<le> W"
    and new: "call_member c \<notin> snd ` set hist"
    and step: "invoke limiter r c = (r', dec, e)"
  obtains ok hist' where "hist' = (if ok then (call_ms c, call_member c) # hist else hist)"
    and "Allowed dec \<Longrightarrow> ok" "keys_typed kv r'"
    and "key_inv kv ttl r' (key @ '':window'') W (MaximumRequests rule) (c_served c) (c_served c) (call_ms c) hist'"
    and "window_inv W (MaximumRequests rule) (zset_at (kv r' (key @ '':window''))) (call_ms c) hist'"
proof -
  let ?w = "key @ '':window''" and ?M = "MaximumRequests rule"
  let ?s = "limit_view kv r (key @ '':bucket'') ?w"
  note rule_ms = usable_rule_ms [OF usable]
  obtain q reply where sc: "script_of limiter r c = (q, reply)" by (cases "script_of limiter r c")
  note call = script_call [OF lim typed usable [folded rule] sc, unfolded rule, folded W_def, unfolded same(2)]
  from call(2) obtain x y where reply: "reply = [x, y]" by blast
  have r': "r' = q" and granted: "Allowed dec \<Longrightarrow> hd reply = 1"
    using invoke_reached [OF same(1), of limiter r q x y] sc reply by (simp_all add: step)
  let ?hist = "if hd reply = 1 then (call_ms c, call_member c) # hist else hist"
  have before: "window_inv W ?M (window_of ?s) (call_ms c) hist"
    using key_inv_call [OF inv times(1,3,4)] rule_ms by (simp add: limit_view_def W_def)
  have fin: "finite (dom (window_of ?s))" by (simp add: limit_view_def zset_finite)
  have "window_inv W ?M (window_of (limit_view kv q (key @ '':bucket'') ?w)) (call_ms c) ?hist"
    unfolding call(6,7)
    using rule_ms(3,4) by (intro window_inv_step before fin times(2) new) (simp_all add: W_def)
  then have after: "window_inv W ?M (zset_at (kv r' ?w)) (call_ms c) ?hist"
    by (simp add: limit_view_def r')
  show ?thesis
    by (rule that [OF refl granted])
      (use after call(1,5) in \<open>simp_all add: key_inv_def r'\<close>)
qed

lemma hard_limit_from:
  assumes lim: "client limiter = R" "lua limiter = rnd"
    and typed: "keys_typed kv r"
    and usable: "usable_rule rule" "\<forall>c\<in>set cs. usable_rule (c_rule c)"
    and same: "\<forall>c\<in>set cs. call_key limiter c = key \<longrightarrow> c_rule c = rule \<and> last_time \<le> call_ms c \<and>
      \<bar>call_ms c\<bar> \<le> 2 ^ 51 \<and> 2 * \<bar>call_ms c - c_served c\<bar> \<le> milliseconds (MaximumWindow rule)"
    and sorted: "sorted (map call_ms (filter (\<lambda>c. call_key limiter c = key) cs))"
    and served: "sorted (server # map c_served cs)"
    and fresh: "distinct (map call_member (filter reaches cs))"
      "\<forall>c\<in>set cs. reaches c \<longrightarrow> call_member c \<notin> snd ` set hist"
    and skew: "2 * \<bar>last_time - last_served\<bar> \<le> milliseconds (MaximumWindow rule)"
    and inv: "key_inv kv ttl r (key @ '':window'') (milliseconds (MaximumWindow rule)) (MaximumRequests rule)
      server last_served last_time hist"
    and hist: "window_inv (milliseconds (MaximumWindow rule)) (MaximumRequests rule) z last_time hist"
  shows "counted (milliseconds (MaximumWindow rule)) hist t +
    counted (milliseconds (MaximumWindow rule)) (events_of limiter key (allow_run limiter elapse r server cs)) t
      \<le> MaximumRequests rule"
  using typed usable(2) same sorted served fresh skew inv hist
proof (induction cs arbitrary: r server last_time last_served hist z)
  case Nil
  then show ?case by (simp add: events_of_def counted_def window_inv_def)
next
  case (Cons c cs)
  let ?W = "milliseconds (MaximumWindow rule)" and ?M = "MaximumRequests rule"
  let ?r = "elapse r (c_served c - server)"
  have d: "0 \<le> c_served c - server" using Cons.prems(5) by simp
  have typed: "keys_typed kv ?r" using Cons.prems(1) d by (rule keys_typed_elapse)
  have aged: "key_inv kv ttl ?r (key @ '':window'') ?W ?M (c_served c) last_served last_time hist"
    using key_inv_elapse [OF Cons.prems(9) d] usable_rule_ms(3) [OF usable(1)] by simp
  obtain r' dec e where step: "invoke limiter ?r c = (r', dec, e)" by (cases "invoke limiter ?r c")
  let ?tail = "events_of limiter key (allow_run limiter elapse r' (c_served c) cs)"
  have tail: "counted ?W (events_of limiter key (allow_run limiter elapse r server (c # cs))) t =
      (if Allowed dec \<and> call_key limiter c = key then counted ?W [(call_ms c, call_member c)] t else 0) +
      counted ?W ?tail t"
    by (simp add: step events_of_def counted_def)
  have usable_c: "usable_rule (c_rule c)" using Cons.prems(2) by simp
  have rest: "\<forall>c\<in>set cs. usable_rule (c_rule c)" "sorted (c_served c # map c_served cs)"
      "sorted (map call_ms (filter (\<lambda>c. call_key limiter c = key) cs))"
      "distinct (map call_member (filter reaches cs))"
    using Cons.prems(2,4,5,6) by (auto split: if_splits)
  show ?case
  proof (cases "reaches c \<and> call_key limiter c = key")
    case False
    note same = key_inv_invoke_other [OF lim typed usable_c False aged step]
    have "counted ?W hist t + counted ?W ?tail t \<le> ?M"
      using Cons.prems same rest
      by (intro Cons.IH [where last_time = last_time and last_served = last_served]) auto
    with tail same(3) show ?thesis by simp
  next
    case True
    then have c: "c_rule c = rule" "reaches c" "call_key limiter c = key" "call_member c \<notin> snd ` set hist"
        "last_time \<le> call_ms c" "\<bar>call_ms c\<bar> \<le> 2 ^ 51" "2 * \<bar>call_ms c - c_served c\<bar> \<le> ?W"
      using Cons.prems(3,7) by simp_all
    obtain ok hist' where hist': "hist' = (if ok then (call_ms c, call_member c) # hist else hist)"
        "Allowed dec \<Longrightarrow> ok" and after: "keys_typed kv r'"
        "key_inv kv ttl r' (key @ '':window'') ?W ?M (c_served c) (c_served c) (call_ms c) hist'"
        "window_inv ?W ?M (zset_at (kv r' (key @ '':window''))) (call_ms c) hist'"
      using key_inv_invoke_same
        [OF lim typed usable(1) c(1,2,3) aged c(5,6) Cons.prems(8) c(7,4) step] by metis
    moreover have "\<forall>c'\<in>set cs. reaches c' \<longrightarrow> call_member c' \<noteq> call_member c"
      using Cons.prems(6) True by (auto simp: image_iff)
    ultimately have "counted ?W hist' t + counted ?W ?tail t \<le> ?M"
      using Cons.prems rest c
      by (intro Cons.IH [where last_time = "call_ms c" and last_served = "c_served c"]) (auto simp: image_iff)
    moreover have "counted ?W hist t + (if Allowed dec then counted ?W [(call_ms c, call_member c)] t else 0)
        \<le> counted ?W hist' t"
      using hist' by (auto simp: counted_def)
    ultimately show ?thesis using tail c(3) by simp
  qed
qed

end
interpretation mem_limiter: limiter_redis mem_commands mem_kv mem_ttl mem_elapse fl64
  by unfold_locales

interpretation mem_limiter_exact: limiter_redis mem_commands mem_kv mem_ttl mem_elapse exact
  by unfold_locales

section \<open>Retrying, refilling and forgetting\<close>

text \<open>
  After a refusal, the state at \<open>now'\<close> grants once the hint has passed: in exact arithmetic,
  and as long as the window never held more events than its maximum.
\<close>

lemma token_wait_enough:
  assumes "0 < limit" "0 < period" and wait: "token_wait exact limit period t \<le> of_int (now' - now)"
    and "now \<le> now'"
  shows "1 \<le> restored exact limit period t (of_int now' - of_int now)"
proof (cases "t < 1")
  case True
  then have "(1 - t) * of_int period / of_int limit \<le> of_int (now' - now)"
    using wait by (simp add: token_wait_def exact_def ceiling_le_iff flip: of_int_diff)
  with assms(1,2) have "(1 - t) \<le> of_int (now' - now) * of_int limit / of_int period"
    by (simp add: field_simps)
  with assms(1,2) show ?thesis by (simp add: restored_def exact_def)
next
  case False
  have "0 \<le> (of_int now' - of_int now :: rat) * of_int limit / of_int period"
    using assms(1,2,4) by (intro divide_nonneg_nonneg mult_nonneg_nonneg) simp_all
  with False assms(1,2) show ?thesis by (simp add: restored_def exact_def)
qed

lemma integer_wait:
  assumes "\<And>v. oldest = Some v \<Longrightarrow> \<exists>n. v = of_int n"
  shows "\<exists>n. max (token_wait rnd limit period t)
    (if b then window_wait exact win (of_int now) oldest else 0) = of_int n"
proof -
  have tok: "\<exists>n. token_wait rnd limit period t = of_int n"
    by (cases "t < 1") (auto simp: token_wait_def intro: exI [of _ 0])
  have "\<exists>n. (if b then window_wait exact win (of_int now) oldest else 0) = of_int n"
  proof (cases oldest)
    case None
    then show ?thesis by (simp add: window_wait_def)
  next
    case (Some v)
    then obtain n where "v = of_int n" using assms by blast
    then have "window_wait exact win (of_int now) oldest = of_int (max 0 (n + win - now))"
      by (simp add: window_wait_def exact_def Some)
    then show ?thesis by (metis of_int_0)
  qed
  with tok obtain a b' where "token_wait rnd limit period t = of_int a"
      "(if b then window_wait exact win (of_int now) oldest else 0) = of_int b'" by blast
  then show ?thesis by (simp add: exI [of _ "max a b'"])
qed

lemma above_card_less:
  assumes "finite (dom z)" "v \<in> ran z" "v \<le> m"
  shows "card (dom (above m z)) < card (dom z)"
proof (rule psubset_card_mono [OF assms(1)])
  obtain x where "z x = Some v" using assms(2) by (auto simp: ran_def)
  with assms(3) have "x \<in> dom z" "x \<notin> dom (above m z)" by (auto simp: above_def)
  moreover have "dom (above m z) \<subseteq> dom z" by (auto simp: above_Some_iff)
  ultimately show "dom (above m z) \<subset> dom z" by blast
qed

lemma above_card_le: "finite (dom z) \<Longrightarrow> card (dom (above m z)) \<le> card (dom z)"
  by (intro card_mono) (auto simp: above_Some_iff)

text \<open>The decisions of a sequence of script runs on one pair of keys.\<close>

fun limit_run :: "(rat \<Rightarrow> rat) \<Rightarrow> int \<Rightarrow> int \<Rightarrow> int \<Rightarrow> int \<Rightarrow> limit_state \<Rightarrow> (int \<times> string) list \<Rightarrow> bool list" where
  "limit_run rnd limit period win maximum s [] = []"
| "limit_run rnd limit period win maximum s ((now, member) # evs) =
     grants rnd limit period win maximum s (of_int now) #
     limit_run rnd limit period win maximum (limit_step rnd limit period win maximum s (of_int now) member) evs"

lemma tokens_bound:
  assumes "0 < limit" "0 < period" "u \<le> now"
    and "bucket_of s = Some (t, of_int u)"
  shows "tokens_now exact limit period s (of_int now) \<le> t + of_int (now - u) * (of_int limit / of_int period)"
  using assms by (simp add: tokens_now_def restored_def exact_def flip: of_int_diff)

lemma limit_run_bound:
  assumes "0 < limit" "0 < period"
  shows "bucket_of s = Some (t, of_int u) \<Longrightarrow> sorted (u # map fst evs) \<Longrightarrow>
    of_nat (length (filter id (limit_run exact limit period win maximum s evs)))
      \<le> max 0 t + of_int (last (u # map fst evs) - u) * (of_int limit / of_int period)"
proof (induction evs arbitrary: s t u)
  case Nil
  then show ?case by simp
next
  case (Cons ev evs)
  let ?rate = "of_int limit / of_int period :: rat"
  obtain now member where ev: "ev = (now, member)" by (cases ev)
  let ?T = "tokens_now exact limit period s (of_int now)"
  let ?ok = "grants exact limit period win maximum s (of_int now)"
  let ?s = "limit_step exact limit period win maximum s (of_int now) member"
  let ?t = "if ?ok then ?T - 1 else ?T"
  have u: "u \<le> now" "sorted (now # map fst evs)" using Cons.prems(2) ev by auto
  have "bucket_of ?s = Some (?t, of_int now)" by (simp add: limit_step_def Let_def exact_def)
  note IH = Cons.IH [OF this u(2)]
  have T: "?T \<le> t + of_int (now - u) * ?rate"
    by (rule tokens_bound [OF assms u(1) Cons.prems(1)])
  have "0 \<le> of_int (now - u) * ?rate" using assms u(1) by simp
  then have step: "(if ?ok then 1 else 0) + max 0 ?t \<le> max 0 t + of_int (now - u) * ?rate"
    using T by (auto simp: grants_def max_def)
  have "of_nat (length (filter id (limit_run exact limit period win maximum s (ev # evs)))) =
      (if ?ok then 1 else 0 :: rat) +
      of_nat (length (filter id (limit_run exact limit period win maximum ?s evs)))"
    by (simp add: ev)
  also have "\<dots> \<le> max 0 t + of_int (now - u) * ?rate + of_int (last (now # map fst evs) - now) * ?rate"
    using IH step by linarith
  also have "\<dots> = max 0 t + (of_int (now - u) + of_int (last (now # map fst evs) - now)) * ?rate"
    by (simp only: distrib_right add.assoc)
  also have "\<dots> = max 0 t + of_int (last (u # map fst (ev # evs)) - u) * ?rate"
    by (simp add: ev flip: of_int_add)
  finally show ?case .
qed

lemma tokens_now_le: "0 < limit \<Longrightarrow> tokens_now rnd limit period s now \<le> of_int limit"
  by (auto simp: tokens_now_def restored_def split: option.splits)

context lua_arith
begin

lemma restored_full:
  assumes "0 < limit" "0 < period" "period * limit \<le> 2 ^ 53" "0 \<le> t" "of_int period \<le> elapsed"
  shows "restored rnd limit period t elapsed = of_int limit"
proof -
  have "limit \<le> period * limit" using assms(1,2) by simp
  then have l: "\<bar>limit\<bar> \<le> 2 ^ 53" using assms(1,3) by linarith
  have "of_int (period * limit) \<le> elapsed * of_int limit"
    using assms(1,5) by (simp add: mult_right_mono)
  then have "of_int (period * limit) \<le> rnd (elapsed * of_int limit)"
    using assms(1,2,3) by (intro rnd_ge_int) simp_all
  then have "of_int limit \<le> rnd (elapsed * of_int limit) / of_int period"
    using assms(2) by (simp add: pos_le_divide_eq mult.commute)
  then have "of_int limit \<le> rnd (rnd (elapsed * of_int limit) / of_int period)"
    using l by (rule rnd_ge_int)
  with assms(4) have "of_int limit \<le> t + rnd (rnd (elapsed * of_int limit) / of_int period)" by simp
  then have "of_int limit \<le> rnd (t + rnd (rnd (elapsed * of_int limit) / of_int period))"
    using l by (rule rnd_ge_int)
  with assms(2) show ?thesis by (simp add: restored_def)
qed

end

text \<open>A limiter state as runs of the script leave it: tokens not negative, integer times.\<close>

definition well_timed :: "limit_state \<Rightarrow> int \<Rightarrow> bool" where
  "well_timed s last_time \<longleftrightarrow>
     (case bucket_of s of None \<Rightarrow> True | Some (t, u) \<Rightarrow> 0 \<le> t \<and> u \<le> of_int last_time) \<and>
     (\<forall>v\<in>ran (window_of s). v \<le> of_int last_time)"

definition fresh_state :: limit_state where
  "fresh_state = \<lparr>bucket_of = None, window_of = Map.empty\<rparr>"

context lua_arith
begin

lemma well_timed_step:
  assumes "well_timed s last_time" "last_time \<le> now" "0 < limit" "0 < period"
  shows "well_timed (limit_step rnd limit period win maximum s (of_int now) m) now"
proof -
  have restored_nonneg: "0 \<le> restored rnd limit period t e" if "0 \<le> t" "0 \<le> e" for t e
    using that assms(3,4) by (auto simp: restored_def intro!: rnd_nonneg add_nonneg_nonneg divide_nonneg_pos mult_nonneg_nonneg)
  have t: "0 \<le> tokens_now rnd limit period s (of_int now)"
    using assms restored_nonneg
    by (auto simp: tokens_now_def well_timed_def split: option.splits)
  then have t': "0 \<le> rnd (tokens_now rnd limit period s (of_int now) - 1)"
    if "grants rnd limit period win maximum s (of_int now)"
    using that by (intro rnd_nonneg) (simp add: grants_def)
  have "v \<le> of_int now" if "v \<in> ran (recent rnd win s (of_int now))" for v
  proof -
    from that have "v \<in> ran (window_of s)" by (auto simp: recent_def ran_def above_Some_iff)
    with assms(1) have "v \<le> of_int last_time" by (simp add: well_timed_def)
    also have "\<dots> \<le> of_int now" using assms(2) by simp
    finally show ?thesis .
  qed
  with t t' show ?thesis by (auto simp: limit_step_def Let_def well_timed_def ran_def)
qed

lemma limit_step_idle:
  assumes "well_timed s last_time" "last_time + 2 * max period win \<le> now"
    and pos: "0 < limit" "0 < period" "0 < win" "period * limit \<le> 2 ^ 53"
    and small: "\<bar>now\<bar> \<le> 2 ^ 51" "\<bar>last_time\<bar> \<le> 2 ^ 51" "win \<le> 2 ^ 51"
  shows "limit_step rnd limit period win maximum s (of_int now) m =
    limit_step rnd limit period win maximum fresh_state (of_int now) m"
    and "grants rnd limit period win maximum s (of_int now) =
    grants rnd limit period win maximum fresh_state (of_int now)"
proof -
  have idle: "last_time + period \<le> now" "last_time \<le> now - win" using assms(2) pos by linarith+
  have full: "tokens_now rnd limit period s (of_int now) = of_int limit" if "bucket_of s = Some (t, u)" for t u
  proof -
    from assms(1) that have t: "0 \<le> t" "u \<le> of_int last_time" by (simp_all add: well_timed_def)
    then have "of_int (now - last_time) \<le> of_int now - u" by simp
    then have "of_int (now - last_time) \<le> rnd (of_int now - u)" using small by (intro rnd_ge_int) simp_all
    moreover have "(of_int period :: rat) \<le> of_int (now - last_time)" using idle(1) by (simp only: of_int_le_iff)
    ultimately have "of_int period \<le> max 0 (rnd (of_int now - u))" by linarith
    from restored_full [OF pos(1,2,4) t(1) this] that show ?thesis by (simp add: tokens_now_def)
  qed
  have "of_int period \<le> (2 ^ 53 :: rat)"
  proof -
    have "period * 1 \<le> period * limit" using pos(1,2) by (intro mult_left_mono) simp_all
    then have "period \<le> 2 ^ 53" using pos(4) by linarith
    then have "(of_int period :: rat) \<le> of_int (2 ^ 53)" by (simp only: of_int_le_iff)
    then show ?thesis by simp
  qed
  have new: "tokens_now rnd limit period fresh_state (of_int now) = of_int limit"
  proof -
    have "limit \<le> period * limit" using pos(1,2) by simp
    then have "rnd (of_int limit) = of_int limit" using pos(1,4) by (intro rnd_int) linarith
    with pos(2) show ?thesis by (simp add: tokens_now_def fresh_state_def restored_def)
  qed
  have tokens: "tokens_now rnd limit period s (of_int now) = tokens_now rnd limit period fresh_state (of_int now)"
    using full new by (cases "bucket_of s") (auto simp: tokens_now_def fresh_state_def)
  have "rnd (of_int (now - win)) = of_int (now - win)"
    using small pos by (intro rnd_int) (simp add: abs_le_iff)
  moreover have "(of_int last_time :: rat) \<le> of_int (now - win)" using idle(2) by (simp only: of_int_le_iff)
  ultimately have "window_of s x = Some v \<Longrightarrow> v \<le> rnd (of_int now - of_int win)" for x v
    using assms(1) by (force simp: well_timed_def ran_def)
  then have "recent rnd win s (of_int now) = Map.empty"
    by (auto simp: recent_def above_def fun_eq_iff split: option.splits)
  then have "recent rnd win s (of_int now) = recent rnd win fresh_state (of_int now)"
    by (simp add: recent_def fresh_state_def above_def)
  with tokens show "limit_step rnd limit period win maximum s (of_int now) m =
      limit_step rnd limit period win maximum fresh_state (of_int now) m"
    "grants rnd limit period win maximum s (of_int now) =
      grants rnd limit period win maximum fresh_state (of_int now)"
    by (simp_all add: limit_step_def grants_def)
qed

end

context limiter_redis
begin

lemma script_retry:
  fixes now now' :: int
  assumes ex: "rnd = exact"
    and keys: "bucket \<noteq> window" "is_hash (kv r bucket)" "is_zset (kv r window)"
    and pos: "0 < period" "0 < win" "0 < limit" "0 < maximum"
    and scores: "integral (zset_at (kv r window))"
    and full: "int (card (dom (zset_at (kv r window)))) \<le> maximum"
    and run: "hybridLimitScript rnd R r bucket window now limit period win maximum member = (r', reply)"
    and denied: "hd reply \<noteq> 1"
    and later: "now \<le> now'" "now + reply ! 1 \<le> now'"
  shows "grants rnd limit period win maximum (limit_view kv r' bucket window) (of_int now')"
proof -
  let ?s = "limit_view kv r bucket window" and ?s' = "limit_view kv r' bucket window"
  let ?t = "tokens_now rnd limit period ?s (of_int now)" and ?z = "recent rnd win ?s (of_int now)"
  have p: "0 < max period win" using pos by simp
  note refined = script_refines [OF keys p run] and core = script_core [OF keys p run]
  from denied refined(2) have no: "\<not> grants rnd limit period win maximum ?s (of_int now)" by simp
  then have s': "?s' = \<lparr>bucket_of = Some (?t, of_int now), window_of = ?z\<rparr>"
    by (simp add: refined(1) limit_step_def Let_def)
  then have z': "zset_at (kv r' window) = ?z" by (simp add: limit_view_def)
  have fin: "finite (dom (window_of ?s))" "finite (dom ?z)"
    using zset_finite [of r window] zset_finite [of r' window] by (simp_all add: limit_view_def z')
  let ?wait = "max (token_wait rnd limit period ?t)
      (if maximum \<le> int (card (dom ?z)) then window_wait rnd win (of_int now) (ZFIRST R r' window) else 0)"
  have reply: "reply ! 1 = \<lfloor>?wait\<rfloor>" using core(2) no by simp
  have first: "\<exists>n. v = of_int n" if "ZFIRST R r' window = Some v" for v
  proof -
    from zfirst_some [OF refined(4) that] obtain x where "?z x = Some v" by (auto simp: z' ran_def)
    then have "v \<in> ran (zset_at (kv r window))"
      by (auto simp: recent_def above_Some_iff limit_view_def intro: ranI)
    with scores show ?thesis by (auto simp: integral_def)
  qed
  have "\<exists>n. ?wait = of_int n"
    using integer_wait [OF first] ex by blast
  then have "?wait \<le> of_int (reply ! 1)" unfolding reply by force
  also have "of_int (reply ! 1) \<le> (of_int (now' - now) :: rat)" using later(2) by linarith
  finally have wait: "?wait \<le> of_int (now' - now)" .
  have tokens: "1 \<le> tokens_now rnd limit period ?s' (of_int now')"
    using token_wait_enough [OF pos(3,1) _ later(1), of ?t] wait later(1) ex
    by (simp add: s' tokens_now_def exact_def)
  have recent': "recent rnd win ?s' (of_int now') = above (rnd (of_int now' - of_int win)) ?z"
    by (subst recent_def) (simp add: s')
  have "int (card (dom (recent rnd win ?s' (of_int now')))) < maximum"
  proof (cases "maximum \<le> int (card (dom ?z))")
    case True
    with pos(4) have "?z \<noteq> Map.empty" by auto
    with zfirst_none [OF refined(4)] obtain v where v: "ZFIRST R r' window = Some v"
      by (metis z' option.exhaust)
    with zfirst_some [OF refined(4)] have ran: "v \<in> ran ?z" by (simp add: z')
    from wait True v have "v \<le> of_int now' - of_int win"
      by (simp add: window_wait_def ex exact_def)
    from above_card_less [OF fin(2) ran this] above_card_le [OF fin(1), of "rnd (of_int now - of_int win)"] full
    show ?thesis
      unfolding recent' by (simp add: recent_def ex exact_def limit_view_def)
  next
    case False
    with above_card_le [OF fin(2), of "rnd (of_int now' - of_int win)"] show ?thesis
      unfolding recent' by simp
  qed
  with tokens show ?thesis by (simp add: grants_def)
qed

end

end
