(* ===== verification/Rate_Limit_Properties.thy ===== *)
theory Rate_Limit_Properties
  imports Rate_Limit
begin

text \<open>
  The properties of the rate limiter, each with a run of a limiter over the in-memory keyspace
  that meets its hypotheses.
\<close>
text \<open>
  A concrete limiter over the in-memory keyspace and a rule of one request a minute, for
  evaluating runs.
\<close>

definition sample_hmac :: "string \<Rightarrow> string \<Rightarrow> 8 word list" where
  "sample_hmac s message = map of_char message"

definition sample_limiter :: "mem_redis RedisLimiter" where
  "sample_limiter = \<lparr>client = mem_commands, lua = exact, hmac_sha256 = sample_hmac, secret = ''k'', prefix = ''p''\<rparr>"

definition sample_rule :: rule where
  "sample_rule = \<lparr>ImmediateRequests = 2, RestoreImmediateRequestsOver = minute,
     MaximumRequests = 1, MaximumWindow = minute\<rparr>"

definition sample_call :: "int \<Rightarrow> 8 word \<Rightarrow> limiter_call" where
  "sample_call ms b = \<lparr>c_operation = ''o'', c_dimension = ''d'', c_identity = ''i'', c_rule = sample_rule,
     c_env = \<lparr>clock = ms * 1000000, random = Inr [b], link = Answered\<rparr>, c_served = ms\<rparr>"

definition sample_calls :: "limiter_call list" where
  "sample_calls = [sample_call 1000 1, sample_call 2000 2]"

lemmas sample_defs = sample_hmac_def sample_limiter_def sample_rule_def sample_call_def sample_calls_def

lemma sample_usable: "usable_rule sample_rule"
  by code_simp

lemma sample_typed: "keys_typed mem_kv []"
  by (simp add: keys_typed_def is_hash_def is_zset_def mem_kv_def)

lemma sample_key: "call_key sample_limiter (sample_call ms b) = call_key sample_limiter (sample_call 1000 1)"
  by (simp add: call_key_def sample_call_def)



text \<open>
  C2. One run of the Lua script computes \<open>limit_step\<close> on the two values of its keys, grants
  exactly when that says so, touches no other key and leaves the keys of their types.
\<close>

theorem script_refines_limit_step:
  assumes "limiter_redis R kv ttl elapse rnd"
    and "bucket \<noteq> window" "is_hash (kv r bucket)" "is_zset (kv r window)" "0 < max period win"
    and "hybridLimitScript rnd R r bucket window now limit period win maximum member = (r', reply)"
  shows "limit_view kv r' bucket window =
      limit_step rnd limit period win maximum (limit_view kv r bucket window) (of_int now) member \<and>
    (hd reply = 1 \<longleftrightarrow> grants rnd limit period win maximum (limit_view kv r bucket window) (of_int now)) \<and>
    is_hash (kv r' bucket) \<and> is_zset (kv r' window) \<and>
    (\<forall>k. k \<noteq> bucket \<and> k \<noteq> window \<longrightarrow> kv r' k = kv r k)"
  using limiter_redis.script_refines [OF assms] by auto

lemma sample_run:
  "hybridLimitScript exact mem_commands [] ''b'' ''w'' 1000 2 60000 60000 1 ''e'' =
     ([(''w'', MZSet [(''e'', 1000)], Some 120000),
       (''b'', MHash [(''tokens'', 1), (''updated_at'', 1000)], Some 120000)], [1, 0])"
  by code_simp

theorem script_refines_limit_step_witness:
  "limit_view mem_kv [(''w'', MZSet [(''e'', 1000)], Some 120000),
       (''b'', MHash [(''tokens'', 1), (''updated_at'', 1000)], Some 120000)] ''b'' ''w'' =
   limit_step exact 2 60000 60000 1 (limit_view mem_kv [] ''b'' ''w'') (of_int 1000) ''e''"
  using script_refines_limit_step [OF mem_limiter_exact.limiter_redis_axioms _ _ _ _ sample_run]
  by (simp add: mem_kv_def is_hash_def is_zset_def)

text \<open>
  A refusal always tells the client to wait at least a millisecond.
\<close>

theorem refusal_has_a_wait:
  fixes now :: int
  assumes "limiter_redis R kv ttl elapse rnd"
    and "bucket \<noteq> window" "is_hash (kv r bucket)" "is_zset (kv r window)"
    and "0 < period" "0 < win" "0 < limit" "0 < maximum"
    and "\<bar>now\<bar> \<le> 2 ^ 51" "win \<le> 2 ^ 51" "integral (zset_at (kv r window))"
    and "hybridLimitScript rnd R r bucket window now limit period win maximum member = (r', reply)"
    and "hd reply \<noteq> 1"
  shows "1 \<le> reply ! 1"
  using assms by (rule limiter_redis.script_denial_hint)

definition sample_full :: mem_redis where
  "sample_full = [(''w'', MZSet [(''e'', 1000)], Some 120000),
     (''b'', MHash [(''tokens'', 1), (''updated_at'', 1000)], Some 120000)]"

lemma sample_full_typed:
  "is_hash (mem_kv sample_full ''b'')" "is_zset (mem_kv sample_full ''w'')"
  "zset_at (mem_kv sample_full ''w'') = [''e'' \<mapsto> 1000]" "integral [''e'' \<mapsto> 1000]"
  by (simp_all add: sample_full_def mem_kv_def mem_view_def redis_views zset_value_def integral_def
      exI [of _ 1000])

lemma sample_denied:
  "hybridLimitScript exact mem_commands sample_full ''b'' ''w'' 31000 2 60000 60000 1 ''f'' =
     ([(''w'', MZSet [(''e'', 1000)], Some 120000),
       (''b'', MHash [(''tokens'', 2), (''updated_at'', 31000)], Some 120000)], [0, 30000])"
  by code_simp

theorem refusal_has_a_wait_witness:
  "snd (hybridLimitScript exact mem_commands sample_full ''b'' ''w'' 31000 2 60000 60000 1 ''f'') = [0, 30000] \<and>
   1 \<le> [0, 30000 :: int] ! 1"
  using refusal_has_a_wait [OF mem_limiter_exact.limiter_redis_axioms _ _ _ _ _ _ _ _ _ _ sample_denied]
  by (simp add: sample_full_typed sample_denied)


definition sample_refused :: mem_redis where
  "sample_refused = [(''w'', MZSet [(''e'', 1000)], Some 120000),
     (''b'', MHash [(''tokens'', 2), (''updated_at'', 31000)], Some 120000)]"

lemma sample_retried:
  "hybridLimitScript exact mem_commands sample_refused ''b'' ''w'' 61000 2 60000 60000 1 ''g'' =
     ([(''w'', MZSet [(''g'', 61000)], Some 120000),
       (''b'', MHash [(''tokens'', 1), (''updated_at'', 61000)], Some 120000)], [1, 0])"
  by code_simp








text \<open>
  C7. Different requests use different keys: two keys are equal exactly for equal operation,
  dimension and identity, as long as HMAC-SHA256 gives 32 bytes and does not collide on the two
  messages, and the operations and dimensions (constants of the code) hold no NUL byte; and a
  bucket key is never a window key.
\<close>

theorem identity_keys_are_separate:
  assumes "length (hmac_sha256 limiter (secret limiter) (identity_message o1 d1 i1)) = 32"
    and "length (hmac_sha256 limiter (secret limiter) (identity_message o2 d2 i2)) = 32"
    and "hmac_sha256 limiter (secret limiter) (identity_message o1 d1 i1) =
           hmac_sha256 limiter (secret limiter) (identity_message o2 d2 i2) \<longrightarrow>
         identity_message o1 d1 i1 = identity_message o2 d2 i2"
    and "CHR 0x00 \<notin> set o1 \<union> set d1 \<union> set o2 \<union> set d2"
  shows "(identityKey limiter o1 d1 i1 = identityKey limiter o2 d2 i2 \<longleftrightarrow> o1 = o2 \<and> d1 = d2 \<and> i1 = i2) \<and>
    identityKey limiter o1 d1 i1 @ '':bucket'' \<noteq> identityKey limiter o2 d2 i2 @ '':window''"
proof -
  let ?h = "\<lambda>p d i. EncodeToString (hmac_sha256 limiter (secret limiter) (identity_message p d i))"
  have "o1 = o2 \<and> d1 = d2 \<and> i1 = i2" if "identityKey limiter o1 d1 i1 = identityKey limiter o2 d2 i2"
  proof -
    from that have "\<exists>x y. x @ ?h o1 d1 i1 = y @ ?h o2 d2 i2" by (metis identityKey_def append_assoc)
    moreover have "length (?h o1 d1 i1) = length (?h o2 d2 i2)" by (simp add: EncodeToString_length assms(1,2))
    ultimately have "?h o1 d1 i1 = ?h o2 d2 i2" by (metis append_eq_append_conv)
    then have "identity_message o1 d1 i1 = identity_message o2 d2 i2"
      using assms(3) EncodeToString_inj by blast
    from identity_message_inj [OF this assms(4)] show ?thesis .
  qed
  then show ?thesis by auto
qed

definition sample_digests :: "mem_redis RedisLimiter" where
  "sample_digests = sample_limiter\<lparr>hmac_sha256 := \<lambda>s m. take 32 (map of_char m @ replicate 32 0)\<rparr>"

theorem identity_keys_are_separate_witness:
  "identityKey sample_digests ''o'' ''ip'' ''1'' \<noteq> identityKey sample_digests ''o'' ''email'' ''1''"
  using identity_keys_are_separate [of sample_digests "''o''" "''ip''" "''1''" "''o''" "''email''" "''1''"]
  by (simp add: sample_digests_def identity_message_def)

end
