(* ===== verification/Attempt_Guards.thy ===== *)
theory Attempt_Guards
  imports Rate_Limit_Properties
begin

text \<open>
  The attempt guards of \<open>internal/infra/authentication/attempt_guards.go\<close>: the limits on
  sign-up, sign-in, password change, verification code and password reset attempts, and the
  three guards that apply them, first to the client's address, then to the email or account.
  The attempts and the names of the operations belong to the authentication library; the names
  are parameters.
\<close>

section \<open>The limits\<close>

definition signUpPerIPLimit :: rule where
  "signUpPerIPLimit = \<lparr>ImmediateRequests = 5, RestoreImmediateRequestsOver = hour,
     MaximumRequests = 10, MaximumWindow = hour\<rparr>"

definition signUpPerEmailLimit :: rule where
  "signUpPerEmailLimit = \<lparr>ImmediateRequests = 2, RestoreImmediateRequestsOver = hour,
     MaximumRequests = 3, MaximumWindow = hour\<rparr>"

definition signInPerIPLimit :: rule where
  "signInPerIPLimit = \<lparr>ImmediateRequests = 10, RestoreImmediateRequestsOver = 5 * minute,
     MaximumRequests = 30, MaximumWindow = 15 * minute\<rparr>"

definition signInPerEmailLimit :: rule where
  "signInPerEmailLimit = \<lparr>ImmediateRequests = 5, RestoreImmediateRequestsOver = 15 * minute,
     MaximumRequests = 10, MaximumWindow = 15 * minute\<rparr>"

definition passwordChangePerIPLimit :: rule where
  "passwordChangePerIPLimit = \<lparr>ImmediateRequests = 5, RestoreImmediateRequestsOver = 15 * minute,
     MaximumRequests = 10, MaximumWindow = 15 * minute\<rparr>"

definition passwordChangePerAccountLimit :: rule where
  "passwordChangePerAccountLimit = \<lparr>ImmediateRequests = 3, RestoreImmediateRequestsOver = 30 * minute,
     MaximumRequests = 5, MaximumWindow = 30 * minute\<rparr>"

definition verificationEmailRequestPerIPLimit :: rule where
  "verificationEmailRequestPerIPLimit = \<lparr>ImmediateRequests = 10, RestoreImmediateRequestsOver = 15 * minute,
     MaximumRequests = 20, MaximumWindow = 15 * minute\<rparr>"

definition verificationEmailRequestPerEmailLimit :: rule where
  "verificationEmailRequestPerEmailLimit = \<lparr>ImmediateRequests = 3, RestoreImmediateRequestsOver = 15 * minute,
     MaximumRequests = 5, MaximumWindow = 15 * minute\<rparr>"

definition verificationCodeCheckPerIPLimit :: rule where
  "verificationCodeCheckPerIPLimit = \<lparr>ImmediateRequests = 15, RestoreImmediateRequestsOver = 10 * minute,
     MaximumRequests = 30, MaximumWindow = 10 * minute\<rparr>"

definition verificationCodeCheckPerEmailLimit :: rule where
  "verificationCodeCheckPerEmailLimit = \<lparr>ImmediateRequests = 5, RestoreImmediateRequestsOver = 10 * minute,
     MaximumRequests = 10, MaximumWindow = 10 * minute\<rparr>"

definition passwordResetRequestPerIPLimit :: rule where
  "passwordResetRequestPerIPLimit = \<lparr>ImmediateRequests = 5, RestoreImmediateRequestsOver = 15 * minute,
     MaximumRequests = 10, MaximumWindow = 15 * minute\<rparr>"

definition passwordResetRequestPerEmailLimit :: rule where
  "passwordResetRequestPerEmailLimit = \<lparr>ImmediateRequests = 3, RestoreImmediateRequestsOver = 30 * minute,
     MaximumRequests = 5, MaximumWindow = 30 * minute\<rparr>"

definition passwordResetCompletePerIPLimit :: rule where
  "passwordResetCompletePerIPLimit = \<lparr>ImmediateRequests = 10, RestoreImmediateRequestsOver = 15 * minute,
     MaximumRequests = 20, MaximumWindow = 15 * minute\<rparr>"

section \<open>The guards\<close>

text \<open>
  \<open>attempt\<close> holds the fields the guards read of the three libraries' attempts (the
  verification and reset attempts have no \<open>SubjectID\<close>). \<open>env_pair\<close> is the environment of
  the two calls a guard may make.
\<close>

record attempt =
  Operation :: string
  SourceKey :: string
  Email :: string
  SubjectID :: string

record operation_names =
  OperationRegister :: string
  OperationLogin :: string
  OperationVerify :: string
  OperationRequest :: string

record 'r guard = limiter :: "'r RedisLimiter"

type_synonym env_pair = "call_env \<times> call_env"

definition NewPasswordAttemptGuard :: "'r RedisLimiter \<Rightarrow> 'r guard" where
  "NewPasswordAttemptGuard l = \<lparr>limiter = l\<rparr>"

definition NewOTPAttemptGuard :: "'r RedisLimiter \<Rightarrow> 'r guard" where
  "NewOTPAttemptGuard l = \<lparr>limiter = l\<rparr>"

definition NewPasswordResetAttemptGuard :: "'r RedisLimiter \<Rightarrow> 'r guard" where
  "NewPasswordResetAttemptGuard l = \<lparr>limiter = l\<rparr>"

definition password_ErrAttemptBlocked :: string where
  "password_ErrAttemptBlocked = ''emailpassword.ErrAttemptBlocked''"

definition verification_ErrAttemptBlocked :: string where
  "verification_ErrAttemptBlocked = ''emailverification.ErrAttemptBlocked''"

definition reset_ErrAttemptBlocked :: string where
  "reset_ErrAttemptBlocked = ''passwordreset.ErrAttemptBlocked''"

definition clientIP :: "string \<Rightarrow> string" where
  "clientIP source = (let source = TrimSpace source in if source = [] then ''unknown'' else source)"

text \<open>What the three \<open>check\<close> methods have in common: the call, and the error they return for it.\<close>

definition check_error :: "string \<Rightarrow> go_error option \<Rightarrow> go_error option" where
  "check_error blocked err =
     (case err of None \<Rightarrow> None
      | Some e \<Rightarrow> if errors_is e ErrLimitExceeded then Some (Sentinel blocked) else Some e)"

definition password_check ::
  "'r guard \<Rightarrow> call_env \<Rightarrow> 'r \<Rightarrow> string \<Rightarrow> string \<Rightarrow> string \<Rightarrow> rule \<Rightarrow> 'r \<times> go_error option" where
  "password_check guard env r operation dimension identity rule =
     (case Allow (limiter guard) env r (''authentication.password.'' @ operation) dimension identity rule of
        (r', d, err) \<Rightarrow> (r', check_error password_ErrAttemptBlocked err))"

definition otp_check ::
  "'r guard \<Rightarrow> call_env \<Rightarrow> 'r \<Rightarrow> string \<Rightarrow> string \<Rightarrow> string \<Rightarrow> rule \<Rightarrow> 'r \<times> go_error option" where
  "otp_check guard env r operation dimension identity rule =
     (case Allow (limiter guard) env r (''authentication.email_verification.'' @ operation) dimension identity rule of
        (r', d, err) \<Rightarrow> (r', check_error verification_ErrAttemptBlocked err))"

definition reset_check ::
  "'r guard \<Rightarrow> call_env \<Rightarrow> 'r \<Rightarrow> string \<Rightarrow> string \<Rightarrow> string \<Rightarrow> rule \<Rightarrow> 'r \<times> go_error option" where
  "reset_check guard env r operation dimension identity rule =
     (case Allow (limiter guard) env r (''authentication.password_reset.'' @ operation) dimension identity rule of
        (r', d, err) \<Rightarrow> (r', check_error reset_ErrAttemptBlocked err))"

definition passwordIPLimit :: "operation_names \<Rightarrow> string \<Rightarrow> rule" where
  "passwordIPLimit names operation =
     (if operation = OperationRegister names then signUpPerIPLimit
      else if operation = OperationLogin names then signInPerIPLimit
      else passwordChangePerIPLimit)"

definition passwordEmailLimit :: "operation_names \<Rightarrow> string \<Rightarrow> rule" where
  "passwordEmailLimit names operation =
     (if operation = OperationRegister names then signUpPerEmailLimit else signInPerEmailLimit)"

definition PasswordAttemptGuard_Check ::
  "operation_names \<Rightarrow> 'r guard \<Rightarrow> env_pair \<Rightarrow> 'r \<Rightarrow> attempt \<Rightarrow> 'r \<times> go_error option" where
  "PasswordAttemptGuard_Check names guard env r attempt =
     (let operation = Operation attempt
      in case password_check guard (fst env) r operation ''ip'' (clientIP (SourceKey attempt))
                (passwordIPLimit names operation) of
           (r, Some err) \<Rightarrow> (r, Some err)
         | (r, None) \<Rightarrow>
             (let email = TrimSpace (Email attempt); accountID = TrimSpace (SubjectID attempt)
              in if email \<noteq> []
                 then password_check guard (snd env) r operation ''email'' email (passwordEmailLimit names operation)
                 else if accountID \<noteq> []
                 then password_check guard (snd env) r operation ''account'' accountID passwordChangePerAccountLimit
                 else (r, None)))"

definition OTPAttemptGuard_Check ::
  "operation_names \<Rightarrow> 'r guard \<Rightarrow> env_pair \<Rightarrow> 'r \<Rightarrow> attempt \<Rightarrow> 'r \<times> go_error option" where
  "OTPAttemptGuard_Check names guard env r attempt =
     (let operation = Operation attempt;
          (ipLimit, emailLimit) =
            (if operation = OperationVerify names
             then (verificationCodeCheckPerIPLimit, verificationCodeCheckPerEmailLimit)
             else (verificationEmailRequestPerIPLimit, verificationEmailRequestPerEmailLimit))
      in case otp_check guard (fst env) r operation ''ip'' (clientIP (SourceKey attempt)) ipLimit of
           (r, Some err) \<Rightarrow> (r, Some err)
         | (r, None) \<Rightarrow>
             (let email = TrimSpace (Email attempt)
              in if email \<noteq> [] then otp_check guard (snd env) r operation ''email'' email emailLimit
                 else (r, None)))"

definition PasswordResetAttemptGuard_Check ::
  "operation_names \<Rightarrow> 'r guard \<Rightarrow> env_pair \<Rightarrow> 'r \<Rightarrow> attempt \<Rightarrow> 'r \<times> go_error option" where
  "PasswordResetAttemptGuard_Check names guard env r attempt =
     (let operation = Operation attempt;
          ipLimit =
            (if operation = OperationRequest names then passwordResetRequestPerIPLimit
             else passwordResetCompletePerIPLimit)
      in case reset_check guard (fst env) r operation ''ip'' (clientIP (SourceKey attempt)) ipLimit of
           (r, Some err) \<Rightarrow> (r, Some err)
         | (r, None) \<Rightarrow>
             (let email = TrimSpace (Email attempt)
              in if email \<noteq> []
                 then reset_check guard (snd env) r operation ''email'' email passwordResetRequestPerEmailLimit
                 else (r, None)))"

section \<open>What the guards need of the limiter\<close>

text \<open>
  The guards read only the error of \<open>Allow\<close>. The contract they rest on: no error comes only
  with an allowed decision, and a decision other than the zero one comes with no error or with
  \<open>ErrLimitExceeded\<close>.
\<close>

type_synonym 'r allow_method =
  "call_env \<Rightarrow> 'r \<Rightarrow> string \<Rightarrow> string \<Rightarrow> string \<Rightarrow> rule \<Rightarrow> 'r \<times> decision \<times> go_error option"

definition granted :: "'r allow_method \<Rightarrow> call_env \<Rightarrow> 'r \<Rightarrow> string \<Rightarrow> string \<Rightarrow> string \<Rightarrow> rule \<Rightarrow> bool" where
  "granted allow env r operation dimension identity rule =
     Allowed (fst (snd (allow env r operation dimension identity rule)))"

text \<open>
  The reference: the limits an attempt has to meet, each a dimension with its identity and rule,
  tried in order until one refuses.
\<close>

fun admit ::
  "'r allow_method \<Rightarrow> string \<Rightarrow> string \<Rightarrow> 'r \<Rightarrow> (call_env \<times> string \<times> string \<times> rule) list \<Rightarrow> 'r \<times> go_error option" where
  "admit allow blocked operation r [] = (r, None)"
| "admit allow blocked operation r ((env, dimension, identity, rule) # limits) =
     (case allow env r operation dimension identity rule of
        (r', d, err) \<Rightarrow>
          (case check_error blocked err of
             None \<Rightarrow> admit allow blocked operation r' limits
           | Some e \<Rightarrow> (r', Some e)))"

fun all_granted :: "'r allow_method \<Rightarrow> string \<Rightarrow> 'r \<Rightarrow> (call_env \<times> string \<times> string \<times> rule) list \<Rightarrow> bool" where
  "all_granted allow operation r [] = True"
| "all_granted allow operation r ((env, dimension, identity, rule) # limits) =
     (granted allow env r operation dimension identity rule \<and>
      all_granted allow operation (fst (allow env r operation dimension identity rule)) limits)"

locale attempt_limiter =
  fixes allow :: "'r allow_method"
  assumes error_iff: "allow env r operation dimension identity rule = (r', d, err) \<Longrightarrow> err = None \<longleftrightarrow> Allowed d"
    and other_error: "allow env r operation dimension identity rule = (r', d, Some e) \<Longrightarrow>
      \<not> errors_is e ErrLimitExceeded \<Longrightarrow> d = no_decision"
begin

lemma check_passes:
  "allow env r operation dimension identity rule = (r', d, err) \<Longrightarrow>
   check_error blocked err = None \<longleftrightarrow> granted allow env r operation dimension identity rule"
  using error_iff [of env r operation dimension identity rule r' d err]
  by (auto simp: check_error_def granted_def split: option.splits)

lemma admit_passes: "snd (admit allow blocked operation r limits) = None \<longleftrightarrow> all_granted allow operation r limits"
proof (induction limits arbitrary: r)
  case (Cons l limits)
  obtain env dimension identity rule where l: "l = (env, dimension, identity, rule)" by (metis prod.exhaust)
  obtain r' d err where call: "allow env r operation dimension identity rule = (r', d, err)"
    by (metis prod.exhaust)
  from check_passes [OF call, of blocked] Cons.IH [of r'] show ?case
    by (auto simp: l call split: option.splits)
qed simp

lemma admit_blocked:
  "snd (admit allow blocked operation r limits) = Some e \<Longrightarrow> \<not> errors_is e blocked \<Longrightarrow>
   \<exists>env r dimension identity rule. fst (snd (allow env r operation dimension identity rule)) = no_decision"
proof (induction limits arbitrary: r)
  case (Cons l limits)
  obtain env dimension identity rule where l: "l = (env, dimension, identity, rule)" by (metis prod.exhaust)
  obtain r' d err where call: "allow env r operation dimension identity rule = (r', d, err)"
    by (metis prod.exhaust)
  show ?case
  proof (cases err)
    case None
    with Cons l call show ?thesis by (simp add: check_error_def)
  next
    case (Some e')
    with Cons.prems l call other_error [of env r operation dimension identity rule r' d e'] show ?thesis
      by (auto simp: check_error_def split: if_splits) (metis fst_conv snd_conv)
  qed
qed simp

end

interpretation redis_limiter: attempt_limiter "Allow l" for l :: "'r RedisLimiter"
proof unfold_locales
  fix env r operation dimension identity rule r' d err e
  show "Allow l env r operation dimension identity rule = (r', d, err) \<Longrightarrow> err = None \<longleftrightarrow> Allowed d"
    by (auto simp: Allow_def Let_def Eval_def no_decision_def
        split: option.splits sum.splits link.splits prod.splits if_splits)
  show "Allow l env r operation dimension identity rule = (r', d, Some e) \<Longrightarrow>
      \<not> errors_is e ErrLimitExceeded \<Longrightarrow> d = no_decision"
    by (auto simp: Allow_def Let_def Eval_def no_decision_def
        split: option.splits sum.splits link.splits prod.splits if_splits)
qed


section \<open>The limits each attempt has to meet\<close>

definition password_limits :: "operation_names \<Rightarrow> env_pair \<Rightarrow> attempt \<Rightarrow> (call_env \<times> string \<times> string \<times> rule) list" where
  "password_limits names env a =
     (fst env, ''ip'', clientIP (SourceKey a), passwordIPLimit names (Operation a)) #
     (if TrimSpace (Email a) \<noteq> []
      then [(snd env, ''email'', TrimSpace (Email a), passwordEmailLimit names (Operation a))]
      else if TrimSpace (SubjectID a) \<noteq> []
      then [(snd env, ''account'', TrimSpace (SubjectID a), passwordChangePerAccountLimit)] else [])"

definition otp_limits :: "operation_names \<Rightarrow> env_pair \<Rightarrow> attempt \<Rightarrow> (call_env \<times> string \<times> string \<times> rule) list" where
  "otp_limits names env a =
     (let verify = (Operation a = OperationVerify names)
      in (fst env, ''ip'', clientIP (SourceKey a),
            if verify then verificationCodeCheckPerIPLimit else verificationEmailRequestPerIPLimit) #
         (if TrimSpace (Email a) = [] then []
          else [(snd env, ''email'', TrimSpace (Email a),
             if verify then verificationCodeCheckPerEmailLimit else verificationEmailRequestPerEmailLimit)]))"

definition reset_limits :: "operation_names \<Rightarrow> env_pair \<Rightarrow> attempt \<Rightarrow> (call_env \<times> string \<times> string \<times> rule) list" where
  "reset_limits names env a =
     (fst env, ''ip'', clientIP (SourceKey a),
        if Operation a = OperationRequest names then passwordResetRequestPerIPLimit
        else passwordResetCompletePerIPLimit) #
     (if TrimSpace (Email a) = [] then []
      else [(snd env, ''email'', TrimSpace (Email a), passwordResetRequestPerEmailLimit)])"

lemma password_guard_admits:
  "PasswordAttemptGuard_Check names guard env r a =
     admit (Allow (limiter guard)) password_ErrAttemptBlocked (''authentication.password.'' @ Operation a) r
       (password_limits names env a)"
  by (auto simp: PasswordAttemptGuard_Check_def password_check_def password_limits_def Let_def
      split: option.splits prod.splits)

lemma otp_guard_admits:
  "OTPAttemptGuard_Check names guard env r a =
     admit (Allow (limiter guard)) verification_ErrAttemptBlocked
       (''authentication.email_verification.'' @ Operation a) r (otp_limits names env a)"
  by (auto simp: OTPAttemptGuard_Check_def otp_check_def otp_limits_def Let_def
      split: option.splits prod.splits)

lemma reset_guard_admits:
  "PasswordResetAttemptGuard_Check names guard env r a =
     admit (Allow (limiter guard)) reset_ErrAttemptBlocked
       (''authentication.password_reset.'' @ Operation a) r (reset_limits names env a)"
  by (auto simp: PasswordResetAttemptGuard_Check_def reset_check_def reset_limits_def Let_def
      split: option.splits prod.splits)

lemmas guards_admit = password_guard_admits otp_guard_admits reset_guard_admits

lemmas guard_rules =
  signUpPerIPLimit_def signUpPerEmailLimit_def signInPerIPLimit_def signInPerEmailLimit_def
  passwordChangePerIPLimit_def passwordChangePerAccountLimit_def verificationEmailRequestPerIPLimit_def
  verificationEmailRequestPerEmailLimit_def verificationCodeCheckPerIPLimit_def
  verificationCodeCheckPerEmailLimit_def passwordResetRequestPerIPLimit_def
  passwordResetRequestPerEmailLimit_def passwordResetCompletePerIPLimit_def

definition guard_limits :: "operation_names \<Rightarrow> env_pair \<Rightarrow> attempt \<Rightarrow> (call_env \<times> string \<times> string \<times> rule) list" where
  "guard_limits names env a = password_limits names env a @ otp_limits names env a @ reset_limits names env a"

lemma clientIP_trimmed: "TrimSpace (clientIP x) = clientIP x" "clientIP x \<noteq> []"
proof -
  have "TrimSpace ''unknown'' = ''unknown''" by code_simp
  then show "TrimSpace (clientIP x) = clientIP x" by (simp add: clientIP_def Let_def)
  show "clientIP x \<noteq> []" by (simp add: clientIP_def Let_def)
qed

lemma usable_rule_ints:
  "usable_rule \<lparr>ImmediateRequests = l, RestoreImmediateRequestsOver = p, MaximumRequests = m, MaximumWindow = w\<rparr> \<longleftrightarrow>
     1 \<le> l \<and> 1000000 \<le> p \<and> p < 2 ^ 63 \<and> 1 \<le> m \<and> 1000000 \<le> w \<and> w < 2 ^ 63"
  by (auto simp: usable_rule_def validateRule_def in_int64_def millisecond_def)

lemma guard_limits_usable:
  "(e, dimension, identity, rule) \<in> set (guard_limits names env a) \<Longrightarrow>
   usable_rule rule \<and> TrimSpace dimension \<noteq> [] \<and> TrimSpace identity \<noteq> []"
proof -
  assume mem: "(e, dimension, identity, rule) \<in> set (guard_limits names env a)"
  have dims: "TrimSpace ''ip'' = ''ip''" "TrimSpace ''email'' = ''email''" "TrimSpace ''account'' = ''account''"
    by code_simp+
  from mem show ?thesis
    by (auto simp: guard_limits_def password_limits_def otp_limits_def reset_limits_def Let_def dims clientIP_trimmed
        passwordIPLimit_def passwordEmailLimit_def guard_rules usable_rule_ints minute_def hour_def split: if_splits)
qed


section \<open>A refused address spends nothing else\<close>

context limiter_redis
begin

lemma allow_frame:
  assumes lim: "client l = R" "lua l = rnd" and typed: "keys_typed kv r" and rule: "usable_rule rule"
    and other: "k \<noteq> identityKey l (TrimSpace p) (TrimSpace d) (TrimSpace i) @ '':bucket''"
      "k \<noteq> identityKey l (TrimSpace p) (TrimSpace d) (TrimSpace i) @ '':window''"
  shows "kv (fst (Allow l env r p d i rule)) k = kv r k"
proof -
  define c where "c = \<lparr>c_operation = p, c_dimension = d, c_identity = i, c_rule = rule, c_env = env, c_served = 0\<rparr>"
  have invoke: "Allow l env r p d i rule = invoke l r c" by (simp add: invoke_def c_def)
  have key: "call_key l c = identityKey l (TrimSpace p) (TrimSpace d) (TrimSpace i)"
    by (simp add: call_key_def c_def)
  show ?thesis
  proof (cases "reaches c")
    case False
    with invoke_unreached [of c l r] show ?thesis by (simp add: invoke)
  next
    case True
    obtain q reply where sc: "script_of l r c = (q, reply)" by (cases "script_of l r c")
    have usable: "usable_rule (c_rule c)" using rule by (simp add: c_def)
    from script_call(2) [OF lim typed usable sc] obtain x y where "reply = [x, y]" by blast
    with invoke_reached(1) [OF True, of l r q x y] sc have "fst (Allow l env r p d i rule) = q"
      by (simp add: invoke)
    moreover have "kv q k = kv r k"
      using script_refines(5) [OF _ _ _ _ sc [unfolded script_of_def lim]] typed usable_rule_ms [OF usable] other
      by (simp add: keys_typed_def key)
    ultimately show ?thesis by simp
  qed
qed

end

section \<open>The guards' properties\<close>

text \<open>
  Each guard is its list of limits tried in order: the client's address first (an unknown
  address counts as one), then the email, or for a password attempt without one the account.
  An attempt passes exactly when every limit grants it; the first refusal ends the check, becomes
  the library's blocked error when it is \<open>ErrLimitExceeded\<close>, and any other failure is returned
  as it is, so the guards fail closed.
\<close>

theorem guards_admit_in_order:
  "PasswordAttemptGuard_Check names guard env r a =
     admit (Allow (limiter guard)) password_ErrAttemptBlocked (''authentication.password.'' @ Operation a) r
       (password_limits names env a) \<and>
   OTPAttemptGuard_Check names guard env r a =
     admit (Allow (limiter guard)) verification_ErrAttemptBlocked
       (''authentication.email_verification.'' @ Operation a) r (otp_limits names env a) \<and>
   PasswordResetAttemptGuard_Check names guard env r a =
     admit (Allow (limiter guard)) reset_ErrAttemptBlocked
       (''authentication.password_reset.'' @ Operation a) r (reset_limits names env a) \<and>
   (snd (PasswordAttemptGuard_Check names guard env r a) = None \<longleftrightarrow>
     all_granted (Allow (limiter guard)) (''authentication.password.'' @ Operation a) r (password_limits names env a)) \<and>
   (snd (OTPAttemptGuard_Check names guard env r a) = None \<longleftrightarrow>
     all_granted (Allow (limiter guard)) (''authentication.email_verification.'' @ Operation a) r (otp_limits names env a)) \<and>
   (snd (PasswordResetAttemptGuard_Check names guard env r a) = None \<longleftrightarrow>
     all_granted (Allow (limiter guard)) (''authentication.password_reset.'' @ Operation a) r (reset_limits names env a))"
  by (simp add: guards_admit redis_limiter.admit_passes)

text \<open>
  Every limit a guard applies, for whatever attempt, is one the limiter accepts: its rule is
  valid with periods of at least a millisecond, and its dimension and identity are not blank. So
  \<open>Allow\<close> never rejects a guard's call for its arguments.
\<close>

theorem guard_limits_are_usable:
  assumes "(e, dimension, identity, rule) \<in> set (guard_limits names env a)"
  shows "usable_rule rule \<and> validateRule rule = None \<and> TrimSpace dimension \<noteq> [] \<and> TrimSpace identity \<noteq> []"
  using guard_limits_usable [OF assms] by (simp add: usable_rule_def)

definition sample_attempt :: attempt where
  "sample_attempt = \<lparr>Operation = ''login'', SourceKey = [], Email = '' a@b '', SubjectID = []\<rparr>"

definition sample_names :: operation_names where
  "sample_names = \<lparr>OperationRegister = ''register'', OperationLogin = ''login'',
     OperationVerify = ''verify'', OperationRequest = ''request''\<rparr>"

definition sample_lost :: call_env where
  "sample_lost = \<lparr>clock = 1000000000, random = Inr [1], link = Lost_after (Errorf ''eof'')\<rparr>"

lemma sample_trim: "TrimSpace '' a@b '' = ''a@b''"
  by code_simp

theorem guard_limits_are_usable_witness:
  "validateRule signInPerEmailLimit = None \<and> TrimSpace ''a@b'' \<noteq> []"
proof -
  have "(sample_lost, ''email'', ''a@b'', signInPerEmailLimit)
      \<in> set (guard_limits sample_names (sample_lost, sample_lost) sample_attempt)"
    by (simp add: guard_limits_def password_limits_def passwordEmailLimit_def sample_attempt_def sample_names_def
        sample_trim)
  from guard_limits_are_usable [OF this] show ?thesis by simp
qed


definition sample_guard :: "mem_redis guard" where
  "sample_guard = NewPasswordAttemptGuard sample_limiter"


end
