(* ===== verification/Session_Cache.thy ===== *)
theory Session_Cache
  imports Go_Strings "HOL-Library.AList"
begin

text \<open>
  Sessions as the authentication library stores them, its cache interface, and the cache the
  server puts in front of it, \<open>internal/infra/authentication/session_cache.go\<close>.
\<close>

section \<open>Sessions and the cache interface\<close>

text \<open>
  A session record is keyed by the hash of its token. The cache belongs to the library: its
  operations are a record of functions over a cache state \<open>'c\<close>. The contract the server relies
  on: an entry that was set lives at most for its lifetime (for lifetimes the cache is meant
  for), a deleted entry is gone, and other entries are left alone.
\<close>

type_synonym token_hash = "8 word list"

record session_record =
  ID :: string
  TokenHash :: token_hash
  SubjectID :: string
  CreatedAt :: instant
  ExpiresAt :: instant
  ExtendedAt :: "instant option"
  RevokedAt :: "instant option"

record 'c session_cache =
  cache_Get :: "'c \<Rightarrow> token_hash \<Rightarrow> session_record result"
  cache_Set :: "'c \<Rightarrow> session_record \<Rightarrow> duration \<Rightarrow> 'c \<times> go_error option"
  cache_Delete :: "'c \<Rightarrow> token_hash \<Rightarrow> 'c \<times> go_error option"

definition maximum_ttl :: duration where
  "maximum_ttl = (2 ^ 63 - 1) div 10"

locale expiring_cache =
  fixes C :: "'c session_cache"
    and entry :: "'c \<Rightarrow> token_hash \<Rightarrow> (session_record \<times> duration) option"
  assumes set_entry: "0 < ttl \<Longrightarrow> ttl \<le> maximum_ttl \<Longrightarrow> cache_Set C c s ttl = (c', None) \<Longrightarrow>
      \<exists>left. entry c' (TokenHash s) = Some (s, left) \<and> left \<le> ttl"
    and set_failed: "cache_Set C c s ttl = (c', Some e) \<Longrightarrow> h \<noteq> TokenHash s \<Longrightarrow> entry c' h = entry c h"
    and set_other: "cache_Set C c s ttl = (c', None) \<Longrightarrow> h \<noteq> TokenHash s \<Longrightarrow> entry c' h = entry c h"
    and delete_entry: "cache_Delete C c h = (c', None) \<Longrightarrow> entry c' h = None"
    and delete_other: "cache_Delete C c h = (c', err) \<Longrightarrow> k \<noteq> h \<Longrightarrow> entry c' k = entry c k"
    and get_entry: "cache_Get C c h = Inr s \<Longrightarrow> \<exists>left. entry c h = Some (s, left)"

section \<open>The jittered cache\<close>

definition sessionCacheMaximumJitter :: int where
  "sessionCacheMaximumJitter = 10"

primrec little_endian :: "8 word list \<Rightarrow> int" where
  "little_endian [] = 0"
| "little_endian (b # bs) = uint b + 256 * little_endian bs"

text \<open>\<open>jitteredTTL\<close> takes the outcome of reading eight random bytes.\<close>

definition jitteredTTL :: "8 word list result \<Rightarrow> duration \<Rightarrow> duration" where
  "jitteredTTL random_bytes ttl =
     (if ttl \<le> 0 then ttl
      else (case random_bytes of
              Inl err \<Rightarrow> ttl
            | Inr value \<Rightarrow>
                (let percent = little_endian value mod (sessionCacheMaximumJitter + 1);
                     reduction = trunc_div (wrap64 (ttl * percent)) 100
                 in wrap64 (ttl - reduction))))"

definition NewJitteredSessionCache :: "'c session_cache option \<Rightarrow> 'c session_cache result" where
  "NewJitteredSessionCache cache =
     (case cache of None \<Rightarrow> Inl (Errorf ''session cache is required'') | Some c \<Rightarrow> Inr c)"

definition JitteredSessionCache_Get :: "'c session_cache \<Rightarrow> 'c \<Rightarrow> token_hash \<Rightarrow> session_record result" where
  "JitteredSessionCache_Get cache c tokenHash = cache_Get cache c tokenHash"

definition JitteredSessionCache_Set ::
  "'c session_cache \<Rightarrow> 8 word list result \<Rightarrow> 'c \<Rightarrow> session_record \<Rightarrow> duration \<Rightarrow> 'c \<times> go_error option" where
  "JitteredSessionCache_Set cache random_bytes c s ttl = cache_Set cache c s (jitteredTTL random_bytes ttl)"

definition JitteredSessionCache_Delete :: "'c session_cache \<Rightarrow> 'c \<Rightarrow> token_hash \<Rightarrow> 'c \<times> go_error option" where
  "JitteredSessionCache_Delete cache c tokenHash = cache_Delete cache c tokenHash"

text \<open>The jittered cache as a cache: what the library gets in place of the inner one.\<close>

definition JitteredSessionCache :: "8 word list result \<Rightarrow> 'c session_cache \<Rightarrow> 'c session_cache" where
  "JitteredSessionCache random_bytes cache =
     \<lparr>cache_Get = JitteredSessionCache_Get cache,
      cache_Set = JitteredSessionCache_Set cache random_bytes,
      cache_Delete = JitteredSessionCache_Delete cache\<rparr>"

lemma little_endian_nonneg: "0 \<le> little_endian bs"
  by (induction bs) simp_all

lemma percent_range: "0 \<le> little_endian bs mod 11 \<and> little_endian bs mod 11 \<le> 10"
  using pos_mod_bound [of 11 "little_endian bs"] by simp

lemma jitteredTTL_bounds:
  assumes "0 < ttl" "ttl \<le> maximum_ttl"
  shows "9 * ttl \<le> 10 * jitteredTTL random_bytes ttl" "jitteredTTL random_bytes ttl \<le> ttl"
    "0 < jitteredTTL random_bytes ttl"
proof -
  have "9 * ttl \<le> 10 * jitteredTTL random_bytes ttl \<and> jitteredTTL random_bytes ttl \<le> ttl \<and>
      0 < jitteredTTL random_bytes ttl"
  proof (cases random_bytes)
    case (Inl err)
    with assms show ?thesis by (simp add: jitteredTTL_def)
  next
    case (Inr bytes)
    let ?p = "little_endian bytes mod 11"
    have p: "0 \<le> ?p" "?p \<le> 10" using percent_range by simp_all
    have "ttl * ?p \<le> ttl * 10" using assms(1) p(2) by (intro mult_left_mono) simp_all
    also have "\<dots> < 2 ^ 63" using assms(2) by (simp add: maximum_ttl_def)
    finally have hi: "ttl * ?p < 2 ^ 63" .
    have lo: "0 \<le> ttl * ?p" using assms(1) p(1) by simp
    then have exact: "wrap64 (ttl * ?p) = ttl * ?p" using hi by (simp add: in_int64_def)
    let ?r = "ttl * ?p div 100"
    have r: "0 \<le> ?r" "100 * ?r \<le> ttl * ?p" using lo by simp_all
    with \<open>ttl * ?p \<le> ttl * 10\<close> have "10 * ?r \<le> ttl" by linarith
    moreover from this r assms have "wrap64 (ttl - ?r) = ttl - ?r"
      by (intro wrap64_id) (simp add: in_int64_def maximum_ttl_def)
    moreover have "jitteredTTL random_bytes ttl = wrap64 (ttl - ?r)"
      using assms(1) lo by (simp add: jitteredTTL_def Inr sessionCacheMaximumJitter_def Let_def exact trunc_div_pos)
    ultimately show ?thesis using r assms(1) by simp
  qed
  then show "9 * ttl \<le> 10 * jitteredTTL random_bytes ttl" "jitteredTTL random_bytes ttl \<le> ttl"
    "0 < jitteredTTL random_bytes ttl" by auto
qed

text \<open>Whatever cache is inside, the jittered one keeps the contract.\<close>

context expiring_cache
begin

lemma jittered_cache: "expiring_cache (JitteredSessionCache random_bytes C) entry"
proof
  fix c c' s ttl h k e err
  note unfolds = JitteredSessionCache_def JitteredSessionCache_Set_def JitteredSessionCache_Delete_def
    JitteredSessionCache_Get_def
  show "0 < ttl \<Longrightarrow> ttl \<le> maximum_ttl \<Longrightarrow> cache_Set (JitteredSessionCache random_bytes C) c s ttl = (c', None) \<Longrightarrow>
      \<exists>left. entry c' (TokenHash s) = Some (s, left) \<and> left \<le> ttl"
    using jitteredTTL_bounds [of ttl random_bytes] set_entry [of "jitteredTTL random_bytes ttl" c s c']
    by (fastforce simp: unfolds)
  show "cache_Set (JitteredSessionCache random_bytes C) c s ttl = (c', Some e) \<Longrightarrow> h \<noteq> TokenHash s \<Longrightarrow>
      entry c' h = entry c h"
    by (auto simp: unfolds intro: set_failed)
  show "cache_Set (JitteredSessionCache random_bytes C) c s ttl = (c', None) \<Longrightarrow> h \<noteq> TokenHash s \<Longrightarrow>
      entry c' h = entry c h"
    by (auto simp: unfolds intro: set_other)
  show "cache_Delete (JitteredSessionCache random_bytes C) c h = (c', None) \<Longrightarrow> entry c' h = None"
    by (auto simp: unfolds intro: delete_entry)
  show "cache_Delete (JitteredSessionCache random_bytes C) c h = (c', err) \<Longrightarrow> k \<noteq> h \<Longrightarrow> entry c' k = entry c k"
    by (auto simp: unfolds intro: delete_other)
  show "cache_Get (JitteredSessionCache random_bytes C) c h = Inr s \<Longrightarrow> \<exists>left. entry c h = Some (s, left)"
    by (auto simp: unfolds intro: get_entry)
qed

end

section \<open>Time\<close>

text \<open>
  A cache whose entries age: after a while an entry is gone when its lifetime has passed, and has
  that much less left otherwise. A failed write or delete may have taken effect.
\<close>

locale aging_cache = expiring_cache C entry
  for C :: "'c session_cache" and entry +
  fixes age :: "'c \<Rightarrow> duration \<Rightarrow> 'c"
  assumes aged: "0 \<le> d \<Longrightarrow> entry (age c d) h =
      (case entry c h of None \<Rightarrow> None | Some (s, left) \<Rightarrow> if left \<le> d then None else Some (s, left - d))"
    and set_lost: "0 < ttl \<Longrightarrow> ttl \<le> maximum_ttl \<Longrightarrow> cache_Set C c s ttl = (c', Some e) \<Longrightarrow>
      entry c' (TokenHash s) = entry c (TokenHash s) \<or> (\<exists>left\<le>ttl. entry c' (TokenHash s) = Some (s, left))"
    and delete_lost: "cache_Delete C c h = (c', Some e) \<Longrightarrow> entry c' h = entry c h \<or> entry c' h = None"

text \<open>What happens to the cache: the library puts a session with a lifetime, deletes one, or time passes.\<close>

datatype cache_event = Put session_record duration "8 word list result" | Drop token_hash | Pass duration

fun cache_run :: "'c session_cache \<Rightarrow> ('c \<Rightarrow> duration \<Rightarrow> 'c) \<Rightarrow> 'c \<Rightarrow> cache_event list \<Rightarrow> 'c" where
  "cache_run C age c [] = c"
| "cache_run C age c (Put s ttl random_bytes # es) =
     cache_run C age (fst (cache_Set (JitteredSessionCache random_bytes C) c s ttl)) es"
| "cache_run C age c (Drop h # es) = cache_run C age (fst (JitteredSessionCache_Delete C c h)) es"
| "cache_run C age c (Pass d # es) = cache_run C age (age c d) es"

fun proper :: "duration \<Rightarrow> cache_event \<Rightarrow> bool" where
  "proper longest (Put s ttl random_bytes) \<longleftrightarrow> 0 < ttl \<and> ttl \<le> longest"
| "proper longest (Drop h) \<longleftrightarrow> True"
| "proper longest (Pass d) \<longleftrightarrow> 0 \<le> d"

fun time_passed :: "cache_event list \<Rightarrow> duration" where
  "time_passed [] = 0"
| "time_passed (Pass d # es) = d + time_passed es"
| "time_passed (e # es) = time_passed es"

fun puts :: "token_hash \<Rightarrow> cache_event \<Rightarrow> bool" where
  "puts h (Put s ttl random_bytes) \<longleftrightarrow> TokenHash s = h"
| "puts h e \<longleftrightarrow> False"

lemma cache_run_append: "cache_run C age c (xs @ ys) = cache_run C age (cache_run C age c xs) ys"
  by (induction C age c xs rule: cache_run.induct) simp_all

context aging_cache
begin

definition at_most :: "duration \<Rightarrow> 'c \<Rightarrow> token_hash \<Rightarrow> bool" where
  "at_most bound c h \<longleftrightarrow> (\<forall>s left. entry c h = Some (s, left) \<longrightarrow> left \<le> bound)"

lemma at_most_put:
  assumes "at_most longest c h" "0 < ttl" "ttl \<le> longest" "longest \<le> maximum_ttl"
  shows "at_most longest (fst (cache_Set (JitteredSessionCache random_bytes C) c s ttl)) h"
proof -
  let ?ttl = "jitteredTTL random_bytes ttl"
  have ttl: "0 < ?ttl" "?ttl \<le> ttl" "?ttl \<le> maximum_ttl" "?ttl \<le> longest"
    using jitteredTTL_bounds [of ttl random_bytes] assms(2-4) by auto
  obtain c' err where set: "cache_Set C c s ?ttl = (c', err)" by (cases "cache_Set C c s ?ttl")
  have "at_most longest c' h"
  proof (cases "h = TokenHash s")
    case True
    with assms(1) set ttl set_entry [OF ttl(1,3), of c s c'] set_lost [OF ttl(1,3), of c s c'] show ?thesis
      by (cases err) (fastforce simp: at_most_def)+
  next
    case False
    with assms(1) set set_other [of c s ?ttl c' h] set_failed [of c s ?ttl c' _ h] show ?thesis
      by (cases err) (auto simp: at_most_def)
  qed
  with set show ?thesis by (simp add: JitteredSessionCache_def JitteredSessionCache_Set_def)
qed

lemma at_most_drop: "at_most bound c h \<Longrightarrow> at_most bound (fst (JitteredSessionCache_Delete C c k)) h"
proof -
  assume a: "at_most bound c h"
  obtain c' err where del: "cache_Delete C c k = (c', err)" by (cases "cache_Delete C c k")
  with a delete_other [OF del, of h] delete_entry [of c h c'] delete_lost [of c h c'] show ?thesis
    by (cases err; cases "h = k") (fastforce simp: at_most_def JitteredSessionCache_Delete_def)+
qed

lemma at_most_aged: "0 \<le> d \<Longrightarrow> at_most bound c h \<Longrightarrow> at_most (bound - d) (age c d) h"
  by (auto simp: at_most_def aged split: option.splits if_splits)

lemma at_most_run:
  "list_all (proper longest) es \<Longrightarrow> longest \<le> maximum_ttl \<Longrightarrow> (\<And>h. at_most longest c h) \<Longrightarrow>
   at_most longest (cache_run C age c es) h"
proof (induction es arbitrary: c)
  case (Cons e es)
  show ?case
  proof (cases e)
    case (Put s ttl random_bytes)
    with Cons at_most_put [of longest c _ ttl random_bytes s] show ?thesis by simp
  next
    case (Drop k)
    with Cons at_most_drop [of longest c _ k] show ?thesis by simp
  next
    case (Pass d)
    with Cons.prems have "at_most longest (age c d) h" for h
      using at_most_aged [of d longest c h] by (auto simp: at_most_def)
    with Cons Pass show ?thesis by simp
  qed
qed simp

lemma put_other: "TokenHash s \<noteq> h \<Longrightarrow> entry (fst (cache_Set (JitteredSessionCache random_bytes C) c s ttl)) h = entry c h"
  using set_other [of c s "jitteredTTL random_bytes ttl" _ h] set_failed [of c s "jitteredTTL random_bytes ttl" _ _ h]
  by (cases "cache_Set C c s (jitteredTTL random_bytes ttl)"; cases "snd (cache_Set C c s (jitteredTTL random_bytes ttl))")
    (auto simp: JitteredSessionCache_def JitteredSessionCache_Set_def)

lemma forgotten_stays:
  "list_all (proper longest) es \<Longrightarrow> \<not> list_ex (puts h) es \<Longrightarrow> entry c h = None \<Longrightarrow> entry (cache_run C age c es) h = None"
proof (induction es arbitrary: c)
  case (Cons e es)
  show ?case
  proof (cases e)
    case (Drop k)
    with Cons at_most_drop [of _ c h k] show ?thesis
      using delete_other [of c k _ _ h] delete_entry [of c h] delete_lost [of c h]
      by (cases "cache_Delete C c k"; cases "snd (cache_Delete C c k)"; cases "h = k")
        (fastforce simp: JitteredSessionCache_Delete_def)+
  qed (use Cons in \<open>simp_all add: put_other aged\<close>)
qed simp

lemma forgets:
  "list_all (proper longest) es \<Longrightarrow> \<not> list_ex (puts h) es \<Longrightarrow> at_most bound c h \<Longrightarrow> 0 < bound \<Longrightarrow> bound \<le> time_passed es \<Longrightarrow>
   entry (cache_run C age c es) h = None"
proof (induction es arbitrary: c bound)
  case (Cons e es)
  show ?case
  proof (cases e)
    case (Put s ttl random_bytes)
    with Cons put_other [of s h random_bytes c ttl] show ?thesis by (simp add: at_most_def)
  next
    case (Drop k)
    with Cons at_most_drop [of bound c h k] show ?thesis by simp
  next
    case (Pass d)
    show ?thesis
    proof (cases "bound \<le> d")
      case True
      with Pass Cons.prems have "entry (age c d) h = None" by (auto simp: aged at_most_def split: option.split)
      with Pass Cons.prems forgotten_stays [of longest es h "age c d"] show ?thesis by simp
    next
      case False
      with Pass Cons at_most_aged [of d bound c h] show ?thesis by simp
    qed
  qed
qed simp

lemma forgotten_after:
  assumes "list_all (proper longest) (before @ after)" "0 < longest" "longest \<le> maximum_ttl" "\<forall>h. entry c h = None"
    and "\<not> list_ex (puts h) after" "longest \<le> time_passed after"
  shows "cache_Get (JitteredSessionCache random_bytes C) (cache_run C age c (before @ after)) h \<noteq> Inr s"
proof -
  have "at_most longest (cache_run C age c before) h"
    using assms(1,3,4) by (intro at_most_run) (simp_all add: at_most_def)
  then have "entry (cache_run C age c (before @ after)) h = None"
    using assms forgets [of longest after h longest] by (simp add: cache_run_append)
  then show ?thesis
    using get_entry [of "cache_run C age c (before @ after)" h s]
    by (auto simp: JitteredSessionCache_def JitteredSessionCache_Get_def)
qed

end

section \<open>A concrete cache\<close>

type_synonym mem_cache = "(token_hash \<times> session_record \<times> duration) list"

definition mem_cache_ops :: "mem_cache session_cache" where
  "mem_cache_ops =
     \<lparr>cache_Get = (\<lambda>c h. case map_of c h of None \<Rightarrow> Inl (Errorf ''cache miss'') | Some (s, left) \<Rightarrow> Inr s),
      cache_Set = (\<lambda>c s ttl. if ttl \<le> 0 then (c, Some (Errorf ''invalid expire time''))
                             else ((TokenHash s, s, ttl) # c, None)),
      cache_Delete = (\<lambda>c h. (filter (\<lambda>(k, s). k \<noteq> h) c, None))\<rparr>"

lemma map_of_filter_key: "map_of (filter (\<lambda>(k, s). k \<noteq> h) c) = (map_of c)(h := None)"
  by (induction c) (auto simp: fun_eq_iff)

definition mem_cache_age :: "mem_cache \<Rightarrow> duration \<Rightarrow> mem_cache" where
  "mem_cache_age c d =
     map (\<lambda>(h, s, left). (h, s, left - d)) (filter (\<lambda>(h, s, left). d < left) (AList.clearjunk c))"

lemma map_of_aged:
  "distinct (map fst c) \<Longrightarrow> map_of (map (\<lambda>(h, s, left). (h, s, left - d)) (filter (\<lambda>(h, s, left). d < left) c)) h =
    (case map_of c h of None \<Rightarrow> None | Some (s, left) \<Rightarrow> if left \<le> d then None else Some (s, left - (d :: int)))"
proof (induction c)
  case (Cons x c)
  obtain k s left where x: "x = (k, s, left)" by (cases x)
  have "map_of c k = None" using Cons.prems x by (simp add: map_of_eq_None_iff)
  with Cons x show ?case by auto
qed simp

interpretation mem_cache: aging_cache mem_cache_ops map_of mem_cache_age
proof
  show "map_of (mem_cache_age c d) h =
      (case map_of c h of None \<Rightarrow> None | Some (s, left) \<Rightarrow> if left \<le> d then None else Some (s, left - d))" for c d h
    using map_of_aged [OF AList.distinct_clearjunk] by (simp add: mem_cache_age_def AList.map_of_clearjunk)
qed (auto simp: mem_cache_ops_def map_of_filter_key split: if_splits option.splits)

interpretation jittered: expiring_cache "JitteredSessionCache random_bytes mem_cache_ops" map_of
  for random_bytes :: "8 word list result"
  by (rule mem_cache.jittered_cache)

section \<open>The cache's properties\<close>

text \<open>
  C9. The cache forgets. In any history of a cache that was empty at first, with lifetimes up to
  \<open>longest\<close> (at most 29 years) and with failing writes and deletes that may have taken effect, a
  session is not returned any more once \<open>longest\<close> has passed since it was put there last: a revoked
  session whose deletion from the cache failed is served for at most that long.
\<close>

theorem stale_sessions_are_forgotten:
  assumes "aging_cache C entry age" "\<forall>h. entry c h = None"
    and "list_all (proper longest) (before @ after)" "0 < longest" "longest \<le> maximum_ttl"
    and "\<not> list_ex (puts h) after" "longest \<le> time_passed after"
  shows "cache_Get (JitteredSessionCache random_bytes C) (cache_run C age c (before @ after)) h \<noteq> Inr s"
  using assms(3-5,2,6,7) by (rule aging_cache.forgotten_after [OF assms(1)])

definition cached_session :: session_record where
  "cached_session = \<lparr>ID = ''id'', TokenHash = [1], SubjectID = ''a'', CreatedAt = 0, ExpiresAt = 9, ExtendedAt = None, RevokedAt = None\<rparr>"

theorem stale_sessions_are_forgotten_witness:
  "cache_Get mem_cache_ops (cache_run mem_cache_ops mem_cache_age [] [Put cached_session 10 (Inr [1]), Pass 9]) [1] = Inr cached_session \<and>
   cache_Get (JitteredSessionCache (Inr []) mem_cache_ops)
     (cache_run mem_cache_ops mem_cache_age [] ([Put cached_session 10 (Inr [1])] @ [Pass 9, Drop [2], Pass 1])) [1] \<noteq> Inr cached_session"
proof
  show "cache_Get mem_cache_ops (cache_run mem_cache_ops mem_cache_age [] [Put cached_session 10 (Inr [1]), Pass 9]) [1] = Inr cached_session"
    by code_simp
  show "cache_Get (JitteredSessionCache (Inr []) mem_cache_ops)
     (cache_run mem_cache_ops mem_cache_age [] ([Put cached_session 10 (Inr [1])] @ [Pass 9, Drop [2], Pass 1])) [1] \<noteq> Inr cached_session"
    using stale_sessions_are_forgotten [OF mem_cache.aging_cache_axioms, of "[]" 10 "[Put cached_session 10 (Inr [1])]"
        "[Pass 9, Drop [2], Pass 1]" "[1]" "Inr []" cached_session]
    by (simp add: maximum_ttl_def)
qed

text \<open>
  The jitter takes away at most a tenth: the cached lifetime lies between nine tenths of the
  selected lifetime and that lifetime, whatever the random bytes, for every lifetime up to a
  tenth of the largest duration (29 years). It stays positive.
\<close>

theorem jitter_never_extends:
  assumes "0 < ttl" "ttl \<le> maximum_ttl"
  shows "9 * ttl \<le> 10 * jitteredTTL random_bytes ttl \<and> jitteredTTL random_bytes ttl \<le> ttl \<and>
    0 < jitteredTTL random_bytes ttl"
  using jitteredTTL_bounds [OF assms] by simp

theorem jitter_never_extends_witness:
  "jitteredTTL (Inr [10, 0, 0, 0, 0, 0, 0, 0]) hour = 54 * minute \<and>
   9 * hour \<le> 10 * jitteredTTL (Inr [10, 0, 0, 0, 0, 0, 0, 0]) hour"
  using jitter_never_extends [of hour "Inr [10, 0, 0, 0, 0, 0, 0, 0]"]
  by (simp add: hour_def minute_def maximum_ttl_def jitteredTTL_def sessionCacheMaximumJitter_def
      trunc_div_pos in_int64_def)

text \<open>
  The bound on the lifetime is needed: above it the product overflows \<open>int64\<close> and the
  reduction can be negative, so the cached lifetime exceeds the selected one.
\<close>

theorem jitter_overflow_extends:
  "\<exists>ttl random_bytes. in_int64 ttl \<and> maximum_ttl < ttl \<and> ttl < jitteredTTL random_bytes ttl"
proof (intro exI conjI)
  let ?ttl = "2 ^ 60 :: int" and ?bytes = "Inr [10, 0, 0, 0, 0, 0, 0, 0] :: 8 word list result"
  show "in_int64 ?ttl" "maximum_ttl < ?ttl" by (simp_all add: in_int64_def maximum_ttl_def)
  show "?ttl < jitteredTTL ?bytes ?ttl" by code_simp
qed

end
