(* ===== verification/Session_Store.thy ===== *)
theory Session_Store
  imports Session_Cache "HOL-Library.Product_Lexorder"
begin

text \<open>
  The capped session store of \<open>internal/infra/authentication/session_store.go\<close>: creating a
  session revokes the oldest active ones of its subject beyond a maximum, in one PostgreSQL
  transaction under an advisory lock, and then drops them from the cache. The table
  \<open>authlier_sessions\<close> is a list of rows. The uniqueness constraints on it belong to the
  library's migrations and are a parameter, as are the collation that orders session ids and what the
  connection does.
\<close>

section \<open>The table\<close>

text \<open>PostgreSQL keeps microseconds; \<open>copy\<close> into a hash array keeps 32 bytes.\<close>

definition pg_timestamp :: "instant \<Rightarrow> instant" where
  "pg_timestamp t = t div 1000 * 1000"

definition to_hash :: "8 word list \<Rightarrow> token_hash" where
  "to_hash bytes = take 32 (bytes @ replicate 32 0)"

definition session_row :: "session_record \<Rightarrow> session_record" where
  "session_row s =
     s\<lparr>CreatedAt := pg_timestamp (CreatedAt s), ExpiresAt := pg_timestamp (ExpiresAt s),
       ExtendedAt := map_option pg_timestamp (ExtendedAt s), RevokedAt := map_option pg_timestamp (RevokedAt s)\<rparr>"

lemma session_row_fields [simp]:
  "SubjectID (session_row s) = SubjectID s" "TokenHash (session_row s) = TokenHash s"
  "CreatedAt (session_row s) = pg_timestamp (CreatedAt s)" "ID (session_row s) = ID s"
  by (simp_all add: session_row_def)

text \<open>\<open>revoked_at IS NULL AND expires_at > t\<close> for the rows of one subject.\<close>

definition active_at :: "string \<Rightarrow> instant \<Rightarrow> session_record \<Rightarrow> bool" where
  "active_at subject t s \<longleftrightarrow> SubjectID s = subject \<and> RevokedAt s = None \<and> t < ExpiresAt s"

definition newest_first :: "(string \<Rightarrow> int) \<Rightarrow> session_record list \<Rightarrow> session_record list" where
  "newest_first rank rows = sort_key (\<lambda>s. (- CreatedAt s, - rank (ID s))) rows"

definition oldest_beyond ::
  "(string \<Rightarrow> int) \<Rightarrow> int \<Rightarrow> string \<Rightarrow> instant \<Rightarrow> session_record list \<Rightarrow> session_record list" where
  "oldest_beyond rank maximum subject t rows =
     drop (nat maximum) (newest_first rank (filter (active_at subject t) rows))"

definition revoke_rows :: "token_hash set \<Rightarrow> instant \<Rightarrow> session_record list \<Rightarrow> session_record list" where
  "revoke_rows hashes t rows = map (\<lambda>s. if TokenHash s \<in> hashes then s\<lparr>RevokedAt := Some t\<rparr> else s) rows"

lemma oldest_beyondD:
  "x \<in> set (oldest_beyond rank maximum subject t rows) \<Longrightarrow> x \<in> set rows \<and> active_at subject t x"
  by (auto simp: oldest_beyond_def newest_first_def dest!: in_set_dropD)

text \<open>The two statements of the transaction: the insert, and the update with its returned hashes.\<close>

definition revoke_oldest ::
  "(string \<Rightarrow> int) \<Rightarrow> int \<Rightarrow> session_record \<Rightarrow> session_record list \<Rightarrow> session_record list \<times> token_hash list" where
  "revoke_oldest rank maximum s rows =
     (let t = pg_timestamp (CreatedAt s);
          hashes = set (map TokenHash (oldest_beyond rank maximum (SubjectID s) t rows))
      in (revoke_rows hashes t rows, map TokenHash (filter (\<lambda>r. TokenHash r \<in> hashes) rows)))"

section \<open>Create\<close>

text \<open>
  The inner store is the library's; its operations are functions over the table. A fault is
  where the connection, the transaction or reading the rows fails; a commit can fail before or
  after it took effect.
\<close>

record sessiontoken_store =
  store_FindByTokenHash :: "session_record list \<Rightarrow> token_hash \<Rightarrow> session_record result"
  store_ListBySubject :: "session_record list \<Rightarrow> string \<Rightarrow> session_record list result"
  store_Extend :: "session_record list \<Rightarrow> token_hash \<Rightarrow> instant \<Rightarrow> instant \<Rightarrow> session_record list \<times> session_record result"
  store_Rotate :: "session_record list \<Rightarrow> token_hash \<Rightarrow> session_record \<Rightarrow> instant \<Rightarrow> session_record list \<times> go_error option"
  store_Revoke :: "session_record list \<Rightarrow> token_hash \<Rightarrow> instant \<Rightarrow> session_record list \<times> go_error option"
  store_RevokeAll :: "session_record list \<Rightarrow> string \<Rightarrow> instant \<Rightarrow> session_record list \<times> session_record list result"

record 'c postgresSessionStore =
  session_store :: sessiontoken_store
  session_cache :: "'c session_cache"
  maximumActiveSessions :: int
  violates_unique :: "session_record list \<Rightarrow> session_record \<Rightarrow> bool"
  id_rank :: "string \<Rightarrow> int"

datatype fault =
    No_fault
  | Begin_fails go_error
  | Lock_fails go_error
  | Insert_fails go_error
  | Update_fails go_error
  | Scan_fails go_error
  | Rows_fail go_error
  | Commit_fails go_error
  | Commit_reply_lost go_error

definition ErrConflict :: string where
  "ErrConflict = ''sessiontoken.ErrConflict''"

fun drop_from_cache :: "'c session_cache \<Rightarrow> 'c \<Rightarrow> token_hash list \<Rightarrow> 'c" where
  "drop_from_cache C c [] = c"
| "drop_from_cache C c (h # hs) = (case cache_Delete C c h of (c', err) \<Rightarrow> drop_from_cache C c' hs)"

definition Create ::
  "'c postgresSessionStore \<Rightarrow> fault \<Rightarrow> session_record list \<times> 'c \<Rightarrow> session_record \<Rightarrow>
   (session_record list \<times> 'c) \<times> go_error option" where
  "Create store fault db s =
     (case (fault, db) of
        (Begin_fails e, _) \<Rightarrow> (db, Some (Wrap ''begin capped session creation'' e))
      | (Lock_fails e, _) \<Rightarrow> (db, Some (Wrap ''lock Authlier subject sessions'' e))
      | (Insert_fails e, _) \<Rightarrow> (db, Some (Wrap ''insert Authlier session'' e))
      | (_, rows, c) \<Rightarrow>
          if violates_unique store rows (session_row s) then (db, Some (Sentinel ErrConflict))
          else
            (let (rows', returned) =
                   revoke_oldest (id_rank store) (maximumActiveSessions store) s (rows @ [session_row s]);
                 committed = (rows', drop_from_cache (session_cache store) c (map to_hash returned))
             in case fault of
                  Update_fails e \<Rightarrow> (db, Some (Wrap ''revoke oldest Authlier sessions'' e))
                | Scan_fails e \<Rightarrow>
                    if returned \<noteq> [] then (db, Some (Wrap ''read revoked Authlier session'' e)) else (committed, None)
                | Rows_fail e \<Rightarrow> (db, Some (Wrap ''iterate revoked Authlier sessions'' e))
                | Commit_fails e \<Rightarrow> (db, Some (Wrap ''commit capped session creation'' e))
                | Commit_reply_lost e \<Rightarrow> ((rows', c), Some (Wrap ''commit capped session creation'' e))
                | _ \<Rightarrow> (committed, None)))"

section \<open>The other operations\<close>

text \<open>
  \<open>FindByTokenHash\<close> shares one lookup among concurrent callers with the same key: when a lookup
  for the key is in flight its outcome is returned, otherwise the caller makes it.
\<close>

definition FindByTokenHash ::
  "'c postgresSessionStore \<Rightarrow> (string \<Rightarrow> session_record result option) \<Rightarrow> session_record list \<Rightarrow> token_hash \<Rightarrow>
   session_record result" where
  "FindByTokenHash store in_flight rows tokenHash =
     (let key = EncodeToString tokenHash
      in case in_flight key of
           Some outcome \<Rightarrow> outcome
         | None \<Rightarrow> store_FindByTokenHash (session_store store) rows tokenHash)"

definition ListBySubject ::
  "'c postgresSessionStore \<Rightarrow> session_record list \<Rightarrow> string \<Rightarrow> session_record list result" where
  "ListBySubject store rows subjectID = store_ListBySubject (session_store store) rows subjectID"

definition Extend ::
  "'c postgresSessionStore \<Rightarrow> session_record list \<Rightarrow> token_hash \<Rightarrow> instant \<Rightarrow> instant \<Rightarrow>
   session_record list \<times> session_record result" where
  "Extend store rows tokenHash extendedAt expiresAt =
     store_Extend (session_store store) rows tokenHash extendedAt expiresAt"

definition Rotate ::
  "'c postgresSessionStore \<Rightarrow> session_record list \<Rightarrow> token_hash \<Rightarrow> session_record \<Rightarrow> instant \<Rightarrow>
   session_record list \<times> go_error option" where
  "Rotate store rows current replacement rotatedAt =
     store_Rotate (session_store store) rows current replacement rotatedAt"

definition Revoke ::
  "'c postgresSessionStore \<Rightarrow> session_record list \<Rightarrow> token_hash \<Rightarrow> instant \<Rightarrow> session_record list \<times> go_error option" where
  "Revoke store rows tokenHash revokedAt = store_Revoke (session_store store) rows tokenHash revokedAt"

definition RevokeAll ::
  "'c postgresSessionStore \<Rightarrow> session_record list \<Rightarrow> string \<Rightarrow> instant \<Rightarrow>
   session_record list \<times> session_record list result" where
  "RevokeAll store rows subjectID revokedAt = store_RevokeAll (session_store store) rows subjectID revokedAt"

section \<open>The database wrapper\<close>

text \<open>
  \<open>AuthlierDatabase\<close> replaces the session and email verification stores of the library's
  database by its own; \<open>'v\<close> stands for an email verification store, \<open>'o\<close> for the other
  stores the library keeps.
\<close>

record ('c, 'v, 'o) authlier_stores =
  Sessions :: "'c postgresSessionStore + sessiontoken_store option"
  EmailVerification :: "'v option"
  Other_stores :: 'o

record ('c, 'v, 'o) authlier_database =
  database_Migrate :: "go_error option"
  database_Stores :: "('c, 'v, 'o) authlier_stores"

record ('c, 'v, 'o) AuthlierDatabase =
  database :: "('c, 'v, 'o) authlier_database"
  sessions :: "'c postgresSessionStore"
  emailVerifications :: 'v

definition NewAuthlierDatabase ::
  "('c, 'v, 'o) authlier_database option \<Rightarrow> bool \<Rightarrow> 'c session_cache option \<Rightarrow> 'v option \<Rightarrow> int \<Rightarrow> bool \<Rightarrow>
   (session_record list \<Rightarrow> session_record \<Rightarrow> bool) \<Rightarrow> (string \<Rightarrow> int) \<Rightarrow> ('c, 'v, 'o) AuthlierDatabase result" where
  "NewAuthlierDatabase db pool cache verifications maximum logger unique_rule rank =
     (case (db, pool, cache, verifications, logger) of
        (Some base, True, Some c, Some v, True) \<Rightarrow>
          if maximum < 1 then Inl (Errorf ''maximum active sessions must be positive'')
          else (case Sessions (database_Stores base) of
                  Inr (Some inner) \<Rightarrow>
                    Inr \<lparr>database = base,
                      sessions = \<lparr>session_store = inner, session_cache = c, maximumActiveSessions = maximum,
                        violates_unique = unique_rule, id_rank = rank\<rparr>,
                      emailVerifications = v\<rparr>
                | _ \<Rightarrow> Inl (Errorf ''Authlier session store is required''))
      | _ \<Rightarrow> Inl (Errorf ''Authlier database, PostgreSQL pool, session cache, email verification store, and logger are required''))"

definition Migrate :: "('c, 'v, 'o) AuthlierDatabase \<Rightarrow> go_error option" where
  "Migrate db = database_Migrate (database db)"

definition Stores :: "('c, 'v, 'o) AuthlierDatabase \<Rightarrow> ('c, 'v, 'o) authlier_stores" where
  "Stores db =
     (database_Stores (database db))\<lparr>Sessions := Inl (sessions db), EmailVerification := Some (emailVerifications db)\<rparr>"


section \<open>The cap\<close>

definition active_count :: "string \<Rightarrow> instant \<Rightarrow> session_record list \<Rightarrow> int" where
  "active_count subject t rows = int (length (filter (active_at subject t) rows))"

lemma active_at_later: "active_at subject t s \<Longrightarrow> t' \<le> t \<Longrightarrow> active_at subject t' s"
  by (simp add: active_at_def)

lemma active_count_later: "t' \<le> t \<Longrightarrow> active_count subject t rows \<le> active_count subject t' rows"
  by (auto simp: active_count_def active_at_def intro!: length_filter_mono)

lemma active_revoke_rows:
  "length (filter (active_at subject t) (revoke_rows hashes t' rows)) =
   length (filter (\<lambda>s. active_at subject t s \<and> TokenHash s \<notin> hashes) rows)"
  by (induction rows) (auto simp: revoke_rows_def active_at_def)

lemma active_count_revoke: "active_count subject t (revoke_rows hashes t' rows) \<le> active_count subject t rows"
  by (auto simp: active_count_def active_revoke_rows intro!: length_filter_mono)

lemma length_filter_newest_first: "length (filter P (newest_first rank rows)) = length (filter P rows)"
  by (simp add: newest_first_def filter_sort)

lemma set_newest_first [simp]: "set (newest_first rank rows) = set rows"
  by (simp add: newest_first_def)

lemma length_newest_first [simp]: "length (newest_first rank rows) = length rows"
  by (simp add: newest_first_def)

lemma cap_after_revoking:
  assumes "0 \<le> maximum"
    and hashes: "hashes = set (map TokenHash (oldest_beyond rank maximum subject t rows))" and "t \<le> T"
  shows "active_count subject T (revoke_rows hashes t' rows) \<le> maximum"
proof -
  let ?a = "filter (active_at subject t) rows" and ?P = "\<lambda>s. TokenHash s \<notin> hashes"
  have "length (filter ?P ?a) = length (filter ?P (newest_first rank ?a))"
    by (simp only: length_filter_newest_first)
  also have "\<dots> = length (filter ?P (take (nat maximum) (newest_first rank ?a))) +
      length (filter ?P (drop (nat maximum) (newest_first rank ?a)))"
    by (simp only: filter_take_drop_count)
  also have "filter ?P (drop (nat maximum) (newest_first rank ?a)) = []"
    by (auto simp: filter_empty_conv hashes oldest_beyond_def)
  also have "length (filter ?P (take (nat maximum) (newest_first rank ?a))) + length [] \<le> nat maximum"
    using length_filter_le [of ?P "take (nat maximum) (newest_first rank ?a)"] by simp
  finally have "length (filter ?P ?a) \<le> nat maximum" .
  then have "active_count subject t (revoke_rows hashes t' rows) \<le> maximum"
    using assms(1) by (simp add: active_count_def active_revoke_rows conj_commute le_nat_iff)
  with active_count_later [OF assms(3)] show ?thesis by (rule order_trans)
qed

section \<open>Which sessions stay\<close>

lemma kept_are_newest:
  assumes "distinct (map TokenHash rows)"
    and hashes: "hashes = set (map TokenHash (oldest_beyond rank maximum subject t rows))"
    and "s \<in> set rows" "active_at subject t s"
  shows "TokenHash s \<notin> hashes \<longleftrightarrow>
    s \<in> set (take (nat maximum) (newest_first rank (filter (active_at subject t) rows)))"
proof -
  let ?n = "newest_first rank (filter (active_at subject t) rows)"
  have mem: "s \<in> set ?n" using assms(3,4) by simp
  have inj: "x = s" if "x \<in> set ?n" "TokenHash x = TokenHash s" for x
    using that assms(3) distinct_map_inj [OF assms(1)] by auto
  have "distinct (map TokenHash (filter (active_at subject t) rows))"
    using assms(1) by (rule distinct_map_filter)
  then have "distinct ?n"
    by (auto simp: newest_first_def distinct_map)
  then have disj: "set (take (nat maximum) ?n) \<inter> set (drop (nat maximum) ?n) = {}"
    by (rule set_take_disj_set_drop_if_distinct) simp
  have split: "s \<in> set (take (nat maximum) ?n) \<or> s \<in> set (drop (nat maximum) ?n)"
    using mem by (metis append_take_drop_id Un_iff set_append)
  have "s \<in> set (drop (nat maximum) ?n)" if h: "TokenHash s \<in> hashes"
  proof -
    from h obtain x where x: "x \<in> set (drop (nat maximum) ?n)" "TokenHash x = TokenHash s"
      by (auto simp: hashes oldest_beyond_def)
    with inj [OF in_set_dropD] show ?thesis by blast
  qed
  then have "TokenHash s \<in> hashes \<longleftrightarrow> s \<in> set (drop (nat maximum) ?n)"
    by (auto simp: hashes oldest_beyond_def)
  with split disj show ?thesis by blast
qed

text \<open>Every kept active session is at least as new as every revoked one.\<close>

definition older :: "(string \<Rightarrow> int) \<Rightarrow> session_record \<Rightarrow> session_record \<Rightarrow> bool" where
  "older rank a b \<longleftrightarrow> CreatedAt a < CreatedAt b \<or> CreatedAt a = CreatedAt b \<and> rank (ID a) \<le> rank (ID b)"

lemma older_iff: "older rank a b \<longleftrightarrow> (- CreatedAt b, - rank (ID b)) \<le> (- CreatedAt a, - rank (ID a))"
  by (auto simp: older_def less_eq_prod_def)

lemma sorted_take_drop:
  assumes "sorted (map f xs)" "x \<in> set (take n xs)" "y \<in> set (drop n xs)"
  shows "f x \<le> f y"
proof -
  have "sorted (map f (take n xs) @ map f (drop n xs))"
    using assms(1) by (metis append_take_drop_id map_append)
  with assms(2,3) show ?thesis by (auto simp: sorted_append)
qed

lemma kept_newer_than_revoked:
  assumes "a \<in> set (oldest_beyond rank maximum subject t rows)"
    and "b \<in> set (take (nat maximum) (newest_first rank (filter (active_at subject t) rows)))"
  shows "older rank a b"
proof -
  let ?n = "newest_first rank (filter (active_at subject t) rows)"
  have "sorted (map (\<lambda>s. (- CreatedAt s, - rank (ID s))) ?n)" by (simp add: newest_first_def)
  from sorted_take_drop [OF this assms(2)] assms(1) show ?thesis
    by (auto simp: oldest_beyond_def older_iff)
qed

lemma newest_is_kept:
  assumes "distinct (map TokenHash rows)"
    and hashes: "hashes = set (map TokenHash (oldest_beyond rank maximum subject t rows))"
    and "1 \<le> maximum" "s \<in> set rows" "active_at subject t s"
    and newest: "\<forall>r\<in>set rows. active_at subject t r \<longrightarrow> r = s \<or> \<not> older rank s r"
  shows "TokenHash s \<notin> hashes"
proof
  let ?n = "newest_first rank (filter (active_at subject t) rows)"
  assume "TokenHash s \<in> hashes"
  with kept_are_newest [OF assms(1,2,4,5)] have not: "s \<notin> set (take (nat maximum) ?n)" by simp
  have mem: "s \<in> set ?n" using assms(4,5) by simp
  then obtain x xs where n: "?n = x # xs" by (cases ?n) auto
  with assms(3) have x: "x \<in> set (take (nat maximum) ?n)" by (cases "nat maximum") auto
  have "s \<in> set (drop (nat maximum) ?n)"
    using mem not by (metis append_take_drop_id Un_iff set_append)
  with x have "older rank s x"
    by (intro kept_newer_than_revoked [of _ rank maximum subject t rows]) (simp_all add: oldest_beyond_def)
  moreover have "x \<in> set rows" "active_at subject t x" using n set_newest_first [of rank "filter (active_at subject t) rows"] by auto
  ultimately show False using newest x not by blast
qed


section \<open>Outcomes of Create\<close>

lemmas Create_splits = fault.splits prod.splits if_splits

lemma Create_success:
  assumes "Create store fault (rows, c) s = ((rows', c'), None)"
  defines "t \<equiv> pg_timestamp (CreatedAt s)"
  defines "hashes \<equiv> set (map TokenHash
    (oldest_beyond (id_rank store) (maximumActiveSessions store) (SubjectID s) t (rows @ [session_row s])))"
  shows "rows' = revoke_rows hashes t (rows @ [session_row s])"
    and "\<not> violates_unique store rows (session_row s)"
    and "c' = drop_from_cache (session_cache store) c
      (map to_hash (map TokenHash (filter (\<lambda>r. TokenHash r \<in> hashes) (rows @ [session_row s]))))"
proof -
  have "rows' = revoke_rows hashes t (rows @ [session_row s]) \<and> \<not> violates_unique store rows (session_row s) \<and>
      c' = drop_from_cache (session_cache store) c
        (map to_hash (map TokenHash (filter (\<lambda>r. TokenHash r \<in> hashes) (rows @ [session_row s]))))"
    using assms(1)
    by (cases fault) (simp_all add: Create_def revoke_oldest_def Let_def t_def hashes_def split: if_splits)
  then show "rows' = revoke_rows hashes t (rows @ [session_row s])"
    "\<not> violates_unique store rows (session_row s)"
    "c' = drop_from_cache (session_cache store) c
      (map to_hash (map TokenHash (filter (\<lambda>r. TokenHash r \<in> hashes) (rows @ [session_row s]))))"
    by blast+
qed

lemma Create_failure:
  "Create store fault (rows, c) s = ((rows', c'), Some e) \<Longrightarrow> \<forall>x. fault \<noteq> Commit_reply_lost x \<Longrightarrow>
   rows' = rows \<and> c' = c"
  by (cases fault) (auto simp: Create_def revoke_oldest_def Let_def split: if_splits)

context expiring_cache
begin

lemma drop_from_cache_other: "h \<notin> set hs \<Longrightarrow> entry (drop_from_cache C c hs) h = entry c h"
proof (induction hs arbitrary: c)
  case (Cons k hs)
  obtain c' err where del: "cache_Delete C c k = (c', err)" by (cases "cache_Delete C c k")
  with Cons delete_other [OF del, of h] show ?case by simp
qed simp

lemma drop_from_cache_gone:
  assumes "\<And>c h. snd (cache_Delete C c h) = None"
  shows "h \<in> set hs \<Longrightarrow> entry (drop_from_cache C c hs) h = None"
proof (induction hs arbitrary: c)
  case (Cons k hs)
  obtain c' where del: "cache_Delete C c k = (c', None)" using assms [of c k] by (cases "cache_Delete C c k") simp
  show ?case
  proof (cases "h \<in> set hs")
    case True
    with Cons.IH del show ?thesis by simp
  next
    case False
    with Cons.prems have "h = k" by simp
    with False del drop_from_cache_other [of h hs c'] delete_entry [OF del] show ?thesis by simp
  qed
qed simp

end

section \<open>The session store's properties\<close>

text \<open>Three sessions of one subject and one of another, for evaluating runs with a maximum of two.\<close>

definition sample_session :: "8 word \<Rightarrow> string \<Rightarrow> instant \<Rightarrow> session_record" where
  "sample_session n subject created = \<lparr>ID = ''id'', TokenHash = replicate 32 n, SubjectID = subject,
     CreatedAt = created * 1000, ExpiresAt = 9000000, ExtendedAt = None, RevokedAt = None\<rparr>"

definition sample_store :: "mem_cache postgresSessionStore" where
  "sample_store =
     \<lparr>session_store =
        \<lparr>store_FindByTokenHash = (\<lambda>rows h. Inl (Errorf ''not found'')),
         store_ListBySubject = (\<lambda>rows subject. Inr rows),
         store_Extend = (\<lambda>rows h a b. (rows, Inl (Errorf ''not found''))),
         store_Rotate = (\<lambda>rows h r a. (rows, None)),
         store_Revoke = (\<lambda>rows h a. (rows, None)),
         store_RevokeAll = (\<lambda>rows subject a. (rows, Inr []))\<rparr>,
      session_cache = mem_cache_ops, maximumActiveSessions = 2,
      violates_unique = (\<lambda>rows s. TokenHash s \<in> TokenHash ` set rows), id_rank = (\<lambda>i. 0)\<rparr>"

definition sample_rows :: "session_record list" where
  "sample_rows = [sample_session 1 ''a'' 10, sample_session 2 ''b'' 5, sample_session 3 ''a'' 20]"

definition sample_cached :: mem_cache where
  "sample_cached = [(replicate 32 1, sample_session 1 ''a'' 10, 60)]"

definition sample_result :: "session_record list \<times> mem_cache" where
  "sample_result = ([(sample_session 1 ''a'' 10)\<lparr>RevokedAt := Some 30000\<rparr>, sample_session 2 ''b'' 5,
     sample_session 3 ''a'' 20, sample_session 4 ''a'' 30], [])"

lemma sample_create:
  "Create sample_store No_fault (sample_rows, sample_cached) (sample_session 4 ''a'' 30) = (sample_result, None)"
  by code_simp

text \<open>
  C10. The cap. After a successful \<open>Create\<close> the subject has at most the maximum of active
  sessions, at the new session's creation time and at every later one, whatever the rows were
  before.
\<close>

theorem create_caps_active_sessions:
  assumes "Create store fault (rows, c) s = ((rows', c'), None)" "0 \<le> maximumActiveSessions store"
    and "pg_timestamp (CreatedAt s) \<le> t"
  shows "active_count (SubjectID s) t rows' \<le> maximumActiveSessions store"
  unfolding Create_success(1) [OF assms(1)] using assms(2,3) by (intro cap_after_revoking [OF _ refl])

theorem create_caps_active_sessions_witness:
  "active_count ''a'' 40000 (fst sample_result) \<le> 2 \<and> active_count ''a'' 5000 (sample_rows @ [sample_session 4 ''a'' 30]) = 3"
proof
  have "maximumActiveSessions sample_store = 2" "SubjectID (sample_session 4 ''a'' 30) = ''a''"
    by (simp_all add: sample_store_def sample_session_def)
  then show "active_count ''a'' 40000 (fst sample_result) \<le> 2"
    using create_caps_active_sessions [of sample_store No_fault sample_rows sample_cached "sample_session 4 ''a'' 30"
        "fst sample_result" "snd sample_result" 40000] sample_create
    by (simp add: sample_session_def pg_timestamp_def)
  show "active_count ''a'' 5000 (sample_rows @ [sample_session 4 ''a'' 30]) = 3" by code_simp
qed

text \<open>
  C11. Which sessions stay. When token hashes are unique, a successful \<open>Create\<close> adds the new row
  and revokes, at the new session's creation time, exactly the active sessions of the subject that
  are not among its newest \<open>maximumActiveSessions\<close>; every other row stays as it was. The sessions
  that stay are at least as new as the revoked ones, and the new session itself stays when no
  active session of the subject is as new.
\<close>

theorem create_revokes_exactly_the_oldest:
  assumes "Create store fault (rows, c) s = ((rows', c'), None)"
    and "distinct (map TokenHash (rows @ [session_row s]))"
  defines "t \<equiv> pg_timestamp (CreatedAt s)"
  defines "newest \<equiv> newest_first (id_rank store) (filter (active_at (SubjectID s) t) (rows @ [session_row s]))"
  shows "rows' = map (\<lambda>r. if active_at (SubjectID s) t r \<and> r \<notin> set (take (nat (maximumActiveSessions store)) newest)
      then r\<lparr>RevokedAt := Some t\<rparr> else r) (rows @ [session_row s]) \<and>
    (\<forall>a\<in>set (drop (nat (maximumActiveSessions store)) newest).
       \<forall>b\<in>set (take (nat (maximumActiveSessions store)) newest). older (id_rank store) a b)"
proof
  let ?rows = "rows @ [session_row s]" and ?m = "nat (maximumActiveSessions store)"
  let ?H = "set (map TokenHash (oldest_beyond (id_rank store) (maximumActiveSessions store) (SubjectID s) t ?rows))"
  have "TokenHash r \<in> ?H \<longleftrightarrow> active_at (SubjectID s) t r \<and> r \<notin> set (take ?m newest)" if r: "r \<in> set ?rows" for r
  proof (cases "active_at (SubjectID s) t r")
    case True
    with kept_are_newest [OF assms(2) refl r True, of "id_rank store" "maximumActiveSessions store"]
    show ?thesis unfolding newest_def by blast
  next
    case False
    have "TokenHash r \<notin> ?H"
    proof
      assume "TokenHash r \<in> ?H"
      then obtain x where x: "x \<in> set (oldest_beyond (id_rank store) (maximumActiveSessions store) (SubjectID s) t ?rows)"
          "TokenHash x = TokenHash r" by auto
      with distinct_map_inj [OF assms(2) _ r, of x] oldest_beyondD [OF x(1)] False show False by auto
    qed
    with False show ?thesis by blast
  qed
  then show "rows' = map (\<lambda>r. if active_at (SubjectID s) t r \<and> r \<notin> set (take ?m newest)
      then r\<lparr>RevokedAt := Some t\<rparr> else r) ?rows"
    unfolding Create_success(1) [OF assms(1)] t_def [symmetric] revoke_rows_def
    by (intro map_cong refl) simp
  show "\<forall>a\<in>set (drop ?m newest). \<forall>b\<in>set (take ?m newest). older (id_rank store) a b"
    using kept_newer_than_revoked [of _ "id_rank store" "maximumActiveSessions store" "SubjectID s" t ?rows]
    by (simp add: newest_def oldest_beyond_def)
qed

theorem create_revokes_exactly_the_oldest_witness:
  "fst sample_result = map (\<lambda>r. if active_at ''a'' 30000 r \<and>
      r \<notin> set (take 2 (newest_first (\<lambda>i. 0) (filter (active_at ''a'' 30000)
        (sample_rows @ [session_row (sample_session 4 ''a'' 30)]))))
    then r\<lparr>RevokedAt := Some 30000\<rparr> else r) (sample_rows @ [session_row (sample_session 4 ''a'' 30)])"
proof -
  have fields: "SubjectID (sample_session 4 ''a'' 30) = ''a''" "pg_timestamp (CreatedAt (sample_session 4 ''a'' 30)) = 30000"
    "id_rank sample_store = (\<lambda>i. 0)" "nat (maximumActiveSessions sample_store) = 2"
    by (simp_all add: sample_session_def sample_store_def pg_timestamp_def)
  have run: "Create sample_store No_fault (sample_rows, sample_cached) (sample_session 4 ''a'' 30) =
      ((fst sample_result, snd sample_result), None)"
    by (simp add: sample_create)
  have unique: "distinct (map TokenHash (sample_rows @ [session_row (sample_session 4 ''a'' 30)]))" by code_simp
  from create_revokes_exactly_the_oldest [OF run unique] show ?thesis unfolding fields by blast
qed

text \<open>
  A failed \<open>Create\<close> changes neither the table nor the cache, except that the commit's reply
  can be lost after the transaction took effect.
\<close>

theorem create_failure_rolls_back:
  assumes "Create store fault (rows, c) s = ((rows', c'), Some e)" "\<forall>x. fault \<noteq> Commit_reply_lost x"
  shows "rows' = rows \<and> c' = c"
  using assms by (rule Create_failure)

theorem create_failure_rolls_back_witness:
  "fst (Create sample_store (Commit_fails (Errorf ''eof'')) (sample_rows, sample_cached) (sample_session 4 ''a'' 30)) =
   (sample_rows, sample_cached)"
proof -
  obtain rows' c' e where run: "Create sample_store (Commit_fails (Errorf ''eof'')) (sample_rows, sample_cached)
      (sample_session 4 ''a'' 30) = ((rows', c'), Some e)"
    by (auto simp: Create_def Let_def sample_store_def sample_rows_def sample_session_def session_row_def
        replicate_eq_replicate split: prod.splits)
  from create_failure_rolls_back [OF this] show ?thesis by (simp add: run)
qed

text \<open>
  Revoked sessions leave the cache: when the cache's deletes succeed, no session that
  \<open>Create\<close> revoked has an entry afterwards, and the entries of all other sessions stay.
\<close>

theorem create_invalidates_the_cache:
  assumes "expiring_cache (session_cache store) entry"
    and "\<And>c h. snd (cache_Delete (session_cache store) c h) = None"
    and "\<forall>r\<in>set (rows @ [session_row s]). length (TokenHash r) = 32"
    and "Create store fault (rows, c) s = ((rows', c'), None)"
    and "r \<in> set (rows @ [session_row s])"
  defines "revoked \<equiv> oldest_beyond (id_rank store) (maximumActiveSessions store) (SubjectID s)
    (pg_timestamp (CreatedAt s)) (rows @ [session_row s])"
  shows "entry c' (TokenHash r) = (if TokenHash r \<in> TokenHash ` set revoked then None else entry c (TokenHash r))"
proof -
  let ?hs = "map to_hash (map TokenHash (filter (\<lambda>r. TokenHash r \<in> set (map TokenHash revoked)) (rows @ [session_row s])))"
  have same: "to_hash h = h" if "length h = 32" for h using that by (simp add: to_hash_def)
  have c': "c' = drop_from_cache (session_cache store) c ?hs"
    using Create_success(3) [OF assms(4)] by (simp add: revoked_def)
  have "TokenHash r \<in> set ?hs \<longleftrightarrow> TokenHash r \<in> TokenHash ` set revoked"
    using assms(3,5) same by (auto simp: image_iff)
  with expiring_cache.drop_from_cache_gone [OF assms(1,2)] expiring_cache.drop_from_cache_other [OF assms(1)]
  show ?thesis by (auto simp: c')
qed

theorem create_invalidates_the_cache_witness:
  "map_of (snd sample_result) (TokenHash (sample_session 1 ''a'' 10)) = None"
proof -
  have fields: "SubjectID (sample_session 4 ''a'' 30) = ''a''" "pg_timestamp (CreatedAt (sample_session 4 ''a'' 30)) = 30000"
    "id_rank sample_store = (\<lambda>i. 0)" "maximumActiveSessions sample_store = 2"
    by (simp_all add: sample_session_def sample_store_def pg_timestamp_def)
  have run: "Create sample_store No_fault (sample_rows, sample_cached) (sample_session 4 ''a'' 30) =
      ((fst sample_result, snd sample_result), None)"
    by (simp add: sample_create)
  have cache: "expiring_cache (session_cache sample_store) map_of" "snd (cache_Delete (session_cache sample_store) c h) = None" for c h
    by (simp_all add: sample_store_def mem_cache.expiring_cache_axioms) (simp add: mem_cache_ops_def)
  have hashes: "\<forall>r\<in>set (sample_rows @ [session_row (sample_session 4 ''a'' 30)]). length (TokenHash r) = 32"
    by (simp add: sample_rows_def sample_session_def)
  have gone: "TokenHash (sample_session 1 ''a'' 10) \<in> TokenHash ` set (oldest_beyond (\<lambda>i. 0) 2 ''a'' 30000
      (sample_rows @ [session_row (sample_session 4 ''a'' 30)]))"
    by code_simp
  have mem: "sample_session 1 ''a'' 10 \<in> set (sample_rows @ [session_row (sample_session 4 ''a'' 30)])"
    by (simp add: sample_rows_def)
  from create_invalidates_the_cache [OF cache hashes run mem] gone show ?thesis unfolding fields by simp
qed

text \<open>
  Shared lookups never cross tokens: \<open>FindByTokenHash\<close> returns what the inner store finds
  for its own hash, or the outcome of a lookup in flight for that very hash.
\<close>

theorem shared_lookup_is_for_the_same_token:
  "FindByTokenHash store (map_of (map (\<lambda>(h, outcome). (EncodeToString h, outcome)) flights)) rows tokenHash
     = store_FindByTokenHash (session_store store) rows tokenHash \<or>
   (tokenHash, FindByTokenHash store (map_of (map (\<lambda>(h, outcome). (EncodeToString h, outcome)) flights)) rows tokenHash)
     \<in> set flights"
proof (cases "map_of (map (\<lambda>(h, outcome). (EncodeToString h, outcome)) flights) (EncodeToString tokenHash)")
  case None
  then show ?thesis by (simp add: FindByTokenHash_def)
next
  case (Some outcome)
  from map_of_SomeD [OF this] have "(tokenHash, outcome) \<in> set flights"
    by (auto dest!: EncodeToString_inj)
  with Some show ?thesis by (simp add: FindByTokenHash_def)
qed

end
