(* ===== verification/Session_Concurrency.thy ===== *)
theory Session_Concurrency
  imports Session_Store
begin

text \<open>
  Concurrent runs of \<open>Create\<close> of \<open>internal/infra/authentication/session_store.go\<close>: the transactions
  as a step relation under the advisory lock, the invariant of every reachable state, and that the
  locking neither blocks nor loops.
\<close>

section \<open>Concurrent creation\<close>

text \<open>
  Transactions of any number of API instances, interleaved as PostgreSQL may. A transaction
  waits for the advisory lock of its subject (\<open>lock_key\<close> is \<open>hashtext\<close>), holds it until it ends,
  inserts its row, computes its revocations from the rows committed then and that row, and makes
  both visible when it commits. \<open>violates rows s\<close> is the table's uniqueness rule, as in
  \<open>Session_Store\<close>: an insert that collides with a committed row ends its transaction
  (\<open>ErrConflict\<close>), and one that collides with a row another transaction has not yet committed waits
  for the end of that transaction. A transaction can end without committing at any point. Sessions
  may be revoked at any time.
\<close>

datatype tx_stage = Waiting | Locked | Written "token_hash set"

record create_tx =
  tx_record :: session_record
  tx_stage :: tx_stage

record create_state =
  table :: "session_record list"
  txs :: "nat \<rightharpoonup> create_tx"

definition committed_table :: "session_record \<Rightarrow> token_hash set \<Rightarrow> session_record list \<Rightarrow> session_record list" where
  "committed_table s hashes rows = revoke_rows hashes (pg_timestamp (CreatedAt s)) (rows @ [session_row s])"

inductive create_step ::
  "(string \<Rightarrow> int) \<Rightarrow> (string \<Rightarrow> int) \<Rightarrow> (session_record list \<Rightarrow> session_record \<Rightarrow> bool) \<Rightarrow> int \<Rightarrow>
   create_state \<Rightarrow> create_state \<Rightarrow> bool"
  for lock_key :: "string \<Rightarrow> int" and rank :: "string \<Rightarrow> int"
    and violates :: "session_record list \<Rightarrow> session_record \<Rightarrow> bool" and maximum :: int
where
  begin_tx: "txs st i = None \<Longrightarrow>
    create_step lock_key rank violates maximum st (st\<lparr>txs := (txs st)(i \<mapsto> \<lparr>tx_record = s, tx_stage = Waiting\<rparr>)\<rparr>)"
| take_lock: "txs st i = Some \<lparr>tx_record = s, tx_stage = Waiting\<rparr> \<Longrightarrow>
    (\<And>j tx. txs st j = Some tx \<Longrightarrow> tx_stage tx \<noteq> Waiting \<Longrightarrow>
       lock_key (SubjectID (tx_record tx)) \<noteq> lock_key (SubjectID s)) \<Longrightarrow>
    create_step lock_key rank violates maximum st (st\<lparr>txs := (txs st)(i \<mapsto> \<lparr>tx_record = s, tx_stage = Locked\<rparr>)\<rparr>)"
| write_rows: "txs st i = Some \<lparr>tx_record = s, tx_stage = Locked\<rparr> \<Longrightarrow>
    \<not> violates (table st) (session_row s) \<Longrightarrow>
    (\<And>j other H. txs st j = Some \<lparr>tx_record = other, tx_stage = Written H\<rparr> \<Longrightarrow>
       \<not> violates [session_row other] (session_row s)) \<Longrightarrow>
    hashes = set (map TokenHash
      (oldest_beyond rank maximum (SubjectID s) (pg_timestamp (CreatedAt s)) (table st @ [session_row s]))) \<Longrightarrow>
    create_step lock_key rank violates maximum st (st\<lparr>txs := (txs st)(i \<mapsto> \<lparr>tx_record = s, tx_stage = Written hashes\<rparr>)\<rparr>)"
| insert_conflict: "txs st i = Some \<lparr>tx_record = s, tx_stage = Locked\<rparr> \<Longrightarrow>
    violates (table st) (session_row s) \<Longrightarrow>
    create_step lock_key rank violates maximum st (st\<lparr>txs := (txs st)(i := None)\<rparr>)"
| commit_tx: "txs st i = Some \<lparr>tx_record = s, tx_stage = Written hashes\<rparr> \<Longrightarrow>
    create_step lock_key rank violates maximum st
      (st\<lparr>table := committed_table s hashes (table st), txs := (txs st)(i := None)\<rparr>)"
| abort_tx: "create_step lock_key rank violates maximum st (st\<lparr>txs := (txs st)(i := None)\<rparr>)"
| revoke_some: "create_step lock_key rank violates maximum st (st\<lparr>table := revoke_rows hashes t (table st)\<rparr>)"

definition capped :: "int \<Rightarrow> session_record list \<Rightarrow> bool" where
  "capped maximum rows \<longleftrightarrow>
     (\<forall>subject t. (\<forall>r\<in>set rows. SubjectID r = subject \<longrightarrow> CreatedAt r \<le> t) \<longrightarrow> active_count subject t rows \<le> maximum)"

definition exclusive :: "(string \<Rightarrow> int) \<Rightarrow> (nat \<rightharpoonup> create_tx) \<Rightarrow> bool" where
  "exclusive lock_key running \<longleftrightarrow>
     (\<forall>i j a b. i \<noteq> j \<and> running i = Some a \<and> running j = Some b \<and> tx_stage a \<noteq> Waiting \<and> tx_stage b \<noteq> Waiting \<longrightarrow>
        lock_key (SubjectID (tx_record a)) \<noteq> lock_key (SubjectID (tx_record b)))"

definition prepared :: "int \<Rightarrow> create_state \<Rightarrow> bool" where
  "prepared maximum st \<longleftrightarrow>
     (\<forall>i s hashes t. txs st i = Some \<lparr>tx_record = s, tx_stage = Written hashes\<rparr> \<and> pg_timestamp (CreatedAt s) \<le> t \<longrightarrow>
        active_count (SubjectID s) t (committed_table s hashes (table st)) \<le> maximum)"

definition create_inv :: "(string \<Rightarrow> int) \<Rightarrow> int \<Rightarrow> create_state \<Rightarrow> bool" where
  "create_inv lock_key maximum st \<longleftrightarrow> capped maximum (table st) \<and> exclusive lock_key (txs st) \<and> prepared maximum st"

lemma exclusive_remove: "exclusive lock_key running \<Longrightarrow> exclusive lock_key (running(i := None))"
  by (auto simp: exclusive_def)

lemma exclusive_waiting: "exclusive lock_key running \<Longrightarrow> exclusive lock_key (running(i \<mapsto> \<lparr>tx_record = s, tx_stage = Waiting\<rparr>))"
  by (auto simp: exclusive_def)

lemma exclusive_enter:
  assumes "exclusive lock_key running"
    and "\<And>j tx. j \<noteq> i \<Longrightarrow> running j = Some tx \<Longrightarrow> tx_stage tx \<noteq> Waiting \<Longrightarrow>
      lock_key (SubjectID (tx_record tx)) \<noteq> lock_key (SubjectID s)"
  shows "exclusive lock_key (running(i \<mapsto> \<lparr>tx_record = s, tx_stage = stage\<rparr>))"
  unfolding exclusive_def
proof (intro allI impI, elim conjE)
  fix j k a b
  assume *: "j \<noteq> k" "(running(i \<mapsto> \<lparr>tx_record = s, tx_stage = stage\<rparr>)) j = Some a"
    "(running(i \<mapsto> \<lparr>tx_record = s, tx_stage = stage\<rparr>)) k = Some b" "tx_stage a \<noteq> Waiting" "tx_stage b \<noteq> Waiting"
  consider "j = i" "k \<noteq> i" | "k = i" "j \<noteq> i" | "j \<noteq> i" "k \<noteq> i" using *(1) by blast
  then show "lock_key (SubjectID (tx_record a)) \<noteq> lock_key (SubjectID (tx_record b))"
  proof cases
    case 1
    with * have "running k = Some b" "a = \<lparr>tx_record = s, tx_stage = stage\<rparr>" by auto
    with assms(2) [OF 1(2)] *(5) show ?thesis by (metis create_tx.select_convs(1))
  next
    case 2
    with * have "running j = Some a" "b = \<lparr>tx_record = s, tx_stage = stage\<rparr>" by auto
    with assms(2) [OF 2(2)] *(4) show ?thesis by (metis create_tx.select_convs(1))
  next
    case 3
    with * have "running j = Some a" "running k = Some b" by auto
    with assms(1) *(1,4,5) show ?thesis unfolding exclusive_def by blast
  qed
qed

lemma exclusive_other:
  assumes "exclusive lock_key running" "running i = Some \<lparr>tx_record = s, tx_stage = stage\<rparr>" "stage \<noteq> Waiting"
    and "j \<noteq> i" "running j = Some tx" "tx_stage tx \<noteq> Waiting"
  shows "lock_key (SubjectID (tx_record tx)) \<noteq> lock_key (SubjectID s)"
  using assms unfolding exclusive_def by (metis create_tx.select_convs(1,2))

lemma prepared_other_stage:
  "prepared maximum st \<Longrightarrow> \<forall>hashes. stage \<noteq> Written hashes \<Longrightarrow>
   prepared maximum (st\<lparr>txs := (txs st)(i \<mapsto> \<lparr>tx_record = s, tx_stage = stage\<rparr>)\<rparr>)"
  by (auto simp: prepared_def split: if_splits)

lemma preparedD:
  "prepared maximum st \<Longrightarrow> txs st i = Some \<lparr>tx_record = s, tx_stage = Written hashes\<rparr> \<Longrightarrow>
   pg_timestamp (CreatedAt s) \<le> t \<Longrightarrow> active_count (SubjectID s) t (committed_table s hashes (table st)) \<le> maximum"
  by (auto simp: prepared_def)

lemma revoke_rows_created:
  "(\<forall>r\<in>set (revoke_rows hashes t rows). SubjectID r = subject \<longrightarrow> CreatedAt r \<le> T) \<longleftrightarrow>
   (\<forall>r\<in>set rows. SubjectID r = subject \<longrightarrow> CreatedAt r \<le> T)"
  by (induction rows) (auto simp: revoke_rows_def)

lemma revoke_rows_append: "revoke_rows hashes t (xs @ ys) = revoke_rows hashes t xs @ revoke_rows hashes t ys"
  by (simp add: revoke_rows_def)

lemma active_count_append: "active_count subject t (xs @ ys) = active_count subject t xs + active_count subject t ys"
  by (simp add: active_count_def)

lemma revoke_rows_shrinks:
  "length (filter (\<lambda>s. active_at subject t s \<and> TokenHash s \<notin> H) (revoke_rows hashes t' rows)) \<le>
   length (filter (\<lambda>s. active_at subject t s \<and> TokenHash s \<notin> H) rows)"
  by (induction rows) (auto simp: revoke_rows_def active_at_def)

lemma active_committed_revoke:
  "active_count subject t (committed_table s H (revoke_rows hashes t' rows)) \<le>
   active_count subject t (committed_table s H rows)"
  unfolding committed_table_def revoke_rows_append active_count_append
  using revoke_rows_shrinks [of subject t H hashes t' rows] by (simp add: active_count_def active_revoke_rows)

lemma active_committed_other:
  assumes "SubjectID s \<noteq> subject"
  shows "active_count subject t (committed_table s' H (committed_table s hashes rows)) \<le>
    active_count subject t (committed_table s' H rows)"
proof -
  have "active_count subject t (committed_table s' H (rows @ [session_row s])) =
      active_count subject t (committed_table s' H rows)"
    using assms
    by (auto simp: committed_table_def revoke_rows_def active_count_def active_at_def session_row_def)
  then show ?thesis
    using active_committed_revoke [of subject t s' H hashes _ "rows @ [session_row s]"]
    unfolding committed_table_def [of s] by simp
qed

lemma capped_revoke: "capped maximum rows \<Longrightarrow> capped maximum (revoke_rows hashes t rows)"
proof (unfold capped_def, intro allI impI)
  fix subject T
  assume cap: "\<forall>subject t. (\<forall>r\<in>set rows. SubjectID r = subject \<longrightarrow> CreatedAt r \<le> t) \<longrightarrow> active_count subject t rows \<le> maximum"
    and "\<forall>r\<in>set (revoke_rows hashes t rows). SubjectID r = subject \<longrightarrow> CreatedAt r \<le> T"
  then have "\<forall>r\<in>set rows. SubjectID r = subject \<longrightarrow> CreatedAt r \<le> T"
    by (simp add: revoke_rows_created)
  with cap active_count_revoke [of subject T hashes t rows] show "active_count subject T (revoke_rows hashes t rows) \<le> maximum"
    by (meson order_trans)
qed

lemma capped_commit:
  assumes "capped maximum rows"
    and "\<And>t. pg_timestamp (CreatedAt s) \<le> t \<Longrightarrow> active_count (SubjectID s) t (committed_table s hashes rows) \<le> maximum"
  shows "capped maximum (committed_table s hashes rows)"
proof (unfold capped_def, intro allI impI)
  fix subject T
  assume times: "\<forall>r\<in>set (committed_table s hashes rows). SubjectID r = subject \<longrightarrow> CreatedAt r \<le> T"
  then have old: "\<forall>r\<in>set (rows @ [session_row s]). SubjectID r = subject \<longrightarrow> CreatedAt r \<le> T"
    by (simp only: committed_table_def revoke_rows_created)
  show "active_count subject T (committed_table s hashes rows) \<le> maximum"
  proof (cases "SubjectID s = subject")
    case True
    with old assms(2) show ?thesis by auto
  next
    case False
    have "active_count subject T (committed_table s hashes rows) \<le> active_count subject T (rows @ [session_row s])"
      unfolding committed_table_def by (rule active_count_revoke)
    also have "\<dots> = active_count subject T rows"
      using False by (simp add: active_count_def active_at_def)
    also have "\<dots> \<le> maximum" using assms(1) old by (simp add: capped_def)
    finally show ?thesis .
  qed
qed

lemma prepared_commit:
  assumes "prepared maximum st" "exclusive lock_key (txs st)"
    and i: "txs st i = Some \<lparr>tx_record = s, tx_stage = Written hashes\<rparr>"
  shows "prepared maximum (st\<lparr>table := committed_table s hashes (table st), txs := (txs st)(i := None)\<rparr>)"
  unfolding prepared_def
proof (intro allI impI, elim conjE)
  fix j s' H t
  assume "txs (st\<lparr>table := committed_table s hashes (table st), txs := (txs st)(i := None)\<rparr>) j =
      Some \<lparr>tx_record = s', tx_stage = Written H\<rparr>" and t: "pg_timestamp (CreatedAt s') \<le> t"
  then have j: "txs st j = Some \<lparr>tx_record = s', tx_stage = Written H\<rparr>" "j \<noteq> i" by (auto split: if_splits)
  have "lock_key (SubjectID s') \<noteq> lock_key (SubjectID s)"
    using exclusive_other [OF assms(2) i _ j(2) j(1)] by simp
  then have "SubjectID s \<noteq> SubjectID s'" by metis
  from active_committed_other [OF this, of t s' H hashes "table st"] preparedD [OF assms(1) j(1) t]
  show "active_count (SubjectID s') t (committed_table s' H
      (table (st\<lparr>table := committed_table s hashes (table st), txs := (txs st)(i := None)\<rparr>))) \<le> maximum"
    by simp
qed

lemma create_inv_step:
  assumes "create_step lock_key rank violates maximum st st'" "0 \<le> maximum" "create_inv lock_key maximum st"
  shows "create_inv lock_key maximum st'"
  using assms
proof (induction rule: create_step.induct)
  case (begin_tx st i s)
  then show ?case by (simp add: create_inv_def exclusive_waiting prepared_other_stage)
next
  case (take_lock st i s)
  then show ?case by (simp add: create_inv_def exclusive_enter prepared_other_stage)
next
  case (write_rows st i s hashes)
  have cap: "active_count (SubjectID s) t (committed_table s hashes (table st)) \<le> maximum"
    if "pg_timestamp (CreatedAt s) \<le> t" for t
    unfolding committed_table_def using write_rows that by (intro cap_after_revoking)
  have "prepared maximum (st\<lparr>txs := (txs st)(i \<mapsto> \<lparr>tx_record = s, tx_stage = Written hashes\<rparr>)\<rparr>)"
    using write_rows.prems(2) cap by (auto simp: create_inv_def prepared_def split: if_splits)
  moreover have "exclusive lock_key ((txs st)(i \<mapsto> \<lparr>tx_record = s, tx_stage = Written hashes\<rparr>))"
    using write_rows exclusive_other [of lock_key "txs st" i s Locked] by (intro exclusive_enter) (auto simp: create_inv_def)
  ultimately show ?case using write_rows.prems(2) by (simp add: create_inv_def)
next
  case (commit_tx st i s hashes)
  then have inv: "capped maximum (table st)" "exclusive lock_key (txs st)" "prepared maximum st"
    by (simp_all add: create_inv_def)
  have "capped maximum (committed_table s hashes (table st))"
    using preparedD [OF inv(3) commit_tx.hyps] inv(1) by (intro capped_commit)
  with inv prepared_commit [OF inv(3,2) commit_tx.hyps] show ?case
    by (simp add: create_inv_def exclusive_remove)
next
  case (insert_conflict st i s)
  then show ?case by (auto simp: create_inv_def exclusive_remove prepared_def split: if_splits)
next
  case (abort_tx st i)
  then show ?case by (auto simp: create_inv_def exclusive_remove prepared_def split: if_splits)
next
  case (revoke_some st hashes t)
  then have inv: "capped maximum (table st)" "exclusive lock_key (txs st)" "prepared maximum st"
    by (simp_all add: create_inv_def)
  have "active_count (SubjectID s) T (committed_table s H (revoke_rows hashes t (table st))) \<le> maximum"
    if "txs st i = Some \<lparr>tx_record = s, tx_stage = Written H\<rparr>" "pg_timestamp (CreatedAt s) \<le> T" for i s H T
    using active_committed_revoke [of "SubjectID s" T s H hashes t "table st"] preparedD [OF inv(3) that]
    by (rule order_trans)
  then have "prepared maximum (st\<lparr>table := revoke_rows hashes t (table st)\<rparr>)"
    unfolding prepared_def by auto
  with inv show ?case by (simp add: create_inv_def capped_revoke)
qed

lemma create_inv_reachable:
  "rtranclp (create_step lock_key rank violates maximum) st st' \<Longrightarrow> 0 \<le> maximum \<Longrightarrow> create_inv lock_key maximum st \<Longrightarrow>
   create_inv lock_key maximum st'"
  by (induction rule: rtranclp_induct) (auto intro: create_inv_step)


lemma create_runs:
  assumes "Create store fault (rows, c) s = ((rows', c'), None)"
  shows "rtranclp (create_step lock_key (id_rank store) (violates_unique store) (maximumActiveSessions store))
    \<lparr>table = rows, txs = Map.empty\<rparr> \<lparr>table = rows', txs = Map.empty\<rparr>"
proof -
  let ?step = "create_step lock_key (id_rank store) (violates_unique store) (maximumActiveSessions store)"
  let ?H = "set (map TokenHash (oldest_beyond (id_rank store) (maximumActiveSessions store) (SubjectID s)
    (pg_timestamp (CreatedAt s)) (rows @ [session_row s])))"
  let ?st = "\<lambda>stage. \<lparr>table = rows, txs = Map.empty(0 \<mapsto> \<lparr>tx_record = s, tx_stage = stage\<rparr>)\<rparr>"
  have "?step \<lparr>table = rows, txs = Map.empty\<rparr> (?st Waiting)"
    using create_step.begin_tx [of "\<lparr>table = rows, txs = Map.empty\<rparr>" 0 lock_key "id_rank store"
        "violates_unique store" "maximumActiveSessions store" s] by simp
  moreover have "?step (?st Waiting) ((?st Waiting)\<lparr>txs := (txs (?st Waiting))(0 \<mapsto> \<lparr>tx_record = s, tx_stage = Locked\<rparr>)\<rparr>)"
    by (rule create_step.take_lock) (auto split: if_splits)
  then have "?step (?st Waiting) (?st Locked)" by simp
  moreover have "?step (?st Locked) ((?st Locked)\<lparr>txs := (txs (?st Locked))(0 \<mapsto> \<lparr>tx_record = s, tx_stage = Written ?H\<rparr>)\<rparr>)"
    using Create_success(2) [OF assms] by (intro create_step.write_rows) (auto split: if_splits)
  then have "?step (?st Locked) (?st (Written ?H))" by simp
  moreover have "?step (?st (Written ?H)) \<lparr>table = rows', txs = Map.empty\<rparr>"
    using create_step.commit_tx [of "?st (Written ?H)" 0 s ?H lock_key "id_rank store" "violates_unique store" "maximumActiveSessions store"]
      Create_success(1) [OF assms]
    by (simp add: committed_table_def)
  ultimately show ?thesis
    by (meson rtranclp.rtrancl_refl converse_rtranclp_into_rtranclp)
qed

section \<open>Running to completion\<close>

text \<open>
  A move is a step of a transaction in progress other than giving up: taking the lock, inserting,
  committing, or ending because its token hash is stored. Token hashes are the unique key here. The
  work left counts the moves each transaction can still make.
\<close>

definition hash_taken :: "session_record list \<Rightarrow> session_record \<Rightarrow> bool" where
  "hash_taken rows s \<longleftrightarrow> TokenHash s \<in> TokenHash ` set rows"

definition tx_move :: "(string \<Rightarrow> int) \<Rightarrow> (string \<Rightarrow> int) \<Rightarrow> int \<Rightarrow> create_state \<Rightarrow> create_state \<Rightarrow> bool" where
  "tx_move lock_key rank maximum st st' \<longleftrightarrow>
     create_step lock_key rank hash_taken maximum st st' \<and> dom (txs st') \<subseteq> dom (txs st) \<and> txs st' \<noteq> txs st \<and>
     (\<forall>i tx. txs st i = Some tx \<and> txs st' i = None \<longrightarrow> hash_taken (table st') (tx_record tx))"

primrec stage_work :: "tx_stage \<Rightarrow> nat" where
  "stage_work Waiting = 3"
| "stage_work Locked = 2"
| "stage_work (Written hashes) = 1"

definition work_left :: "(nat \<rightharpoonup> create_tx) \<Rightarrow> nat" where
  "work_left running = (\<Sum>i\<in>dom running. stage_work (tx_stage (the (running i))))"

lemma stage_work_bounds: "0 < stage_work stage" "stage_work stage \<le> 3"
  by (cases stage; simp)+

lemma work_left_bound: "work_left running \<le> 3 * card (dom running)"
proof -
  have "work_left running \<le> (\<Sum>i\<in>dom running. 3)"
    unfolding work_left_def by (rule sum_mono) (rule stage_work_bounds)
  then show ?thesis by simp
qed

lemma work_left_remove:
  assumes "finite (dom running)" "running i = Some tx"
  shows "work_left running = stage_work (tx_stage tx) + work_left (running(i := None))"
proof -
  have "work_left (running(i := None)) = (\<Sum>j\<in>dom running - {i}. stage_work (tx_stage (the (running j))))"
    unfolding work_left_def by (intro sum.cong) (auto split: if_splits)
  moreover have "i \<in> dom running" using assms(2) by auto
  ultimately show ?thesis using assms by (simp add: work_left_def sum.remove)
qed

lemma work_left_less:
  assumes "finite (dom running)" "running i = Some tx"
  shows "work_left (running(i := None)) < work_left running"
  using work_left_remove [OF assms] stage_work_bounds(1) [of "tx_stage tx"] by simp

lemma work_left_update:
  assumes "finite (dom running)" "running i = Some tx"
  shows "work_left (running(i \<mapsto> tx')) + stage_work (tx_stage tx) = work_left running + stage_work (tx_stage tx')"
  using work_left_remove [OF assms] work_left_remove [of "running(i \<mapsto> tx')" i tx'] assms(1) by simp

lemma tx_move_works:
  assumes "tx_move lock_key rank maximum st st'" "finite (dom (txs st))"
  shows "work_left (txs st') < work_left (txs st)"
proof -
  from assms(1) have "create_step lock_key rank hash_taken maximum st st'" "dom (txs st') \<subseteq> dom (txs st)" "txs st' \<noteq> txs st"
    by (auto simp: tx_move_def)
  then show ?thesis using assms(2)
  proof (induction rule: create_step.induct)
    case (insert_conflict st i s)
    with work_left_less [OF insert_conflict.prems(3) insert_conflict.hyps(1)] show ?case by (simp del: fun_upd_apply)
  next
    case (abort_tx st i)
    then obtain tx where "txs st i = Some tx" by (cases "txs st i") (auto simp: fun_upd_idem)
    with work_left_less [OF abort_tx.prems(3) this] show ?case by (simp del: fun_upd_apply)
  next
    case (commit_tx st i s hashes)
    with work_left_less [OF commit_tx.prems(3) commit_tx.hyps] show ?case by (simp del: fun_upd_apply)
  next
    case (take_lock st i s)
    with work_left_update [OF take_lock.prems(3) take_lock.hyps(1), of "\<lparr>tx_record = s, tx_stage = Locked\<rparr>"]
    show ?case by (simp del: fun_upd_apply)
  next
    case (write_rows st i s hashes)
    with work_left_update [OF write_rows.prems(3) write_rows.hyps(1), of "\<lparr>tx_record = s, tx_stage = Written hashes\<rparr>"]
    show ?case by (simp del: fun_upd_apply)
  qed auto
qed

lemma tx_moves_bounded:
  "(tx_move lock_key rank maximum ^^ n) st st' \<Longrightarrow> finite (dom (txs st)) \<Longrightarrow> n + work_left (txs st') \<le> work_left (txs st)"
proof (induction n arbitrary: st')
  case (Suc n)
  then obtain mid where mid: "(tx_move lock_key rank maximum ^^ n) st mid" "tx_move lock_key rank maximum mid st'"
    by auto
  have "dom (txs mid) \<subseteq> dom (txs st)"
    using mid(1) by (induction n arbitrary: mid) (auto simp: tx_move_def, blast)
  with Suc.prems(2) have "finite (dom (txs mid))" by (rule rev_finite_subset)
  from tx_move_works [OF mid(2) this] Suc.IH [OF mid(1) Suc.prems(2)] show ?case by simp
qed simp

lemma finite_running:
  "rtranclp (create_step lock_key rank violates maximum) st st' \<Longrightarrow> finite (dom (txs st)) \<Longrightarrow> finite (dom (txs st'))"
proof (induction rule: rtranclp_induct)
  case (step mid st')
  then have "finite (dom (txs mid))" by simp
  with step.hyps(2) show ?case by cases (simp_all del: fun_upd_apply)
qed

text \<open>
  The unique key: token hashes are distinct in the table, and the rows that are inserted but not
  yet committed collide neither with it nor with each other.
\<close>

definition hashes_unique :: "create_state \<Rightarrow> bool" where
  "hashes_unique st \<longleftrightarrow> distinct (map TokenHash (table st)) \<and>
     (\<forall>i s H. txs st i = Some \<lparr>tx_record = s, tx_stage = Written H\<rparr> \<longrightarrow> \<not> hash_taken (table st) s) \<and>
     (\<forall>i j s s' H H'. i \<noteq> j \<and> txs st i = Some \<lparr>tx_record = s, tx_stage = Written H\<rparr> \<and>
        txs st j = Some \<lparr>tx_record = s', tx_stage = Written H'\<rparr> \<longrightarrow> TokenHash s \<noteq> TokenHash s')"

lemma revoke_rows_hashes: "map TokenHash (revoke_rows hashes t rows) = map TokenHash rows"
  by (induction rows) (auto simp: revoke_rows_def)

lemma hash_taken_revoke [simp]: "hash_taken (revoke_rows hashes t rows) s = hash_taken rows s"
  unfolding hash_taken_def by (metis list.set_map revoke_rows_hashes)

lemma session_row_hash [simp]: "TokenHash (session_row s) = TokenHash s"
  by (simp add: session_row_def)

lemma committed_hashes [simp]: "map TokenHash (committed_table s hashes rows) = map TokenHash rows @ [TokenHash s]"
  by (simp add: committed_table_def revoke_rows_hashes)

lemma committed_hash_set: "TokenHash ` set (committed_table s hashes rows) = insert (TokenHash s) (TokenHash ` set rows)"
proof -
  have "set (map TokenHash (committed_table s hashes rows)) = set (map TokenHash rows @ [TokenHash s])"
    by (simp only: committed_hashes)
  then show ?thesis by (simp del: committed_hashes)
qed

lemma hash_taken_committed [simp]:
  "hash_taken (committed_table s hashes rows) s' \<longleftrightarrow> TokenHash s' = TokenHash s \<or> hash_taken rows s'"
proof -
  have "TokenHash ` set (committed_table s hashes rows) = insert (TokenHash s) (TokenHash ` set rows)"
    by (rule committed_hash_set)
  then show ?thesis by (simp add: hash_taken_def)
qed

lemma hash_taken_row [simp]: "hash_taken rows (session_row s) = hash_taken rows s"
  by (simp add: hash_taken_def)

lemma hashes_uniqueD:
  assumes "hashes_unique st"
  shows "distinct (map TokenHash (table st))"
    and "txs st i = Some \<lparr>tx_record = s, tx_stage = Written H\<rparr> \<Longrightarrow> \<not> hash_taken (table st) s"
    and "i \<noteq> j \<Longrightarrow> txs st i = Some \<lparr>tx_record = s, tx_stage = Written H\<rparr> \<Longrightarrow>
      txs st j = Some \<lparr>tx_record = s', tx_stage = Written H'\<rparr> \<Longrightarrow> TokenHash s \<noteq> TokenHash s'"
  using assms unfolding hashes_unique_def by blast+

lemma hashes_unique_step:
  "create_step lock_key rank hash_taken maximum st st' \<Longrightarrow> hashes_unique st \<Longrightarrow> hashes_unique st'"
proof (induction rule: create_step.induct)
  case (write_rows st i s hashes)
  have fresh: "\<not> hash_taken (table st) s" using write_rows.hyps(2) by simp
  have other: "TokenHash s \<noteq> TokenHash s'" if "txs st j = Some \<lparr>tx_record = s', tx_stage = Written H\<rparr>" for j s' H
    using write_rows.hyps(3) [OF that] by (simp add: hash_taken_def)
  note old = hashes_uniqueD [OF write_rows.prems]
  show ?case
    unfolding hashes_unique_def
    using old(1) fresh other by (auto dest: old(2,3) split: if_splits) (metis other)+
next
  case (commit_tx st i s hashes)
  note old = hashes_uniqueD [OF commit_tx.prems]
  have "TokenHash s \<notin> TokenHash ` set (table st)" using old(2) [OF commit_tx.hyps] by (simp add: hash_taken_def)
  moreover have "TokenHash s' \<noteq> TokenHash s" if "txs st j = Some \<lparr>tx_record = s', tx_stage = Written H\<rparr>" "j \<noteq> i" for j s' H
    using old(3) [OF that(2) that(1) commit_tx.hyps] .
  ultimately show ?case
    unfolding hashes_unique_def using old(1) by (auto dest: old(2,3) split: if_splits)
next
  case (revoke_some st hashes t)
  then show ?case unfolding hashes_unique_def by (simp add: revoke_rows_hashes)
qed (auto simp: hashes_unique_def split: if_splits)

lemma hashes_unique_reachable:
  "rtranclp (create_step lock_key rank hash_taken maximum) st st' \<Longrightarrow> hashes_unique st \<Longrightarrow> hashes_unique st'"
  by (induction rule: rtranclp_induct) (auto intro: hashes_unique_step)

text \<open>No transaction in progress waits for ever: while there is one, some transaction can move.\<close>

lemma some_move:
  assumes "txs st \<noteq> Map.empty"
  shows "\<exists>st'. tx_move lock_key rank maximum st st'"
proof -
  have move: "\<exists>st'. tx_move lock_key rank maximum st st'"
    if "create_step lock_key rank hash_taken maximum st st'" "txs st i = Some tx"
      "txs st' = (txs st)(i := x)" "x \<noteq> Some tx" "x = None \<longrightarrow> hash_taken (table st') (tx_record tx)" for st' i tx x
  proof -
    have "txs st' \<noteq> txs st" using that(2-4) by (auto dest!: fun_cong [of _ _ i])
    with that show ?thesis unfolding tx_move_def by (intro exI [of _ st']) (auto split: if_splits)
  qed
  have written: "\<exists>st'. tx_move lock_key rank maximum st st'"
    if "txs st i = Some \<lparr>tx_record = s, tx_stage = Written H\<rparr>" for i s H
    using that by (intro move [OF create_step.commit_tx [OF that] that, where x = None]) simp_all
  consider (w) i s H where "txs st i = Some \<lparr>tx_record = s, tx_stage = Written H\<rparr>"
    | (l) i s where "txs st i = Some \<lparr>tx_record = s, tx_stage = Locked\<rparr>"
        "\<And>j s' H. txs st j \<noteq> Some \<lparr>tx_record = s', tx_stage = Written H\<rparr>"
    | (v) i s where "txs st i = Some \<lparr>tx_record = s, tx_stage = Waiting\<rparr>" "\<And>j tx. txs st j = Some tx \<Longrightarrow> tx_stage tx = Waiting"
  proof -
    obtain i tx where i: "txs st i = Some tx" using assms by (metis ext not_None_eq)
    have shape: "tx = \<lparr>tx_record = tx_record tx, tx_stage = tx_stage tx\<rparr>" for tx :: create_tx by simp
    show thesis
    proof (cases "\<exists>j s H. txs st j = Some \<lparr>tx_record = s, tx_stage = Written H\<rparr>")
      case False
      then show thesis
      proof (cases "\<exists>j s. txs st j = Some \<lparr>tx_record = s, tx_stage = Locked\<rparr>")
        case unlocked: False
        have "tx_stage tx = Waiting" if "txs st j = Some tx" for j tx
          using False unlocked that shape [of tx] by (metis tx_stage.exhaust)
        with i v shape [of tx] show thesis by metis
      qed (use False l in blast)
    qed (use w in blast)
  qed
  then show ?thesis
  proof cases
    case w
    then show ?thesis by (rule written)
  next
    case l
    show ?thesis
    proof (cases "hash_taken (table st) s")
      case True
      then show ?thesis
        by (intro move [OF create_step.insert_conflict [OF l(1)] l(1), where x = None]) simp_all
    next
      case False
      then show ?thesis
        using l(2) by (intro move [OF create_step.write_rows [OF l(1) _ _ refl] l(1)]) auto
    qed
  next
    case v
    then show ?thesis
      by (intro move [OF create_step.take_lock [OF v(1)] v(1)]) (auto dest: v(2))
  qed
qed

text \<open>No token hash gets lost: it stays in a transaction in progress until it is in the table.\<close>

definition known_hashes :: "create_state \<Rightarrow> token_hash set" where
  "known_hashes st = TokenHash ` set (table st) \<union> (\<lambda>tx. TokenHash (tx_record tx)) ` ran (txs st)"

lemma ran_replace:
  assumes "f x = Some y"
  shows "ran f = insert y (ran (f(x := None)))"
proof -
  have "ran ((f(x := None))(x \<mapsto> y)) = insert y (ran (f(x := None)))" by (rule ran_map_upd) simp
  moreover have "(f(x := None))(x \<mapsto> y) = f" using assms by (simp add: fun_upd_idem)
  ultimately show ?thesis by metis
qed

lemma known_hashes_ended:
  assumes "txs st i = Some tx" "hash_taken rows (tx_record tx)"
    "TokenHash ` set rows \<subseteq> insert (TokenHash (tx_record tx)) (TokenHash ` set (table st))"
    "TokenHash ` set (table st) \<subseteq> TokenHash ` set rows"
  shows "known_hashes (st\<lparr>table := rows, txs := (txs st)(i := None)\<rparr>) = known_hashes st"
  using assms(2-4) unfolding known_hashes_def hash_taken_def ran_replace [where f = "txs st", OF assms(1)] by auto

lemma known_hashes_moved:
  "txs st i = Some tx \<Longrightarrow> tx_record tx' = tx_record tx \<Longrightarrow>
   known_hashes (st\<lparr>txs := (txs st)(i \<mapsto> tx')\<rparr>) = known_hashes st"
  using ran_replace [of "txs st" i tx] ran_replace [of "(txs st)(i \<mapsto> tx')" i tx'] by (simp add: known_hashes_def)

lemma tx_move_keeps:
  assumes "tx_move lock_key rank maximum st st'"
  shows "known_hashes st' = known_hashes st"
proof -
  from assms have step: "create_step lock_key rank hash_taken maximum st st'" and change: "dom (txs st') \<subseteq> dom (txs st)" "txs st' \<noteq> txs st"
    and ended: "\<And>i tx. txs st i = Some tx \<Longrightarrow> txs st' i = None \<Longrightarrow> hash_taken (table st') (tx_record tx)"
    by (auto simp: tx_move_def)
  from step change ended show ?thesis
  proof (induction rule: create_step.induct)
    case (insert_conflict st i s)
    with known_hashes_ended [OF insert_conflict.hyps(1), of "table st"] show ?case by auto
  next
    case (abort_tx st i)
    then obtain tx where tx: "txs st i = Some tx" by (cases "txs st i") (auto simp: fun_upd_idem)
    with abort_tx.prems(3) [OF tx] known_hashes_ended [OF tx, of "table st"] show ?case by auto
  next
    case (commit_tx st i s hashes)
    from known_hashes_ended [OF commit_tx.hyps, of "committed_table s hashes (table st)"] show ?case
      by (auto simp: committed_hash_set)
  next
    case (take_lock st i s)
    with known_hashes_moved [OF take_lock.hyps(1), of "\<lparr>tx_record = s, tx_stage = Locked\<rparr>"] show ?case by simp
  next
    case (write_rows st i s hashes)
    with known_hashes_moved [OF write_rows.hyps(1), of "\<lparr>tx_record = s, tx_stage = Written hashes\<rparr>"] show ?case by simp
  qed auto
qed

lemma tx_moves_keep:
  "(tx_move lock_key rank maximum ^^ n) st st' \<Longrightarrow>
   known_hashes st' = known_hashes st \<and> rtranclp (create_step lock_key rank hash_taken maximum) st st'"
proof (induction n arbitrary: st')
  case (Suc n)
  then obtain mid where mid: "(tx_move lock_key rank maximum ^^ n) st mid" "tx_move lock_key rank maximum mid st'"
    by auto
  from mid(2) have "create_step lock_key rank hash_taken maximum mid st'" by (simp add: tx_move_def)
  with Suc.IH [OF mid(1)] tx_move_keeps [OF mid(2)] show ?case by (auto intro: rtranclp.rtrancl_into_rtrancl)
qed simp

text \<open>
  C12. The advisory lock makes the cap hold under every interleaving of concurrent creations,
  commits, aborts and revocations: in every reachable state each subject has at most the maximum
  of active sessions at every time from its latest creation on.
\<close>

theorem concurrent_creation_keeps_the_cap:
  assumes "rtranclp (create_step lock_key rank violates maximum) \<lparr>table = rows, txs = Map.empty\<rparr> st"
    and "0 \<le> maximum" "capped maximum rows"
    and "\<forall>r\<in>set (table st). SubjectID r = subject \<longrightarrow> CreatedAt r \<le> t"
  shows "active_count subject t (table st) \<le> maximum"
proof -
  have "create_inv lock_key maximum \<lparr>table = rows, txs = Map.empty\<rparr>"
    using assms(3) by (simp add: create_inv_def exclusive_def prepared_def)
  from create_inv_reachable [OF assms(1,2) this] assms(4) show ?thesis
    by (auto simp: create_inv_def capped_def)
qed

lemma sample_capped: "capped 2 sample_rows"
  by (auto simp: capped_def active_count_def active_at_def sample_rows_def sample_session_def)

theorem concurrent_creation_keeps_the_cap_witness: "active_count ''a'' 30000 (fst sample_result) \<le> 2"
proof -
  have run: "Create sample_store No_fault (sample_rows, sample_cached) (sample_session 4 ''a'' 30) =
      ((fst sample_result, snd sample_result), None)"
    by (simp add: sample_create)
  have "\<forall>r\<in>set (fst sample_result). SubjectID r = ''a'' \<longrightarrow> CreatedAt r \<le> 30000"
    by (simp add: sample_result_def sample_session_def)
  with concurrent_creation_keeps_the_cap [OF create_runs [OF run, of "\<lambda>x. 0"], of "''a''" 30000] sample_capped
  show ?thesis by (simp add: sample_store_def)
qed

text \<open>
  \<open>Create\<close> is one transaction of that relation: a successful call is the sequence begin, lock,
  write and commit.
\<close>
theorem create_is_a_transaction:
  assumes "Create store fault (rows, c) s = ((rows', c'), None)"
  shows "rtranclp (create_step lock_key (id_rank store) (violates_unique store) (maximumActiveSessions store))
    \<lparr>table = rows, txs = Map.empty\<rparr> \<lparr>table = rows', txs = Map.empty\<rparr>"
  using assms by (rule create_runs)

theorem create_is_a_transaction_witness:
  "rtranclp (create_step (\<lambda>x. 0) (id_rank sample_store) (violates_unique sample_store) (maximumActiveSessions sample_store))
    \<lparr>table = sample_rows, txs = Map.empty\<rparr> \<lparr>table = fst sample_result, txs = Map.empty\<rparr>"
proof (rule create_is_a_transaction)
  show "Create sample_store No_fault (sample_rows, sample_cached) (sample_session 4 ''a'' 30) =
      ((fst sample_result, snd sample_result), None)"
    by (simp add: sample_create)
qed



text \<open>
  Two transactions of the same session: one has inserted its row, the other waits for the lock.
  Three moves later the row is there once and both have ended.
\<close>

definition sample_tx :: "tx_stage \<Rightarrow> create_tx" where
  "sample_tx stage = \<lparr>tx_record = sample_session 4 ''a'' 30, tx_stage = stage\<rparr>"

definition sample_twins :: "session_record list \<Rightarrow> tx_stage option \<Rightarrow> tx_stage option \<Rightarrow> create_state" where
  "sample_twins rows one two =
     \<lparr>table = rows, txs = Map.empty(0 := map_option sample_tx one, 1 := map_option sample_tx two)\<rparr>"

lemma sample_twins_update [simp]:
  "(sample_twins rows one two)\<lparr>txs := (txs (sample_twins rows one two))(0 := Some (sample_tx x))\<rparr> = sample_twins rows (Some x) two"
  "(sample_twins rows one two)\<lparr>txs := (txs (sample_twins rows one two))(Suc 0 := Some (sample_tx x))\<rparr> = sample_twins rows one (Some x)"
  "(sample_twins rows one two)\<lparr>txs := (txs (sample_twins rows one two))(Suc 0 := None)\<rparr> = sample_twins rows one None"
  "(sample_twins rows one two)\<lparr>table := rows', txs := (txs (sample_twins rows one two))(0 := None)\<rparr> = sample_twins rows' None two"
  by (auto simp: sample_twins_def fun_upd_twist)

lemma sample_twins_fields [simp]:
  "table (sample_twins rows one two) = rows"
  "txs (sample_twins rows one two) 0 = map_option sample_tx one"
  "txs (sample_twins rows one two) (Suc 0) = map_option sample_tx two"
  "txs (sample_twins rows one two) i = Some tx \<longleftrightarrow>
    i = 0 \<and> map_option sample_tx one = Some tx \<or> i = Suc 0 \<and> map_option sample_tx two = Some tx"
  by (auto simp: sample_twins_def)

abbreviation sample_step :: "create_state \<Rightarrow> create_state \<Rightarrow> bool" where
  "sample_step \<equiv> create_step (\<lambda>x. 0) (\<lambda>i. 0) hash_taken 2"

lemma sample_steps:
  defines "row \<equiv> session_row (sample_session 4 ''a'' 30)"
  shows "sample_step (sample_twins [] None None) (sample_twins [] (Some Waiting) None)"
    and "sample_step (sample_twins [] (Some Waiting) None) (sample_twins [] (Some Locked) None)"
    and "sample_step (sample_twins [] (Some Locked) None) (sample_twins [] (Some (Written {})) None)"
    and "sample_step (sample_twins [] (Some (Written {})) None) (sample_twins [] (Some (Written {})) (Some Waiting))"
    and "sample_step (sample_twins [] (Some (Written {})) (Some Waiting)) (sample_twins [row] None (Some Waiting))"
    and "sample_step (sample_twins [row] None (Some Waiting)) (sample_twins [row] None (Some Locked))"
    and "sample_step (sample_twins [row] None (Some Locked)) (sample_twins [row] None None)"
proof -
  let ?s = "sample_session 4 ''a'' 30"
  note tx = sample_tx_def [symmetric]
  have revoked: "oldest_beyond (\<lambda>i. 0) 2 (SubjectID ?s) (pg_timestamp (CreatedAt ?s)) [session_row ?s] = []" by code_simp
  show "sample_step (sample_twins [] None None) (sample_twins [] (Some Waiting) None)"
    using create_step.begin_tx [of "sample_twins [] None None" 0 _ _ _ _ ?s] by (simp add: tx)
  show "sample_step (sample_twins [] (Some Waiting) None) (sample_twins [] (Some Locked) None)"
    using create_step.take_lock [of "sample_twins [] (Some Waiting) None" 0 ?s] by (auto simp: tx) (auto simp: sample_tx_def)
  show "sample_step (sample_twins [] (Some Locked) None) (sample_twins [] (Some (Written {})) None)"
    using create_step.write_rows [of "sample_twins [] (Some Locked) None" 0 ?s hash_taken "{}" "\<lambda>i. 0" 2 "\<lambda>x. 0"] revoked
    by (simp add: tx hash_taken_def) (simp add: sample_tx_def)
  show "sample_step (sample_twins [] (Some (Written {})) None) (sample_twins [] (Some (Written {})) (Some Waiting))"
    using create_step.begin_tx [of "sample_twins [] (Some (Written {})) None" 1 _ _ _ _ ?s] by (simp add: tx)
  show "sample_step (sample_twins [] (Some (Written {})) (Some Waiting)) (sample_twins [row] None (Some Waiting))"
    using create_step.commit_tx [of "sample_twins [] (Some (Written {})) (Some Waiting)" 0 ?s "{}"]
    by (simp add: tx committed_table_def revoke_rows_def row_def)
  show "sample_step (sample_twins [row] None (Some Waiting)) (sample_twins [row] None (Some Locked))"
    using create_step.take_lock [of "sample_twins [row] None (Some Waiting)" 1 ?s] by (auto simp: tx) (auto simp: sample_tx_def)
  show "sample_step (sample_twins [row] None (Some Locked)) (sample_twins [row] None None)"
    using create_step.insert_conflict [of "sample_twins [row] None (Some Locked)" 1 ?s hash_taken]
    by (simp add: tx hash_taken_def row_def)
qed


end
