(* ===== verification/Go_Numbers.thy ===== *)
theory Go_Numbers
  imports Go_Strings
begin

text \<open>
  \<open>strconv.Itoa\<close> and \<open>strconv.Atoi\<close> for Go's 64-bit \<open>int\<close>: decimal digits with an
  optional sign; a text that is no number, or no \<open>int\<close>, is an error. The lemmas show that
  \<open>Atoi\<close> inverts \<open>Itoa\<close> and which characters \<open>Itoa\<close> writes.
\<close>

section \<open>Writing numbers\<close>

definition digit_char :: "nat \<Rightarrow> char" where
  "digit_char d = char_of (48 + d)"

fun decimal :: "nat \<Rightarrow> string" where
  "decimal n = (if n < 10 then [digit_char n] else decimal (n div 10) @ [digit_char (n mod 10)])"

declare decimal.simps [simp del]

definition Itoa :: "int \<Rightarrow> string" where
  "Itoa i = (if i < 0 then CHR ''-'' # decimal (nat (- i)) else decimal (nat i))"

section \<open>Reading numbers\<close>

definition digit_value :: "char \<Rightarrow> nat option" where
  "digit_value c = (let n = of_char c in if 48 \<le> n \<and> n \<le> (57 :: nat) then Some (n - 48) else None)"

fun read_digits :: "nat \<Rightarrow> string \<Rightarrow> nat option" where
  "read_digits acc [] = Some acc"
| "read_digits acc (c # cs) =
     (case digit_value c of None \<Rightarrow> None | Some d \<Rightarrow> read_digits (acc * 10 + d) cs)"

definition read_nat :: "string \<Rightarrow> nat option" where
  "read_nat s = (if s = [] then None else read_digits 0 s)"

definition Atoi :: "string \<Rightarrow> int result" where
  "Atoi s =
     (let (negative, digits) =
        (case s of c # cs \<Rightarrow> if c = CHR ''-'' then (True, cs) else if c = CHR ''+'' then (False, cs) else (False, s)
         | [] \<Rightarrow> (False, s))
      in case read_nat digits of
           None \<Rightarrow> Inl (Errorf ''strconv.Atoi: invalid syntax'')
         | Some n \<Rightarrow>
             (let v = (if negative then - int n else int n)
              in if in_int64 v then Inr v else Inl (Errorf ''strconv.Atoi: value out of range'')))"

section \<open>Reading what was written\<close>

lemma digit_value_char [simp]: "d < 10 \<Longrightarrow> digit_value (digit_char d) = Some d"
  by (simp add: digit_value_def digit_char_def)

lemma digit_char_sign: "d < 10 \<Longrightarrow> digit_char d \<noteq> CHR ''-'' \<and> digit_char d \<noteq> CHR ''+''"
proof -
  assume "d < 10"
  then have "of_char (digit_char d) = 48 + d" by (simp add: digit_char_def)
  moreover have "of_char (CHR ''-'') = (45 :: nat)" "of_char (CHR ''+'') = (43 :: nat)" by simp_all
  ultimately show ?thesis by force
qed

lemma decimal_digits: "set (decimal n) \<subseteq> digit_char ` {..<10}"
proof (induction n rule: decimal.induct)
  case (1 n)
  then show ?case by (subst decimal.simps) auto
qed

lemma decimal_nonempty [simp]: "decimal n \<noteq> []"
  by (subst decimal.simps) simp

lemma read_digits_append:
  "read_digits acc (s @ t) = (case read_digits acc s of None \<Rightarrow> None | Some m \<Rightarrow> read_digits m t)"
  by (induction s arbitrary: acc) (simp_all split: option.splits)

lemma read_digits_decimal: "read_digits 0 (decimal n) = Some n"
proof (induction n rule: decimal.induct)
  case (1 n)
  show ?case
  proof (cases "n < 10")
    case True
    then show ?thesis by (subst decimal.simps) simp
  next
    case False
    with 1 show ?thesis by (subst decimal.simps) (simp add: read_digits_append)
  qed
qed

lemma decimal_head: "\<exists>d cs. decimal n = digit_char d # cs \<and> d < 10"
proof -
  obtain c cs where "decimal n = c # cs" by (cases "decimal n") simp_all
  moreover from this have "c \<in> digit_char ` {..<10}" using decimal_digits [of n] by auto
  ultimately show ?thesis by auto
qed

lemma Atoi_positive:
  assumes "c \<noteq> CHR ''-''" "c \<noteq> CHR ''+''" "read_digits 0 (c # cs) = Some n" "in_int64 (int n)"
  shows "Atoi (c # cs) = Inr (int n)"
proof -
  have "read_nat (c # cs) = Some n" using assms(3) by (simp only: read_nat_def list.distinct if_False)
  with assms show ?thesis by (simp only: Atoi_def list.case if_False Let_def prod.case option.case if_True)
qed

lemma Atoi_Itoa: "in_int64 i \<Longrightarrow> Atoi (Itoa i) = Inr i"
proof (cases "i < 0")
  case True
  assume "in_int64 i"
  with True show ?thesis by (simp add: Atoi_def Itoa_def read_nat_def read_digits_decimal)
next
  case False
  assume int: "in_int64 i"
  obtain d cs where digits: "decimal (nat i) = digit_char d # cs" "d < 10" using decimal_head by blast
  have "read_digits 0 (digit_char d # cs) = Some (nat i)" using read_digits_decimal [of "nat i"] unfolding digits(1) .
  then have "Atoi (digit_char d # cs) = Inr (int (nat i))"
    using Atoi_positive digit_char_sign [OF digits(2)] int False by (metis not_less nat_0_le)
  moreover have "Itoa i = digit_char d # cs" using False by (simp only: Itoa_def digits(1) if_False)
  ultimately show ?thesis using False by (metis not_less nat_0_le)
qed

lemma Itoa_inj: "Itoa i = Itoa j \<Longrightarrow> in_int64 i \<Longrightarrow> in_int64 j \<Longrightarrow> i = j"
  by (metis Atoi_Itoa sum.inject(2))

lemma decimal_length: "n < 10 ^ k \<Longrightarrow> 0 < k \<Longrightarrow> length (decimal n) \<le> k"
proof (induction n arbitrary: k rule: decimal.induct)
  case (1 n)
  show ?case
  proof (cases "n < 10")
    case True
    with 1(3) show ?thesis by (subst decimal.simps) simp
  next
    case False
    then obtain j where k: "k = Suc j" "0 < j" using 1(2) by (cases k; cases "k - 1") auto
    then have "n div 10 < 10 ^ j" using 1(2) by (simp add: less_mult_imp_div_less mult.commute)
    with 1(1) [OF False, of j] k show ?thesis using False by (subst decimal.simps) simp
  qed
qed

lemma Itoa_nonneg: "0 \<le> i \<Longrightarrow> Itoa i = decimal (nat i)"
  by (simp add: Itoa_def)

end
