(* ===== verification/Go_JSON.thy ===== *)
theory Go_JSON
  imports Go_Numbers
begin

text \<open>
  The bytes \<open>encoding/json\<close> writes for a body, and a reader of them. \<open>Marshal\<close> and \<open>MarshalIndent\<close>
  share one printer, which differs in the white space it puts between tokens. The reader is a plain
  JSON parser (RFC 8259, without fractions and exponents, which no body has). The lemmas show that
  the reader recovers what was written.
\<close>

section \<open>Values\<close>

text \<open>
  A value is the tree \<open>encoding/json\<close> writes. Only an instant whose year does not fit
  four digits cannot be encoded.
\<close>

datatype json =
    JNull
  | JBool bool
  | JInt int
  | JString string
  | JTime instant
  | JArray "json list"
  | JObject "(string \<times> json) list"

definition encodable_time :: "instant \<Rightarrow> bool" where
  "encodable_time t \<longleftrightarrow> - 62167219200 * second \<le> t \<and> t < 253402300800 * second"

fun encodable :: "json \<Rightarrow> bool" where
  "encodable (JTime t) = encodable_time t"
| "encodable (JArray xs) = list_all encodable xs"
| "encodable (JObject fields) = list_all (\<lambda>(k, v). encodable v) fields"
| "encodable _ = True"

section \<open>Strings\<close>

text \<open>
  A string is written rune by rune: quotation marks, backslashes, control characters, the
  characters HTML gives a meaning, the line separators U+2028 and U+2029 and bytes that are no UTF-8
  as escapes, everything else as it is.
\<close>

definition quote_char :: char where "quote_char = CHR 0x22"
definition backslash :: char where "backslash = CHR 0x5C"

definition hex4 :: "nat \<Rightarrow> string" where
  "hex4 r = [backslash, CHR ''u'', hex_digit (r div 4096 mod 16), hex_digit (r div 256 mod 16),
     hex_digit (r div 16 mod 16), hex_digit (r mod 16)]"

definition quoted_rune :: "nat \<Rightarrow> string \<Rightarrow> string" where
  "quoted_rune r bytes =
     (if r = 0x22 \<or> r = 0x5C then backslash # bytes
      else if r = 0x08 then [backslash, CHR ''b'']
      else if r = 0x0C then [backslash, CHR ''f'']
      else if r = 0x0A then [backslash, CHR ''n'']
      else if r = 0x0D then [backslash, CHR ''r'']
      else if r = 0x09 then [backslash, CHR ''t'']
      else if r < 0x20 \<or> r = 0x3C \<or> r = 0x3E \<or> r = 0x26 then hex4 r
      else if r = rune_error \<and> length bytes = 1 then hex4 rune_error
      else if r = 0x2028 \<or> r = 0x2029 then hex4 r
      else bytes)"

lemma decode_rune_string: "s \<noteq> [] \<Longrightarrow> 0 < snd (decode_rune (map of_char s))"
  by (rule decode_rune_width) simp

function json_text :: "string \<Rightarrow> string" where
  "json_text s =
     (if s = [] then []
      else (let rune = decode_rune (map of_char s)
            in quoted_rune (fst rune) (take (snd rune) s) @ json_text (drop (snd rune) s)))"
  by pat_completeness auto
termination
  by (relation "measure length") (auto simp: decode_rune_string)

declare json_text.simps [simp del]

definition json_quoted :: "string \<Rightarrow> string" where
  "json_quoted s = quote_char # json_text s @ [quote_char]"

text \<open>What a reader gets: the string with every byte that is no UTF-8 replaced by U+FFFD.\<close>

definition replacement :: string where
  "replacement = [CHR 0xEF, CHR 0xBF, CHR 0xBD]"

function valid_text :: "string \<Rightarrow> string" where
  "valid_text s =
     (if s = [] then []
      else (let rune = decode_rune (map of_char s)
            in (if fst rune = rune_error \<and> snd rune = 1 then replacement else take (snd rune) s) @
               valid_text (drop (snd rune) s)))"
  by pat_completeness auto
termination
  by (relation "measure length") (auto simp: decode_rune_string)

declare valid_text.simps [simp del]

section \<open>Reading strings\<close>

definition hex_value :: "char \<Rightarrow> nat option" where
  "hex_value c =
     (let n = of_char c
      in if 48 \<le> n \<and> n \<le> 57 then Some (n - 48)
         else if 97 \<le> n \<and> n \<le> 102 then Some (n - 87)
         else if 65 \<le> n \<and> n \<le> 70 then Some (n - 55)
         else None)"

definition read_hex4 :: "char \<Rightarrow> char \<Rightarrow> char \<Rightarrow> char \<Rightarrow> nat option" where
  "read_hex4 a b c d =
     (case (hex_value a, hex_value b, hex_value c, hex_value d) of
        (Some w, Some x, Some y, Some z) \<Rightarrow> Some (w * 4096 + x * 256 + y * 16 + z)
      | _ \<Rightarrow> None)"

definition encode_rune :: "nat \<Rightarrow> string" where
  "encode_rune r =
     (if r < 0x80 then [char_of r]
      else if r < 0x800 then [char_of (0xC0 + r div 64), char_of (0x80 + r mod 64)]
      else [char_of (0xE0 + r div 4096), char_of (0x80 + r div 64 mod 64), char_of (0x80 + r mod 64)])"

definition simple_escape :: "char \<Rightarrow> char option" where
  "simple_escape c =
     (if c = quote_char \<or> c = backslash \<or> c = CHR ''/'' then Some c
      else if c = CHR ''b'' then Some (CHR 0x08)
      else if c = CHR ''f'' then Some (CHR 0x0C)
      else if c = CHR ''n'' then Some (CHR 0x0A)
      else if c = CHR ''r'' then Some (CHR 0x0D)
      else if c = CHR ''t'' then Some (CHR 0x09)
      else None)"

definition prepend :: "string \<Rightarrow> (string \<times> string) option \<Rightarrow> (string \<times> string) option" where
  "prepend t = map_option (\<lambda>(s, rest). (t @ s, rest))"

text \<open>Up to the closing quotation mark; surrogates are not combined, as none are written.\<close>

fun read_string :: "string \<Rightarrow> (string \<times> string) option" where
  "read_string [] = None"
| "read_string (c # cs) =
     (if c = quote_char then Some ([], cs)
      else if c = backslash then
        (case cs of
           [] \<Rightarrow> None
         | e # ds \<Rightarrow>
             if e = CHR ''u'' then
               (case ds of
                  w # x # y # z # es \<Rightarrow>
                    (case read_hex4 w x y z of None \<Rightarrow> None | Some r \<Rightarrow> prepend (encode_rune r) (read_string es))
                | _ \<Rightarrow> None)
             else (case simple_escape e of None \<Rightarrow> None | Some d \<Rightarrow> prepend [d] (read_string ds)))
      else if (of_char c :: nat) < 0x20 then None
      else prepend [c] (read_string cs))"

definition reads_as :: "string \<Rightarrow> string \<Rightarrow> bool" where
  "reads_as piece t \<longleftrightarrow> (\<forall>more. read_string (piece @ more) = prepend t (read_string more))"

lemma prepend_Nil [simp]: "prepend [] r = r"
  by (cases r) (auto simp: prepend_def)

lemma prepend_prepend: "prepend s (prepend t r) = prepend (s @ t) r"
  by (cases r) (auto simp: prepend_def)

lemma reads_literal: "c \<noteq> quote_char \<Longrightarrow> c \<noteq> backslash \<Longrightarrow> 0x20 \<le> (of_char c :: nat) \<Longrightarrow> reads_as [c] [c]"
  by (simp add: reads_as_def)

lemma reads_append: "reads_as p s \<Longrightarrow> reads_as q t \<Longrightarrow> reads_as (p @ q) (s @ t)"
  by (simp add: reads_as_def prepend_prepend)

lemma reads_escape: "e \<noteq> CHR ''u'' \<Longrightarrow> simple_escape e = Some d \<Longrightarrow> reads_as [backslash, e] [d]"
  by (simp add: reads_as_def backslash_def quote_char_def)

lemma reads_bytes: "\<forall>c\<in>set bytes. 0x80 \<le> (of_char c :: nat) \<Longrightarrow> reads_as bytes bytes"
proof (induction bytes)
  case (Cons c bytes)
  then have "c \<noteq> quote_char" "c \<noteq> backslash" "0x20 \<le> (of_char c :: nat)"
    by (auto simp: quote_char_def backslash_def)
  from reads_append [OF reads_literal [OF this] Cons.IH] Cons.prems show ?case by simp
qed (simp add: reads_as_def)

lemma hex_value_digit: "n < 16 \<Longrightarrow> hex_value (hex_digit n) = Some n"
proof -
  assume "n < 16"
  then have "n \<in> set [0..<16]" by simp
  moreover have "\<forall>n\<in>set [0..<16]. hex_value (hex_digit n) = Some n" by code_simp
  ultimately show ?thesis by blast
qed

lemma reads_hex4:
  assumes "r < 65536"
  shows "reads_as (hex4 r) (encode_rune r)"
proof -
  have "r = r div 4096 mod 16 * 4096 + r div 256 mod 16 * 256 + r div 16 mod 16 * 16 + r mod 16"
  proof -
    have "r div 4096 mod 16 = r div 4096" using assms by simp
    moreover have "r = r div 16 * 16 + r mod 16" "r div 16 = r div 16 div 16 * 16 + r div 16 mod 16"
      "r div 256 = r div 256 div 16 * 16 + r div 256 mod 16" by presburger+
    moreover have "r div 16 div 16 = r div 256" "r div 256 div 16 = r div 4096"
      by (simp_all add: div_mult2_eq [symmetric])
    ultimately show ?thesis by linarith
  qed
  moreover have "read_hex4 (hex_digit a) (hex_digit b) (hex_digit c) (hex_digit d) = Some (a * 4096 + b * 256 + c * 16 + d)"
    if "a < 16" "b < 16" "c < 16" "d < 16" for a b c d
    using that by (simp add: read_hex4_def hex_value_digit)
  from this [of "r div 4096 mod 16" "r div 256 mod 16" "r div 16 mod 16" "r mod 16"]
  have "read_hex4 (hex_digit (r div 4096 mod 16)) (hex_digit (r div 256 mod 16)) (hex_digit (r div 16 mod 16))
      (hex_digit (r mod 16)) = Some (r div 4096 mod 16 * 4096 + r div 256 mod 16 * 256 + r div 16 mod 16 * 16 + r mod 16)"
    by (simp only: mod_less_divisor)
  ultimately have "read_hex4 (hex_digit (r div 4096 mod 16)) (hex_digit (r div 256 mod 16)) (hex_digit (r div 16 mod 16))
      (hex_digit (r mod 16)) = Some r"
    by (simp only:)
  then show ?thesis by (simp add: reads_as_def hex4_def backslash_def quote_char_def)
qed

text \<open>The width and the bytes of a rune that is not ASCII.\<close>

lemma second_ok_cont: "second_ok b0 b1 \<Longrightarrow> 0x80 \<le> b1 \<and> b1 \<le> 0xBF"
  by (auto simp: second_ok_def cont_def split: if_splits)

lemma decode_rune_cases:
  assumes "decode_rune bs = (r, n)" "bs \<noteq> []" "0x80 \<le> r"
  obtains (invalid) "n = 1" "r = rune_error" "0x80 \<le> hd bs"
  | (two) b0 b1 rest where "bs = b0 # b1 # rest" "0xC2 \<le> b0" "b0 \<le> 0xDF" "second_ok b0 b1" "n = 2"
      "r = (b0 - 0xC0) * 64 + (b1 - 0x80)"
  | (three) b0 b1 b2 rest where "bs = b0 # b1 # b2 # rest" "0xE0 \<le> b0" "b0 \<le> 0xEF" "second_ok b0 b1" "cont b2" "n = 3"
      "r = (b0 - 0xE0) * 4096 + (b1 - 0x80) * 64 + (b2 - 0x80)"
  | (four) b0 b1 b2 b3 rest where "bs = b0 # b1 # b2 # b3 # rest" "0xF0 \<le> b0" "b0 \<le> 0xF4" "second_ok b0 b1" "cont b2" "cont b3"
      "n = 4" "r = (b0 - 0xF0) * 262144 + (b1 - 0x80) * 4096 + (b2 - 0x80) * 64 + (b3 - 0x80)"
proof -
  obtain b0 bs1 where bs: "bs = b0 # bs1" using assms(2) by (cases bs) auto
  have b0: "\<not> b0 < 0x80" using assms(1,3) by (auto simp: bs decode_rune_def)
  note run = assms(1) [unfolded bs decode_rune_def list.case if_not_P [OF b0]]
  consider "0xC2 \<le> b0" "b0 \<le> 0xDF" | "0xE0 \<le> b0" "b0 \<le> 0xEF" | "0xF0 \<le> b0" "b0 \<le> 0xF4"
    | "\<not> (0xC2 \<le> b0 \<and> b0 \<le> 0xDF)" "\<not> (0xE0 \<le> b0 \<and> b0 \<le> 0xEF)" "\<not> (0xF0 \<le> b0 \<and> b0 \<le> 0xF4)"
    by blast
  then show thesis
  proof cases
    case 1
    with run b0 two [of b0 "hd bs1" "tl bs1"] invalid show thesis by (auto simp: bs split: list.splits if_splits)
  next
    case 2
    with run b0 three [of b0 "hd bs1" "hd (tl bs1)" "tl (tl bs1)"] invalid show thesis
      by (auto simp: bs split: list.splits if_splits)
  next
    case 3
    with run b0 four [of b0 "hd bs1" "hd (tl bs1)" "hd (tl (tl bs1))" "tl (tl (tl bs1))"] invalid show thesis
      by (auto simp: bs split: list.splits if_splits)
  next
    case 4
    with run b0 invalid show thesis by (simp add: bs)
  qed
qed

lemma decode_rune_wide:
  assumes "decode_rune bs = (r, n)" "bs \<noteq> []" "0x80 \<le> r"
  shows "\<forall>b\<in>set (take n bs). 0x80 \<le> b" "r = 0x2028 \<Longrightarrow> take n bs = [0xE2, 0x80, 0xA8]"
    "r = 0x2029 \<Longrightarrow> take n bs = [0xE2, 0x80, 0xA9]" "n \<le> length bs"
proof -
  have "(\<forall>b\<in>set (take n bs). 0x80 \<le> b) \<and> (r = 0x2028 \<longrightarrow> take n bs = [0xE2, 0x80, 0xA8]) \<and>
      (r = 0x2029 \<longrightarrow> take n bs = [0xE2, 0x80, 0xA9]) \<and> n \<le> length bs"
    using assms
  proof (cases rule: decode_rune_cases)
    case invalid
    then show ?thesis using assms(2) by (cases bs) (auto simp: rune_error_def)
  next
    case (two b0 b1 rest)
    have "(b0 - 0xC0) * 64 \<le> 31 * 64" using two(3) by (intro mult_le_mono1) simp
    with two(6) second_ok_cont [OF two(4)] have "r \<le> 2047" by linarith
    with two second_ok_cont [OF two(4)] show ?thesis by simp
  next
    case (three b0 b1 b2 rest)
    define x y z where "x = b0 - 0xE0" and "y = b1 - 0x80" and "z = b2 - 0x80"
    then have xyz: "b0 = 0xE0 + x" "b1 = 0x80 + y" "b2 = 0x80 + z" "y \<le> 63" "z \<le> 63"
      using three(2,5) second_ok_cont [OF three(4)] unfolding cont_def by linarith+
    have r: "r = x * 4096 + y * 64 + z" using three(7) xyz by simp
    have digits: "x = 2 \<and> y = 0 \<and> z = d" if "x * 4096 + y * 64 + z = 0x2000 + d" "d < 64" for d
    proof -
      have "x < 3" "1 < x" using that xyz(4,5) by linarith+
      then have "x = 2" by simp
      moreover from this have "y < 1" using that by linarith
      ultimately show ?thesis using that(1) by simp
    qed
    have sums: "x * 4096 + y * 64 + z = 0x2000 + 0x28" if "r = 0x2028" using r that by linarith
    have sums': "x * 4096 + y * 64 + z = 0x2000 + 0x29" if "r = 0x2029" using r that by linarith
    have "x = 2 \<and> y = 0 \<and> z = 0x28" if "r = 0x2028" by (rule digits [OF sums [OF that]]) simp
    moreover have "x = 2 \<and> y = 0 \<and> z = 0x29" if "r = 0x2029" by (rule digits [OF sums' [OF that]]) simp
    moreover have "take n bs = [b0, b1, b2]" "n \<le> length bs" using three(1,6) by simp_all
    ultimately show ?thesis using xyz(1-3) by auto
  next
    case (four b0 b1 b2 b3 rest)
    have "0x10000 \<le> r"
    proof (cases "b0 = 0xF0")
      case True
      with four(4) have "0x90 \<le> b1" by (simp add: second_ok_def)
      then show ?thesis using four(8) by simp
    next
      case False
      with four(2,8) show ?thesis by simp
    qed
    with four second_ok_cont [OF four(4)] show ?thesis by (auto simp: cont_def)
  qed
  then show "\<forall>b\<in>set (take n bs). 0x80 \<le> b" "r = 0x2028 \<Longrightarrow> take n bs = [0xE2, 0x80, 0xA8]"
    "r = 0x2029 \<Longrightarrow> take n bs = [0xE2, 0x80, 0xA9]" "n \<le> length bs" by auto
qed

lemma reads_ascii:
  assumes "(of_char c :: nat) = r" "r < 0x80"
  shows "reads_as (quoted_rune r [c]) [c]"
proof -
  have c: "c = char_of r" using assms(1) by auto
  have special: "char_of (0x22 :: nat) = quote_char" "char_of (0x5C :: nat) = backslash" "char_of (0x08 :: nat) = CHR 0x08"
    "char_of (0x0C :: nat) = CHR 0x0C" "char_of (0x0A :: nat) = CHR 0x0A" "char_of (0x0D :: nat) = CHR 0x0D"
    "char_of (0x09 :: nat) = CHR 0x09"
    by (simp_all add: quote_char_def backslash_def char_of_eq_iff)
  have escapes: "reads_as [backslash, CHR ''b''] [CHR 0x08]" "reads_as [backslash, CHR ''f''] [CHR 0x0C]"
    "reads_as [backslash, CHR ''n''] [CHR 0x0A]" "reads_as [backslash, CHR ''r''] [CHR 0x0D]"
    "reads_as [backslash, CHR ''t''] [CHR 0x09]" "reads_as [backslash, quote_char] [quote_char]"
    "reads_as [backslash, backslash] [backslash]"
    by (rule reads_escape; simp add: simple_escape_def quote_char_def backslash_def)+
  have hex: "reads_as (hex4 r) [c]" using reads_hex4 [of r] assms(2) by (simp add: encode_rune_def c)
  have literal: "reads_as [c] [c]" if "r \<noteq> 0x22" "r \<noteq> 0x5C" "0x20 \<le> r"
    using that assms(1) by (intro reads_literal) (auto simp: quote_char_def backslash_def)
  have "r \<noteq> rune_error" using assms(2) by (simp add: rune_error_def)
  then show ?thesis
    unfolding quoted_rune_def using escapes hex literal assms(2) by (auto simp: c special)
qed

lemma reads_rune:
  assumes "s \<noteq> []" "decode_rune (map of_char s) = (r, n)"
  shows "reads_as (quoted_rune r (take n s)) (if r = rune_error \<and> n = 1 then replacement else take n s)"
proof (cases "r < 0x80")
  case True
  then have dec: "decode_rune (map of_char s) = (hd (map of_char s), 1)"
    using decode_rune_ascii [of "map of_char s"] assms by simp
  obtain c s' where s: "s = c # s'" using assms(1) by (cases s) auto
  with dec assms(2) have r: "of_char c = r" "n = 1" by auto
  moreover have "r \<noteq> rune_error" using True by (simp add: rune_error_def)
  ultimately show ?thesis using reads_ascii [OF r(1) True] by (simp add: s)
next
  case False
  then have big: "0x80 \<le> r" by simp
  have "map of_char s \<noteq> ([] :: nat list)" using assms(1) by simp
  note wide = decode_rune_wide [OF assms(2) this big]
  have bytes: "reads_as (take n s) (take n s)"
    using wide(1) by (intro reads_bytes) (auto simp: take_map)
  have take: "take n s = map char_of (take n (map of_char s :: nat list))" by (simp add: take_map)
  have separator: "take n s = encode_rune r" if "r = 0x2028 \<or> r = 0x2029"
    using wide(2,3) that by (auto simp: take encode_rune_def)
  have len: "length (take n s) = n" using wide(4) by simp
  consider "r = 0x2028 \<or> r = 0x2029" | "r = rune_error" "n = 1" | "r \<noteq> 0x2028" "r \<noteq> 0x2029" "\<not> (r = rune_error \<and> n = 1)"
    by blast
  then show ?thesis
  proof cases
    case 1
    then have quoted: "quoted_rune r (take n s) = hex4 r" and other: "\<not> (r = rune_error \<and> n = 1)" and "r < 65536"
      by (auto simp: quoted_rune_def rune_error_def)
    show ?thesis
      unfolding if_not_P [OF other] quoted unfolding separator [OF 1] using \<open>r < 65536\<close> by (rule reads_hex4)
  next
    case 2
    have "quoted_rune r (take n s) = hex4 rune_error" using 2 len by (simp add: quoted_rune_def rune_error_def)
    moreover have "encode_rune rune_error = replacement"
      by (simp add: encode_rune_def rune_error_def replacement_def char_of_eq_iff)
    moreover have "reads_as (hex4 rune_error) (encode_rune rune_error)" by (rule reads_hex4) (simp add: rune_error_def)
    ultimately show ?thesis unfolding if_P [OF conjI [OF 2]] by metis
  next
    case 3
    then have "quoted_rune r (take n s) = (if r = rune_error \<and> length (take n s) = 1 then hex4 rune_error else take n s)"
      using big by (simp add: quoted_rune_def)
    then show ?thesis unfolding len if_not_P [OF 3(3)] using bytes by simp
  qed
qed

lemma reads_text: "reads_as (json_text s) (valid_text s)"
proof (induction s rule: json_text.induct)
  case (1 s)
  show ?case
  proof (cases "s = []")
    case True
    then show ?thesis by (simp add: json_text.simps valid_text.simps reads_as_def)
  next
    case False
    obtain r n where rune: "decode_rune (map of_char s) = (r, n)" by (cases "decode_rune (map of_char s)")
    have "reads_as (json_text (drop n s)) (valid_text (drop n s))" using 1 [OF False] rune by simp
    note step = reads_append [OF reads_rune [OF False rune] this]
    have "json_text s = quoted_rune r (take n s) @ json_text (drop n s)"
      "valid_text s = (if r = rune_error \<and> n = 1 then replacement else take n s) @ valid_text (drop n s)"
      using False rune json_text.simps [of s] valid_text.simps [of s] by simp_all
    with step show ?thesis by (simp only:)
  qed
qed

lemma read_quoted: "read_string (json_text s @ quote_char # rest) = Some (valid_text s, rest)"
  using reads_text [of s] by (simp add: reads_as_def prepend_def)

lemma valid_text_ascii: "\<forall>c\<in>set s. (of_char c :: nat) < 0x80 \<Longrightarrow> valid_text s = s"
proof (induction s)
  case (Cons c s)
  then have "decode_rune (map of_char (c # s)) = (of_char c, 1)" by (simp add: decode_rune_def)
  with Cons show ?case by (subst valid_text.simps) (simp add: rune_error_def)
qed (simp add: valid_text.simps)

section \<open>Instants\<close>

text \<open>
  \<open>time.RFC3339Nano\<close> in UTC: the civil date of a day number since 1970-01-01, the time of the day, and
  the fraction of the second without trailing zeros.
\<close>

definition civil :: "int \<Rightarrow> int \<times> int \<times> int" where
  "civil days =
     (let z = days + 719468;
          era = z div 146097;
          doe = z mod 146097;
          yoe = (doe - doe div 1460 + doe div 36524 - doe div 146096) div 365;
          doy = doe - (365 * yoe + yoe div 4 - yoe div 100);
          mp = (5 * doy + 2) div 153;
          day = doy - (153 * mp + 2) div 5 + 1;
          month = (if mp < 10 then mp + 3 else mp - 9)
      in (yoe + era * 400 + (if month \<le> 2 then 1 else 0), month, day))"

definition padded :: "nat \<Rightarrow> int \<Rightarrow> string" where
  "padded width n = (let digits = decimal (nat n) in replicate (width - length digits) CHR ''0'' @ digits)"

definition fraction :: "int \<Rightarrow> string" where
  "fraction nanos = (if nanos = 0 then [] else CHR ''.'' # rev (dropWhile (\<lambda>c. c = CHR ''0'') (rev (padded 9 nanos))))"

definition time_text :: "instant \<Rightarrow> string" where
  "time_text t =
     (let seconds = t div second;
          rest = seconds mod 86400
      in case civil (seconds div 86400) of
           (year, month, day) \<Rightarrow>
             padded 4 year @ ''-'' @ padded 2 month @ ''-'' @ padded 2 day @ ''T'' @ padded 2 (rest div 3600) @ '':'' @
             padded 2 (rest div 60 mod 60) @ '':'' @ padded 2 (rest mod 60) @ fraction (t mod second) @ ''Z'')"

lemma time_text_epoch: "time_text 0 = ''1970-01-01T00:00:00Z''"
  by code_simp

section \<open>Writing values\<close>

text \<open>
  \<open>nl d\<close> is what stands after a bracket or comma at nesting \<open>d\<close> (a new line and the indentation, or
  nothing) and \<open>sp\<close> what stands after a colon.
\<close>

fun join :: "string \<Rightarrow> string list \<Rightarrow> string" where
  "join sep [] = []"
| "join sep [x] = x"
| "join sep (x # xs) = x @ sep @ join sep xs"

fun layout :: "(nat \<Rightarrow> string) \<Rightarrow> string \<Rightarrow> nat \<Rightarrow> json \<Rightarrow> string" where
  "layout nl sp d JNull = ''null''"
| "layout nl sp d (JBool b) = (if b then ''true'' else ''false'')"
| "layout nl sp d (JInt i) = Itoa i"
| "layout nl sp d (JString s) = json_quoted s"
| "layout nl sp d (JTime t) = json_quoted (time_text t)"
| "layout nl sp d (JArray vs) =
     (if vs = [] then ''[]''
      else ''['' @ nl (Suc d) @ join ('','' @ nl (Suc d)) (map (layout nl sp (Suc d)) vs) @ nl d @ '']'')"
| "layout nl sp d (JObject entries) =
     (if entries = [] then ''{}''
      else ''{'' @ nl (Suc d) @
        join ('','' @ nl (Suc d)) (map (\<lambda>(k, v). json_quoted k @ '':'' @ sp @ layout nl sp (Suc d) v) entries) @ nl d @ ''}'')"

definition Marshal :: "json \<Rightarrow> string" where
  "Marshal v = layout (\<lambda>d. []) [] 0 v"

text \<open>\<open>json.MarshalIndent(v, "", "  ")\<close>\<close>

definition MarshalIndent :: "json \<Rightarrow> string" where
  "MarshalIndent v = layout (\<lambda>d. CHR 0x0A # replicate (2 * d) CHR 0x20) '' '' 0 v"

text \<open>An encoder ends every value with a new line; it fails on an instant it cannot write.\<close>

definition Encode :: "json \<Rightarrow> string result" where
  "Encode v =
     (if encodable v then Inr (Marshal v @ [CHR 0x0A])
      else Inl (Errorf ''json: error calling MarshalJSON for type time.Time''))"

section \<open>Reading values\<close>

definition spaces :: string where "spaces = [CHR 0x20, CHR 0x09, CHR 0x0A, CHR 0x0D]"

definition skip :: "string \<Rightarrow> string" where
  "skip s = dropWhile (\<lambda>c. c \<in> set spaces) s"

definition is_digit :: "char \<Rightarrow> bool" where
  "is_digit c \<longleftrightarrow> digit_value c \<noteq> None"

definition read_number :: "string \<Rightarrow> (json \<times> string) option" where
  "read_number s =
     (case s of
        [] \<Rightarrow> None
      | c # cs \<Rightarrow>
          if c = CHR ''-''
          then map_option (\<lambda>n. (JInt (- int n), dropWhile is_digit cs)) (read_nat (takeWhile is_digit cs))
          else map_option (\<lambda>n. (JInt (int n), dropWhile is_digit s)) (read_nat (takeWhile is_digit s)))"

text \<open>The first argument bounds the recursion; the length of the text is always enough.\<close>

fun read_value :: "nat \<Rightarrow> string \<Rightarrow> (json \<times> string) option"
  and read_items :: "nat \<Rightarrow> string \<Rightarrow> (json list \<times> string) option"
  and read_fields :: "nat \<Rightarrow> string \<Rightarrow> ((string \<times> json) list \<times> string) option"
where
  "read_value 0 s = None"
| "read_value (Suc n) s =
     (case skip s of
        [] \<Rightarrow> None
      | c # cs \<Rightarrow>
          if c = quote_char then map_option (\<lambda>(t, rest). (JString t, rest)) (read_string cs)
          else if c = CHR ''['' then
            (case skip cs of
               [] \<Rightarrow> None
             | d # ds \<Rightarrow>
                 if d = CHR '']'' then Some (JArray [], ds)
                 else map_option (\<lambda>(vs, rest). (JArray vs, rest)) (read_items n cs))
          else if c = CHR ''{'' then
            (case skip cs of
               [] \<Rightarrow> None
             | d # ds \<Rightarrow>
                 if d = CHR ''}'' then Some (JObject [], ds)
                 else map_option (\<lambda>(entries, rest). (JObject entries, rest)) (read_fields n cs))
          else if starts_with ''null'' (c # cs) then Some (JNull, drop 4 (c # cs))
          else if starts_with ''true'' (c # cs) then Some (JBool True, drop 4 (c # cs))
          else if starts_with ''false'' (c # cs) then Some (JBool False, drop 5 (c # cs))
          else read_number (c # cs))"
| "read_items 0 s = None"
| "read_items (Suc n) s =
     (case read_value n s of
        None \<Rightarrow> None
      | Some (v, rest) \<Rightarrow>
          (case skip rest of
             [] \<Rightarrow> None
           | c # cs \<Rightarrow>
               if c = CHR '','' then map_option (\<lambda>(vs, rest). (v # vs, rest)) (read_items n cs)
               else if c = CHR '']'' then Some ([v], cs)
               else None))"
| "read_fields 0 s = None"
| "read_fields (Suc n) s =
     (case skip s of
        [] \<Rightarrow> None
      | q # qs \<Rightarrow>
          if q \<noteq> quote_char then None
          else (case read_string qs of
                  None \<Rightarrow> None
                | Some (k, rest) \<Rightarrow>
                    (case skip rest of
                       [] \<Rightarrow> None
                     | c # cs \<Rightarrow>
                         if c \<noteq> CHR '':'' then None
                         else (case read_value n cs of
                                 None \<Rightarrow> None
                               | Some (v, rest) \<Rightarrow>
                                   (case skip rest of
                                      [] \<Rightarrow> None
                                    | e # es \<Rightarrow>
                                        if e = CHR '','' then map_option (\<lambda>(entries, rest). ((k, v) # entries, rest)) (read_fields n es)
                                        else if e = CHR ''}'' then Some ([(k, v)], es)
                                        else None)))))"

definition Unmarshal :: "string \<Rightarrow> json option" where
  "Unmarshal s =
     (case read_value (length s) s of
        None \<Rightarrow> None
      | Some (v, rest) \<Rightarrow> if skip rest = [] then Some v else None)"

text \<open>What is read back: strings as valid text, instants as their text.\<close>

fun wire :: "json \<Rightarrow> json" where
  "wire (JString s) = JString (valid_text s)"
| "wire (JTime t) = JString (valid_text (time_text t))"
| "wire (JArray vs) = JArray (map wire vs)"
| "wire (JObject entries) = JObject (map (\<lambda>(k, v). (valid_text k, wire v)) entries)"
| "wire v = v"

fun need :: "json \<Rightarrow> nat" where
  "need (JArray vs) = Suc (sum_list (map (\<lambda>v. Suc (need v)) vs))"
| "need (JObject entries) = Suc (sum_list (map (\<lambda>(k, v). Suc (need v)) entries))"
| "need v = 1"

definition blank :: "string \<Rightarrow> bool" where
  "blank w \<longleftrightarrow> set w \<subseteq> set spaces"

definition after_value :: "string \<Rightarrow> bool" where
  "after_value rest \<longleftrightarrow> (case rest of [] \<Rightarrow> True | c # cs \<Rightarrow> \<not> is_digit c)"

lemma skip_blank: "blank w \<Longrightarrow> skip (w @ s) = skip s"
  unfolding blank_def skip_def by (induction w) auto

lemma skip_char: "c \<notin> set spaces \<Longrightarrow> skip (c # s) = c # s"
  by (simp add: skip_def)

lemma after_blank: "blank w \<Longrightarrow> c \<notin> set spaces \<Longrightarrow> \<not> is_digit c \<Longrightarrow> after_value (w @ c # rest)"
proof -
  have "\<forall>c\<in>set spaces. \<not> is_digit c" by code_simp
  then show "blank w \<Longrightarrow> c \<notin> set spaces \<Longrightarrow> \<not> is_digit c \<Longrightarrow> after_value (w @ c # rest)"
    by (cases w) (auto simp: after_value_def blank_def)
qed

lemma number_start:
  assumes "c = CHR ''-'' \<or> (\<exists>d<10. c = digit_char d)"
  shows "c \<notin> set spaces" "c \<noteq> quote_char" "c \<notin> set ''[]{},:ntf''"
proof -
  have "c \<in> set (CHR ''-'' # map digit_char [0..<10])" using assms by auto
  moreover have "\<forall>c\<in>set (CHR ''-'' # map digit_char [0..<10]). c \<notin> set spaces \<and> c \<noteq> quote_char \<and> c \<notin> set ''[]{},:ntf''"
    by code_simp
  ultimately show "c \<notin> set spaces" "c \<noteq> quote_char" "c \<notin> set ''[]{},:ntf''" by blast+
qed

lemma Itoa_start: "\<exists>c cs. Itoa i = c # cs \<and> (c = CHR ''-'' \<or> (\<exists>d<10. c = digit_char d))"
  using decimal_head [of "nat i"] by (auto simp: Itoa_def)

lemma take_digits:
  assumes "after_value rest"
  shows "takeWhile is_digit (decimal n @ rest) = decimal n" "dropWhile is_digit (decimal n @ rest) = rest"
proof -
  have digits: "is_digit c" if "c \<in> set (decimal n)" for c
    using decimal_digits [of n] that by (auto simp: is_digit_def)
  have "takeWhile is_digit rest = []" "dropWhile is_digit rest = rest"
    using assms by (cases rest; simp add: after_value_def)+
  with digits show "takeWhile is_digit (decimal n @ rest) = decimal n" "dropWhile is_digit (decimal n @ rest) = rest"
    by (simp_all add: takeWhile_append dropWhile_append)
qed

lemma read_number_Itoa:
  assumes "after_value rest"
  shows "read_number (Itoa i @ rest) = Some (JInt i, rest)"
proof -
  have nat: "read_nat (decimal n) = Some n" for n by (simp add: read_nat_def read_digits_decimal)
  show ?thesis
  proof (cases "i < 0")
    case True
    then show ?thesis by (simp add: Itoa_def read_number_def take_digits [OF assms] nat)
  next
    case False
    obtain d cs where head: "decimal (nat i) = digit_char d # cs" "d < 10" using decimal_head [of "nat i"] by blast
    have "digit_char d \<noteq> CHR ''-''" using digit_char_sign [OF head(2)] by simp
    then have "read_number (decimal (nat i) @ rest) = map_option (\<lambda>n. (JInt (int n), dropWhile is_digit (decimal (nat i) @ rest)))
        (read_nat (takeWhile is_digit (decimal (nat i) @ rest)))"
      by (simp add: read_number_def head(1))
    with False show ?thesis by (simp add: Itoa_def take_digits [OF assms] nat)
  qed
qed

lemma read_value_blank: "blank w \<Longrightarrow> read_value n (w @ s) = read_value n s"
  by (cases n) (simp_all add: skip_blank)

lemma read_fields_blank: "blank w \<Longrightarrow> read_fields n (w @ s) = read_fields n s"
  by (cases n) (simp_all add: skip_blank)

lemma quote_not_space: "quote_char \<notin> set spaces"
  by code_simp

lemma layout_head: "\<exists>c cs. layout nl sp d v = c # cs \<and> c \<notin> set spaces \<and> c \<noteq> CHR '']'' \<and> c \<noteq> CHR ''}''"
proof (cases v)
  case (JInt i)
  obtain c cs where "Itoa i = c # cs" "c = CHR ''-'' \<or> (\<exists>d<10. c = digit_char d)" using Itoa_start by blast
  with number_start [of c] JInt show ?thesis by auto
qed (auto simp: json_quoted_def quote_char_def spaces_def)

lemma read_atom:
  assumes "0 < n" "after_value rest"
  shows "read_value n (''null'' @ rest) = Some (JNull, rest)"
    "read_value n ((if b then ''true'' else ''false'') @ rest) = Some (JBool b, rest)"
    "read_value n (Itoa i @ rest) = Some (JInt i, rest)"
    "read_value n (json_quoted s @ rest) = Some (JString (valid_text s), rest)"
proof -
  obtain m where n: "n = Suc m" using assms(1) by (cases n) auto
  show "read_value n (''null'' @ rest) = Some (JNull, rest)"
    "read_value n ((if b then ''true'' else ''false'') @ rest) = Some (JBool b, rest)"
    by (auto simp: n skip_char spaces_def quote_char_def starts_with_def)
  obtain c cs where c: "Itoa i = c # cs" "c = CHR ''-'' \<or> (\<exists>d<10. c = digit_char d)" using Itoa_start by blast
  have start: "c \<notin> set spaces" "c \<noteq> quote_char" "c \<noteq> CHR ''[''" "c \<noteq> CHR ''{''" "c \<noteq> CHR ''n''" "c \<noteq> CHR ''t''" "c \<noteq> CHR ''f''"
    using number_start [OF c(2)] by auto
  then show "read_value n (Itoa i @ rest) = Some (JInt i, rest)"
    using read_number_Itoa [OF assms(2), of i] by (simp add: n c(1) skip_char starts_with_def)
  show "read_value n (json_quoted s @ rest) = Some (JString (valid_text s), rest)"
    by (simp add: n json_quoted_def skip_char quote_not_space read_quoted)
qed

definition reads_back :: "(nat \<Rightarrow> string) \<Rightarrow> string \<Rightarrow> json \<Rightarrow> bool" where
  "reads_back nl sp v \<longleftrightarrow>
     (\<forall>n d rest. need v \<le> n \<longrightarrow> after_value rest \<longrightarrow> read_value n (layout nl sp d v @ rest) = Some (wire v, rest))"

lemma punctuation: "CHR '','' \<notin> set spaces" "CHR '']'' \<notin> set spaces" "CHR ''}'' \<notin> set spaces" "CHR '':'' \<notin> set spaces"
  "\<not> is_digit CHR '',''" "\<not> is_digit CHR '']''" "\<not> is_digit CHR ''}''"
  by code_simp+

lemma read_items_join:
  assumes blank: "\<And>d. blank (nl d)"
  shows "vs \<noteq> [] \<Longrightarrow> \<forall>v\<in>set vs. reads_back nl sp v \<Longrightarrow> sum_list (map (\<lambda>v. Suc (need v)) vs) \<le> n \<Longrightarrow> blank w \<Longrightarrow>
    read_items n (w @ join ('','' @ nl d) (map (layout nl sp d) vs) @ nl d' @ CHR '']'' # rest) = Some (map wire vs, rest)"
proof (induction vs arbitrary: n w)
  case (Cons v vs)
  obtain m where n: "n = Suc m" using Cons.prems(3) by (cases n) auto
  have need: "need v \<le> m" "sum_list (map (\<lambda>v. Suc (need v)) vs) \<le> m" using Cons.prems(3) n by simp_all
  have v: "read_value m (w @ layout nl sp d v @ rest) = Some (wire v, rest)" if "after_value rest" for rest
    using Cons.prems(2,4) need(1) that by (simp add: reads_back_def read_value_blank)
  show ?case
  proof (cases vs)
    case Nil
    have "after_value (nl d' @ CHR '']'' # rest)" using blank punctuation by (intro after_blank)
    from v [OF this] show ?thesis
      by (simp add: Nil n skip_blank [OF blank] skip_char punctuation)
  next
    case (Cons v2 vs2)
    let ?tail = "nl d @ join ('','' @ nl d) (map (layout nl sp d) vs) @ nl d' @ CHR '']'' # rest"
    have "read_items m ?tail = Some (map wire vs, rest)"
      using Cons.IH [of m "nl d"] Cons Cons.prems(2) need(2) blank by simp
    moreover have "after_value (CHR '','' # ?tail)" by (simp add: after_value_def punctuation)
    ultimately show ?thesis
      using v [of "CHR '','' # ?tail"] by (simp add: Cons n skip_char punctuation)
  qed
qed simp

lemma read_fields_join:
  assumes blank: "\<And>d. blank (nl d)" "blank sp"
  shows "entries \<noteq> [] \<Longrightarrow> \<forall>(k, v)\<in>set entries. reads_back nl sp v \<Longrightarrow>
    sum_list (map (\<lambda>(k, v). Suc (need v)) entries) \<le> n \<Longrightarrow> blank w \<Longrightarrow>
    read_fields n (w @ join ('','' @ nl d) (map (\<lambda>(k, v). json_quoted k @ '':'' @ sp @ layout nl sp d v) entries) @
        nl d' @ CHR ''}'' # rest) =
      Some (map (\<lambda>(k, v). (valid_text k, wire v)) entries, rest)"
proof (induction entries arbitrary: n w)
  case (Cons entry entries)
  obtain k v where kv: "entry = (k, v)" by (cases entry)
  obtain m where n: "n = Suc m" using Cons.prems(3) by (cases n) (auto simp: kv)
  have need: "need v \<le> m" "sum_list (map (\<lambda>(k, v). Suc (need v)) entries) \<le> m" using Cons.prems(3) n kv by simp_all
  have v: "read_value m (sp @ layout nl sp d v @ rest) = Some (wire v, rest)" if "after_value rest" for rest
    using Cons.prems(2) need(1) that blank(2) by (simp add: kv reads_back_def read_value_blank)
  show ?case
  proof (cases entries)
    case Nil
    have "after_value (nl d' @ CHR ''}'' # rest)" using blank punctuation by (intro after_blank)
    from v [OF this] show ?thesis
      by (simp add: Nil kv n read_fields_blank [OF Cons.prems(4)] json_quoted_def quote_not_space read_quoted
          skip_blank [OF blank(1)] skip_char punctuation)
  next
    case (Cons entry2 entries2)
    let ?tail = "nl d @ join ('','' @ nl d) (map (\<lambda>(k, v). json_quoted k @ '':'' @ sp @ layout nl sp d v) entries) @
      nl d' @ CHR ''}'' # rest"
    have "read_fields m ?tail = Some (map (\<lambda>(k, v). (valid_text k, wire v)) entries, rest)"
      using Cons.IH [of m "nl d"] Cons Cons.prems(2) need(2) blank by simp
    moreover have "after_value (CHR '','' # ?tail)" by (simp add: after_value_def punctuation)
    ultimately show ?thesis
      using v [of "CHR '','' # ?tail"]
      by (simp add: Cons kv n read_fields_blank [OF Cons.prems(4)] json_quoted_def quote_not_space read_quoted
          skip_char punctuation)
  qed
qed simp

lemma join_head: "xs \<noteq> [] \<Longrightarrow> hd xs = c # cs \<Longrightarrow> \<exists>rest. join sep xs = c # rest"
  by (cases "(sep, xs)" rule: join.cases) auto

lemma need_pos: "0 < need v"
  by (cases v) simp_all

lemma all_read_back:
  assumes blank: "\<And>d. blank (nl d)" "blank sp"
  shows "reads_back nl sp v"
proof (induction v)
  case JNull
  show ?case using read_atom(1) by (simp add: reads_back_def)
next
  case (JBool b)
  show ?case using read_atom(2) [of _ _ b] by (simp add: reads_back_def)
next
  case (JInt i)
  show ?case by (simp add: reads_back_def read_atom)
next
  case (JString s)
  show ?case by (simp add: reads_back_def read_atom)
next
  case (JTime t)
  show ?case by (simp add: reads_back_def read_atom)
next
  case (JArray vs)
  have array: "c \<noteq> quote_char \<and> c \<notin> set spaces" if "c = CHR ''[''" for c using that by (simp add: quote_char_def spaces_def)
  show ?case
  proof (cases "vs = []")
    case True
    then show ?thesis
      by (auto simp: reads_back_def skip_char punctuation array gr0_conv_Suc Suc_le_eq)
  next
    case False
    have "read_value n (layout nl sp d (JArray vs) @ rest) = Some (wire (JArray vs), rest)"
      if n: "need (JArray vs) \<le> n" for n d rest
    proof -
      obtain m where m: "n = Suc m" "sum_list (map (\<lambda>v. Suc (need v)) vs) \<le> m" using n by (cases n) auto
      let ?inside = "nl (Suc d) @ join ('','' @ nl (Suc d)) (map (layout nl sp (Suc d)) vs) @ nl d @ CHR '']'' # rest"
      obtain c cs where head: "layout nl sp (Suc d) (hd vs) = c # cs" "c \<notin> set spaces" "c \<noteq> CHR '']''"
        using layout_head by blast
      obtain more where "join ('','' @ nl (Suc d)) (map (layout nl sp (Suc d)) vs) = c # more"
        using join_head [of "map (layout nl sp (Suc d)) vs" c cs] False head(1) by (auto simp: hd_map)
      then have "skip ?inside = c # more @ nl d @ CHR '']'' # rest"
        using head(2) by (simp add: skip_blank [OF blank(1)] skip_char)
      moreover have "read_items m ?inside = Some (map wire vs, rest)"
        using JArray False m(2) blank(1) by (intro read_items_join) simp_all
      ultimately show ?thesis
        using False head(3) by (simp add: m(1) skip_char array)
    qed
    then show ?thesis by (simp only: reads_back_def) blast
  qed
next
  case (JObject entries)
  have object: "c \<noteq> quote_char \<and> c \<notin> set spaces" if "c = CHR ''{''" for c using that by (simp add: quote_char_def spaces_def)
  have quote: "quote_char \<noteq> CHR ''}''" by (simp add: quote_char_def)
  show ?case
  proof (cases "entries = []")
    case True
    then show ?thesis
      by (auto simp: reads_back_def skip_char punctuation object gr0_conv_Suc Suc_le_eq)
  next
    case False
    have "read_value n (layout nl sp d (JObject entries) @ rest) = Some (wire (JObject entries), rest)"
      if n: "need (JObject entries) \<le> n" for n d rest
    proof -
      obtain m where m: "n = Suc m" "sum_list (map (\<lambda>(k, v). Suc (need v)) entries) \<le> m" using n by (cases n) auto
      let ?put = "\<lambda>(k, v). json_quoted k @ '':'' @ sp @ layout nl sp (Suc d) v"
      let ?inside = "nl (Suc d) @ join ('','' @ nl (Suc d)) (map ?put entries) @ nl d @ CHR ''}'' # rest"
      obtain cs where "?put (hd entries) = quote_char # cs" by (cases "hd entries") (simp add: json_quoted_def)
      then obtain more where "join ('','' @ nl (Suc d)) (map ?put entries) = quote_char # more"
        using join_head [of "map ?put entries" quote_char cs] False by (auto simp: hd_map)
      then have "skip ?inside = quote_char # more @ nl d @ CHR ''}'' # rest"
        by (simp add: skip_blank [OF blank(1)] skip_char quote_not_space)
      moreover have "\<forall>(k, v)\<in>set entries. reads_back nl sp v" using JObject by fastforce
      then have "read_fields m ?inside = Some (map (\<lambda>(k, v). (valid_text k, wire v)) entries, rest)"
        using False m(2) blank by (intro read_fields_join) simp_all
      ultimately show ?thesis
        using False quote by (simp add: m(1) skip_char object)
    qed
    then show ?thesis by (simp only: reads_back_def) blast
  qed
qed

lemma join_length: "xs \<noteq> [] \<Longrightarrow> sum_list (map length xs) + length xs \<le> Suc (length (join (c # sep) xs))"
proof (induction xs)
  case (Cons x xs)
  then show ?case by (cases xs) auto
qed simp

lemma need_length: "need v \<le> length (layout nl sp d v)"
proof (induction v arbitrary: d)
  case (JInt i)
  obtain c cs where "Itoa i = c # cs" using Itoa_start by blast
  then show ?case by simp
next
  case (JArray vs)
  show ?case
  proof (cases "vs = []")
    case False
    let ?xs = "map (layout nl sp (Suc d)) vs"
    have "sum_list (map (\<lambda>v. Suc (need v)) vs) \<le> sum_list (map (\<lambda>v. Suc (length (layout nl sp (Suc d) v))) vs)"
      using JArray by (intro sum_list_mono) simp
    also have "\<dots> = sum_list (map length ?xs) + length ?xs" by (induction vs) auto
    also have "\<dots> \<le> Suc (length (join ('','' @ nl (Suc d)) ?xs))" using join_length [of ?xs] False by simp
    finally show ?thesis using False by simp
  qed simp
next
  case (JObject entries)
  show ?case
  proof (cases "entries = []")
    case False
    let ?put = "\<lambda>(k, v). json_quoted k @ '':'' @ sp @ layout nl sp (Suc d) v"
    have "need v \<le> length (?put (k, v))" if "(k, v) \<in> set entries" for k v
      using JObject [OF that, of v "Suc d"] by simp
    then have "sum_list (map (\<lambda>(k, v). Suc (need v)) entries) \<le> sum_list (map (\<lambda>e. Suc (length (?put e))) entries)"
      by (intro sum_list_mono) auto
    also have "\<dots> = sum_list (map length (map ?put entries)) + length (map ?put entries)" by (induction entries) auto
    also have "\<dots> \<le> Suc (length (join ('','' @ nl (Suc d)) (map ?put entries)))"
      using join_length [of "map ?put entries"] False by simp
    finally show ?thesis using False by simp
  qed simp
qed (simp_all add: json_quoted_def)

lemma layout_read_back:
  assumes "\<And>d. blank (nl d)" "blank sp" "blank w"
  shows "Unmarshal (layout nl sp d v @ w) = Some (wire v)"
proof -
  have "need v \<le> length (layout nl sp d v @ w)" using need_length [of v nl sp d] by simp
  moreover have "after_value w"
  proof -
    have "\<forall>c\<in>set spaces. \<not> is_digit c" by code_simp
    then show ?thesis using assms(3) by (cases w) (auto simp: after_value_def blank_def)
  qed
  ultimately have "read_value (length (layout nl sp d v @ w)) (layout nl sp d v @ w) = Some (wire v, w)"
    using all_read_back [where nl = nl and sp = sp and v = v, OF assms(1,2)] by (simp add: reads_back_def)
  moreover have "skip w = []" using skip_blank [OF assms(3), of "[]"] by (simp add: skip_def)
  ultimately show ?thesis by (simp add: Unmarshal_def)
qed

lemma Unmarshal_Marshal: "Unmarshal (Marshal v @ [CHR 0x0A]) = Some (wire v)" "Unmarshal (Marshal v) = Some (wire v)"
  unfolding Marshal_def using layout_read_back [where nl = "\<lambda>d. []" and sp = "[]" and w = "[CHR 0x0A]"]
    layout_read_back [where nl = "\<lambda>d. []" and sp = "[]" and w = "[]"]
  by (simp_all add: blank_def spaces_def)

lemma Unmarshal_MarshalIndent: "Unmarshal (MarshalIndent v @ [CHR 0x0A]) = Some (wire v)"
proof -
  have "blank (CHR 0x0A # replicate (2 * d) CHR 0x20)" for d by (auto simp: blank_def spaces_def)
  then show ?thesis
    using layout_read_back [where nl = "\<lambda>d. CHR 0x0A # replicate (2 * d) CHR 0x20" and sp = "'' ''" and w = "[CHR 0x0A]"
        and d = 0 and v = v]
    by (simp add: MarshalIndent_def blank_def spaces_def)
qed

text \<open>Values with ASCII strings and without instants are read back as they are.\<close>

definition ascii :: "string \<Rightarrow> bool" where
  "ascii s \<longleftrightarrow> list_all (\<lambda>c. \<not> digit7 c) s"

lemma valid_ascii: "ascii s \<Longrightarrow> valid_text s = s"
proof (rule valid_text_ascii, rule ballI)
  fix c assume "ascii s" "c \<in> set s"
  then have "\<not> digit7 c" by (auto simp: ascii_def list_all_iff)
  then show "(of_char c :: nat) < 0x80" by (cases c) (auto simp: of_char_def)
qed

fun plain :: "json \<Rightarrow> bool" where
  "plain (JString s) \<longleftrightarrow> ascii s"
| "plain (JTime t) \<longleftrightarrow> False"
| "plain (JArray vs) \<longleftrightarrow> list_all plain vs"
| "plain (JObject entries) \<longleftrightarrow> list_all (\<lambda>(k, v). ascii k \<and> plain v) entries"
| "plain v \<longleftrightarrow> True"

lemma wire_plain: "plain v \<Longrightarrow> wire v = v"
proof (induction v rule: plain.induct)
  case (4 entries)
  then have "(\<lambda>(k, v). (valid_text k, wire v)) e = e" if "e \<in> set entries" for e
    using that by (cases e) (auto simp: list_all_iff valid_ascii)
  then show ?case by (simp add: map_idI)
qed (auto simp: list_all_iff valid_ascii map_idI)

end
