(* ===== verification/Go_Time.thy ===== *)
theory Go_Time
  imports Go_JSON
begin

text \<open>
  Reading an instant back: the text \<open>encoding/json\<close> writes for a \<open>time.Time\<close> in UTC (\<open>time_text\<close>) is a
  date of the Gregorian calendar, which \<open>civil\<close> computes from the number of the day. The reader
  accepts such texts; the lemmas show that it gives the instant back.
\<close>

section \<open>The calendar\<close>

lemma div_bounds: "0 < d \<Longrightarrow> d * (x div d) \<le> x" "0 < d \<Longrightarrow> x < d * (x div d) + d" for x d :: int
  using mult_div_mod_eq [of d x] pos_mod_bound [of d x] pos_mod_sign [of d x] by linarith+

definition day_number :: "int \<Rightarrow> int \<Rightarrow> int \<Rightarrow> int" where
  "day_number year month day =
     (let y = (if month \<le> 2 then year - 1 else year);
          yoe = y mod 400;
          doy = (153 * ((month + 9) mod 12) + 2) div 5 + day - 1
      in y div 400 * 146097 + (yoe * 365 + yoe div 4 - yoe div 100 + doy) - 719468)"

text \<open>The year of the four-century era and the day of that year, which starts in March.\<close>

definition era_year :: "int \<Rightarrow> int" where
  "era_year doe = (doe - doe div 1460 + doe div 36524 - doe div 146096) div 365"

definition era_day :: "int \<Rightarrow> int" where
  "era_day doe = doe - (365 * era_year doe + era_year doe div 4 - era_year doe div 100)"

lemma era_year_century:
  assumes doe: "doe = 36524 * b + (1461 * k + u)" and b: "b \<in> {0, 1, 2, 3}"
    and k: "0 \<le> k" "k \<le> 24" and u: "0 \<le> u" "u < 1461" and last: "1461 * k + u < 36524"
  obtains q where "era_year doe = 100 * b + 4 * k + q" "0 \<le> q" "q \<le> 3" "0 \<le> u - 365 * q" "u - 365 * q \<le> 365"
proof -
  define e where "e = (24 * b + k + u) div 1460"
  have e: "e = (if 24 * b + k + u < 1460 then 0 else 1)"
    unfolding e_def using b k u by (auto simp: div_pos_pos_trivial)
  have parts: "doe div 1460 = 25 * b + k + e" "doe div 36524 = b" "doe div 146096 = 0"
    unfolding e_def doe using b k u last by auto
  have "era_year doe = (365 * (100 * b + 4 * k) + (u - e)) div 365"
    unfolding era_year_def parts by (simp add: doe algebra_simps)
  then have year: "era_year doe = 100 * b + 4 * k + (u - e) div 365" by simp
  have range: "0 \<le> u - e" "u - e \<le> 1459" using e b k u by (auto split: if_splits)
  define q where "q = (u - e) div 365"
  have q: "365 * q \<le> u - e" "u - e < 365 * q + 365" using div_bounds [of 365 "u - e"] by (simp_all add: q_def)
  have "0 \<le> q" "q \<le> 3" using q range by linarith+
  moreover have "0 \<le> u - 365 * q" "u - 365 * q \<le> 365" using q e by (auto split: if_splits)
  ultimately show thesis using that [of q] year q_def by simp
qed

lemma era_bounds:
  assumes "0 \<le> doe" "doe < 146097"
  shows "0 \<le> era_year doe" "era_year doe \<le> 399" "0 \<le> era_day doe" "era_day doe \<le> 365"
proof -
  have "0 \<le> era_year doe \<and> era_year doe \<le> 399 \<and> 0 \<le> era_day doe \<and> era_day doe \<le> 365"
  proof (cases "doe = 146096")
    case True
    then show ?thesis by (simp add: era_year_def era_day_def)
  next
    case False
    define b where "b = doe div 36524"
    define r where "r = doe mod 36524"
    define k where "k = r div 1461"
    define u where "u = r mod 1461"
    have r: "0 \<le> r" "r < 36524" and u: "0 \<le> u" "u < 1461" by (simp_all add: r_def u_def)
    have doe: "doe = 36524 * b + (1461 * k + u)" and rk: "1461 * k + u = r" by (simp_all add: b_def r_def k_def u_def)
    have "0 \<le> b" "b \<le> 3" using assms False doe r rk by linarith+
    then have b: "b \<in> {0, 1, 2, 3}" by auto
    have k: "0 \<le> k" "k \<le> 24" using r rk u by linarith+
    obtain q where q: "era_year doe = 100 * b + 4 * k + q" "0 \<le> q" "q \<le> 3" "0 \<le> u - 365 * q" "u - 365 * q \<le> 365"
      using era_year_century [OF doe b k u] r rk by metis
    have "era_year doe div 4 = 25 * b + k" unfolding q(1) using q(2,3) by simp
    moreover have "era_year doe div 100 = b" unfolding q(1) using q(2,3) k by simp
    ultimately have "era_day doe = u - 365 * q"
      using doe q(1) unfolding era_day_def by linarith
    with q b k show ?thesis by auto
  qed
  then show "0 \<le> era_year doe" "era_year doe \<le> 399" "0 \<le> era_day doe" "era_day doe \<le> 365" by simp_all
qed

text \<open>The parts of a date.\<close>

lemma civil_eras:
  "civil days =
     (let doe = (days + 719468) mod 146097;
          mp = (5 * era_day doe + 2) div 153;
          month = (if mp < 10 then mp + 3 else mp - 9)
      in (era_year doe + (days + 719468) div 146097 * 400 + (if month \<le> 2 then 1 else 0), month,
          era_day doe - (153 * mp + 2) div 5 + 1))"
  unfolding civil_def Let_def era_day_def era_year_def by (rule refl)

lemma civil_parts:
  assumes "civil days = (year, month, day)"
  defines "doe \<equiv> (days + 719468) mod 146097"
  defines "mp \<equiv> (5 * era_day doe + 2) div 153"
  shows "month = (if mp < 10 then mp + 3 else mp - 9)" "day = era_day doe - (153 * mp + 2) div 5 + 1"
    and "year = era_year doe + (days + 719468) div 146097 * 400 + (if month \<le> 2 then 1 else 0)"
    and "0 \<le> mp" "mp \<le> 11" "1 \<le> day" "day \<le> 31"
proof -
  have doe: "0 \<le> doe" "doe < 146097" by (simp_all add: doe_def)
  show parts: "month = (if mp < 10 then mp + 3 else mp - 9)" "day = era_day doe - (153 * mp + 2) div 5 + 1"
    "year = era_year doe + (days + 719468) div 146097 * 400 + (if month \<le> 2 then 1 else 0)"
    using assms(1) unfolding civil_eras Let_def mp_def doe_def by (auto simp only: prod.inject)
  have mp: "153 * mp \<le> 5 * era_day doe + 2" "5 * era_day doe + 2 < 153 * mp + 153"
    using div_bounds [of 153 "5 * era_day doe + 2"] by (simp_all add: mp_def)
  with era_bounds(3,4) [OF doe] show "0 \<le> mp" "mp \<le> 11" by linarith+
  have "5 * ((153 * mp + 2) div 5) \<le> 153 * mp + 2" "153 * mp + 2 < 5 * ((153 * mp + 2) div 5) + 5"
    using div_bounds [of 5 "153 * mp + 2"] by simp_all
  with mp show "1 \<le> day" "day \<le> 31" unfolding parts(2) by linarith+
qed

lemma civil_month: "civil days = (year, month, day) \<Longrightarrow> 1 \<le> month \<and> month \<le> 12"
proof -
  assume "civil days = (year, month, day)"
  note parts = civil_parts [OF this]
  from parts(4,5) show ?thesis unfolding parts(1) by (simp split: if_split)
qed

theorem day_number_civil:
  assumes "civil days = (year, month, day)"
  shows "day_number year month day = days"
proof -
  define doe where "doe = (days + 719468) mod 146097"
  define mp where "mp = (5 * era_day doe + 2) div 153"
  define era where "era = (days + 719468) div 146097"
  note parts = civil_parts [OF assms, folded doe_def, folded mp_def era_def]
  have doe: "0 \<le> doe" "doe < 146097" by (simp_all add: doe_def)
  note bounds = era_bounds [OF doe]
  have y: "(if month \<le> 2 then year - 1 else year) = era_year doe + era * 400" using parts(3) by simp
  have month: "(month + 9) mod 12 = mp"
  proof (cases "mp < 10")
    case True
    then have "month + 9 = 12 + mp" using parts(1) by simp
    with parts(4,5) show ?thesis by simp
  next
    case False
    then have "month + 9 = mp" using parts(1) by simp
    with parts(4,5) show ?thesis by simp
  qed
  have "(era_year doe + era * 400) mod 400 = era_year doe" "(era_year doe + era * 400) div 400 = era"
    using bounds(1,2) by simp_all
  then have "day_number year month day = era * 146097 + doe - 719468"
    unfolding day_number_def Let_def y month parts(2) by (simp add: era_day_def)
  also have "\<dots> = days" by (simp add: era_def doe_def)
  finally show ?thesis .
qed

text \<open>The years of the instants that can be encoded have at most four digits.\<close>

lemma civil_year:
  assumes "civil days = (year, month, day)" "- 719528 \<le> days" "days < 2932897"
  shows "0 \<le> year" "year \<le> 9999"
proof -
  define doe where "doe = (days + 719468) mod 146097"
  define mp where "mp = (5 * era_day doe + 2) div 153"
  define era where "era = (days + 719468) div 146097"
  note parts = civil_parts [OF assms(1), folded doe_def, folded mp_def era_def]
  have doe: "0 \<le> doe" "doe < 146097" and days: "days + 719468 = era * 146097 + doe"
    by (simp_all add: doe_def era_def)
  note bounds = era_bounds [OF doe]
  have day: "doe = 365 * era_year doe + era_year doe div 4 - era_year doe div 100 + era_day doe"
    by (simp add: era_day_def)
  have quarter: "4 * (era_year doe div 4) \<le> era_year doe" "era_year doe < 4 * (era_year doe div 4) + 4"
    "100 * (era_year doe div 100) \<le> era_year doe" "era_year doe < 100 * (era_year doe div 100) + 100"
    using div_bounds [of 4 "era_year doe"] div_bounds [of 100 "era_year doe"] by simp_all
  have mp: "153 * mp \<le> 5 * era_day doe + 2" "5 * era_day doe + 2 < 153 * mp + 153"
    using div_bounds [of 153 "5 * era_day doe + 2"] by (simp_all add: mp_def)
  have era: "-1 \<le> era" "era \<le> 24" using days doe assms(2,3) by linarith+
  have "0 \<le> year \<and> year \<le> 9999"
  proof (cases "era = -1 \<or> era = 24")
    case False
    with era bounds(1,2) parts(3) show ?thesis by (auto split: if_splits)
  next
    case True
    then show ?thesis
    proof
      assume e: "era = -1"
      then have "146037 \<le> doe" using days assms(2) by linarith
      then have "era_year doe = 399" "306 \<le> era_day doe" using day quarter bounds by linarith+
      then have "10 \<le> mp" using mp by linarith
      with parts(1,3-5) e \<open>era_year doe = 399\<close> show ?thesis by (auto split: if_splits)
    next
      assume e: "era = 24"
      then have small: "doe \<le> 146036" using days assms(3) by linarith
      show ?thesis
      proof (cases "era_year doe = 399")
        case True
        then have "era_day doe \<le> 305" using day small by simp
        then have "mp < 10" using mp by linarith
        with parts(1,3-5) e True show ?thesis by (auto split: if_splits)
      next
        case False
        with parts(3) e bounds(1,2) show ?thesis by (auto split: if_splits)
      qed
    qed
  qed
  then show "0 \<le> year" "year \<le> 9999" by simp_all
qed

section \<open>Fixed numbers\<close>

definition all_digits :: "string \<Rightarrow> bool" where
  "all_digits s \<longleftrightarrow> list_all is_digit s"

lemma read_digits_zeros: "read_digits acc (replicate n CHR ''0'' @ s) = read_digits (acc * 10 ^ n) s"
proof (induction n arbitrary: acc)
  case (Suc n)
  have "digit_value CHR ''0'' = Some 0" by code_simp
  with Suc show ?case by (simp add: mult.assoc)
qed simp

lemma padded_number:
  assumes "0 \<le> n" "n < 10 ^ width" "0 < width"
  shows "length (padded width n) = width" "read_nat (padded width n) = Some (nat n)" "all_digits (padded width n)"
proof -
  have "nat n < 10 ^ width" using assms(1,2) by (simp add: nat_less_iff)
  then have len: "length (decimal (nat n)) \<le> width" using assms(3) by (rule decimal_length)
  then show "length (padded width n) = width" by (simp add: padded_def Let_def)
  moreover have "read_digits 0 (padded width n) = Some (nat n)"
    by (simp add: padded_def Let_def read_digits_zeros read_digits_decimal)
  ultimately show "read_nat (padded width n) = Some (nat n)" using assms(3) by (auto simp: read_nat_def)
  have "is_digit CHR ''0''" by code_simp
  moreover have "\<forall>c\<in>set (decimal (nat n)). is_digit c"
    using decimal_digits [of "nat n"] by (auto simp: is_digit_def)
  ultimately show "all_digits (padded width n)" by (auto simp: padded_def Let_def all_digits_def list_all_iff)
qed

section \<open>Reading\<close>

text \<open>The fraction of a second and the time zone: \<open>Z\<close>, or a point and digits before it.\<close>

definition read_fraction :: "string \<Rightarrow> nat option" where
  "read_fraction s =
     (if s = ''Z'' then Some 0
      else case s of
             [] \<Rightarrow> None
           | c # cs \<Rightarrow>
               (let digits = takeWhile is_digit cs
                in if c = CHR ''.'' \<and> digits \<noteq> [] \<and> dropWhile is_digit cs = ''Z''
                   then read_nat (take 9 (digits @ replicate (9 - length digits) CHR ''0''))
                   else None))"

definition read_time :: "string \<Rightarrow> instant option" where
  "read_time s =
     (case (read_nat (take 4 s), read_nat (take 2 (drop 5 s)), read_nat (take 2 (drop 8 s)),
            read_nat (take 2 (drop 11 s)), read_nat (take 2 (drop 14 s)), read_nat (take 2 (drop 17 s)),
            read_fraction (drop 19 s)) of
        (Some year, Some month, Some day, Some hh, Some mm, Some ss, Some nanos) \<Rightarrow>
          (let days = day_number (int year) (int month) (int day)
           in if take 1 (drop 4 s) = ''-'' \<and> take 1 (drop 7 s) = ''-'' \<and> take 1 (drop 10 s) = ''T'' \<and>
                 take 1 (drop 13 s) = '':'' \<and> take 1 (drop 16 s) = '':'' \<and>
                 civil days = (int year, int month, int day) \<and> hh < 24 \<and> mm < 60 \<and> ss < 60
              then Some ((days * 86400 + int hh * 3600 + int mm * 60 + int ss) * second + int nanos)
              else None)
      | _ \<Rightarrow> None)"

lemma read_time_layout:
  assumes "length Y = 4" "length M = 2" "length D = 2" "length H = 2" "length N = 2" "length S = 2"
    and "read_nat Y = Some y" "read_nat M = Some mo" "read_nat D = Some d" "read_nat H = Some h" "read_nat N = Some n"
      "read_nat S = Some s" "read_fraction F = Some f"
    and "civil days = (int y, int mo, int d)" "h < 24" "n < 60" "s < 60"
  shows "read_time (Y @ ''-'' @ M @ ''-'' @ D @ ''T'' @ H @ '':'' @ N @ '':'' @ S @ F) =
    Some ((days * 86400 + int h * 3600 + int n * 60 + int s) * second + int f)"
proof -
  let ?s = "Y @ ''-'' @ M @ ''-'' @ D @ ''T'' @ H @ '':'' @ N @ '':'' @ S @ F"
  have "take 4 ?s = Y" "take 2 (drop 5 ?s) = M" "take 2 (drop 8 ?s) = D" "take 2 (drop 11 ?s) = H"
    "take 2 (drop 14 ?s) = N" "take 2 (drop 17 ?s) = S" "drop 19 ?s = F"
    "take 1 (drop 4 ?s) = ''-''" "take 1 (drop 7 ?s) = ''-''" "take 1 (drop 10 ?s) = ''T''"
    "take 1 (drop 13 ?s) = '':''" "take 1 (drop 16 ?s) = '':''"
    using assms(1-6) by simp_all
  note parts = this
  show ?thesis
    unfolding read_time_def parts using assms(7-) day_number_civil [OF assms(14)] by simp
qed

lemma read_fraction_fraction:
  assumes "0 \<le> nanos" "nanos < second"
  shows "read_fraction (fraction nanos @ ''Z'') = Some (nat nanos)"
proof (cases "nanos = 0")
  case True
  then show ?thesis by (simp add: fraction_def read_fraction_def)
next
  case False
  define t where "t = rev (dropWhile (\<lambda>c. c = CHR ''0'') (rev (padded 9 nanos)))"
  define z where "z = takeWhile (\<lambda>c. c = CHR ''0'') (rev (padded 9 nanos))"
  note number = padded_number [of nanos 9, OF assms(1)]
  have nine: "nanos < 10 ^ 9" using assms(2) by (simp add: second_def)
  have zeros: "rev z = replicate (length z) CHR ''0''"
  proof -
    have "\<forall>c\<in>set z. c = CHR ''0''" unfolding z_def by (auto dest: set_takeWhileD)
    then have "z = replicate (length z) CHR ''0''" by (simp add: replicate_length_same)
    then show ?thesis by (metis rev_replicate)
  qed
  have split: "padded 9 nanos = t @ replicate (length z) CHR ''0''"
    unfolding zeros [symmetric] unfolding t_def z_def by (metis rev_append rev_rev_ident takeWhile_dropWhile_id)
  then have len: "length z = 9 - length t" "length t \<le> 9" using number(1) nine by auto
  have digits: "takeWhile is_digit (t @ ''Z'') = t" "dropWhile is_digit (t @ ''Z'') = ''Z''"
  proof -
    have "\<forall>c\<in>set t. is_digit c" using number(3) nine split by (simp add: all_digits_def)  (simp add: list_all_iff)
    moreover have "\<not> is_digit CHR ''Z''" by code_simp
    ultimately show "takeWhile is_digit (t @ ''Z'') = t" "dropWhile is_digit (t @ ''Z'') = ''Z''"
      by (simp_all add: takeWhile_append dropWhile_append)
  qed
  have "t \<noteq> []"
  proof
    assume "t = []"
    then have "read_nat (padded 9 nanos) = read_nat (replicate 9 CHR ''0'' @ [])" using split len by simp
    also have "\<dots> = Some 0" by (simp add: read_nat_def read_digits_zeros del: append_Nil2)
    finally show False using number(2) nine False assms(1) by simp
  qed
  moreover have "take 9 (t @ replicate (9 - length t) CHR ''0'') = padded 9 nanos"
    using split len number(1) nine by simp
  ultimately show ?thesis
    using False number(2) nine digits by (simp add: read_fraction_def fraction_def t_def [symmetric] Let_def)
qed

lemma fraction_digits: "0 \<le> nanos \<Longrightarrow> nanos < second \<Longrightarrow> list_all (\<lambda>c. is_digit c \<or> c = CHR ''.'') (fraction nanos)"
proof -
  assume "0 \<le> nanos" "nanos < second"
  then have "all_digits (padded 9 nanos)" by (intro padded_number) (simp_all add: second_def)
  then show ?thesis
    by (auto simp: fraction_def all_digits_def list_all_iff dest: set_dropWhileD)
qed

text \<open>The parts of the text of an instant that can be encoded.\<close>

lemma clock_parts:
  assumes "0 \<le> rest" "rest < (86400 :: int)"
  obtains h n s where "rest div 3600 = h" "rest div 60 mod 60 = n" "rest mod 60 = s" "0 \<le> h" "h < 24" "0 \<le> n" "n < 60"
    "0 \<le> s" "s < 60" "rest = h * 3600 + n * 60 + s"
proof -
  have "rest div 60 div 60 = rest div 3600" by (simp add: zdiv_zmult2_eq [symmetric])
  then have "rest = rest div 3600 * 3600 + rest div 60 mod 60 * 60 + rest mod 60"
    using mult_div_mod_eq [of 60 "rest div 60"] mult_div_mod_eq [of 60 rest] by linarith
  moreover have "0 \<le> rest div 3600" "rest div 3600 < 24" using assms by linarith+
  ultimately show thesis by (intro that [OF refl refl refl]) simp_all
qed

lemma time_text_parts:
  assumes "encodable_time t"
  obtains days year month day h n s where "civil days = (year, month, day)"
    "0 \<le> year" "year < 10000" "0 \<le> month" "month < 100" "0 \<le> day" "day < 100"
    "0 \<le> h" "h < 24" "0 \<le> n" "n < 60" "0 \<le> s" "s < 60" "t div second = days * 86400 + h * 3600 + n * 60 + s"
    "time_text t = padded 4 year @ ''-'' @ padded 2 month @ ''-'' @ padded 2 day @ ''T'' @ padded 2 h @ '':'' @ padded 2 n @
       '':'' @ padded 2 s @ fraction (t mod second) @ ''Z''"
proof -
  define seconds where "seconds = t div second"
  define days where "days = seconds div 86400"
  define rest where "rest = seconds mod 86400"
  have "seconds = days * 86400 + rest" "0 \<le> rest" "rest < 86400" by (simp_all add: days_def rest_def)
  note split = this
  obtain h n s where clock: "rest div 3600 = h" "rest div 60 mod 60 = n" "rest mod 60 = s" "0 \<le> h" "h < 24" "0 \<le> n" "n < 60"
    "0 \<le> s" "s < 60" "rest = h * 3600 + n * 60 + s"
    using split(2,3) by (rule clock_parts)
  obtain year month day where civil: "civil days = (year, month, day)" by (metis prod.exhaust)
  have "- 62167219200 \<le> seconds" "seconds < 253402300800"
    using assms div_bounds [of second t] by (simp_all add: seconds_def encodable_time_def second_def)
  then have days: "- 719528 \<le> days" "days < 2932897" using split by linarith+
  have "time_text t = padded 4 year @ ''-'' @ padded 2 month @ ''-'' @ padded 2 day @ ''T'' @ padded 2 h @ '':'' @ padded 2 n @
       '':'' @ padded 2 s @ fraction (t mod second) @ ''Z''"
    by (simp only: time_text_def Let_def seconds_def [symmetric] days_def [symmetric] rest_def [symmetric] civil prod.case clock(1-3))
  moreover have "year < 10000" "0 \<le> month" "month < 100" "0 \<le> day" "day < 100"
    using civil_year(2) [OF civil days] civil_month [OF civil] civil_parts(6,7) [OF civil] by linarith+
  moreover have "t div second = days * 86400 + h * 3600 + n * 60 + s" using split(1) clock(10) by (simp add: seconds_def)
  ultimately show thesis using that [OF civil civil_year(1) [OF civil days]] clock(4-9) by blast
qed

lemma read_padded:
  "0 \<le> n \<Longrightarrow> n < 100 \<Longrightarrow> length (padded 2 n) = 2 \<and> read_nat (padded 2 n) = Some (nat n) \<and> set (padded 2 n) \<subseteq> {c. is_digit c}"
  "0 \<le> n \<Longrightarrow> n < 10000 \<Longrightarrow> length (padded 4 n) = 4 \<and> read_nat (padded 4 n) = Some (nat n) \<and> set (padded 4 n) \<subseteq> {c. is_digit c}"
  using padded_number [of n 2] padded_number [of n 4] by (auto simp: all_digits_def list_all_iff)

theorem read_time_text:
  assumes "encodable_time t"
  shows "read_time (time_text t) = Some t"
proof -
  obtain days year month day h n s where civil: "civil days = (year, month, day)"
    and range: "0 \<le> year" "year < 10000" "0 \<le> month" "month < 100" "0 \<le> day" "day < 100"
      "0 \<le> h" "h < 24" "0 \<le> n" "n < 60" "0 \<le> s" "s < 60"
    and total: "t div second = days * 86400 + h * 3600 + n * 60 + s"
    and shape: "time_text t = padded 4 year @ ''-'' @ padded 2 month @ ''-'' @ padded 2 day @ ''T'' @ padded 2 h @ '':'' @
       padded 2 n @ '':'' @ padded 2 s @ fraction (t mod second) @ ''Z''"
    using assms by (rule time_text_parts)
  have hundred: "h < 100" "n < 100" "s < 100" using range by linarith+
  have nanos: "read_fraction (fraction (t mod second) @ ''Z'') = Some (nat (t mod second))"
    by (rule read_fraction_fraction) (simp_all add: second_def)
  have "read_time (time_text t) =
      Some ((days * 86400 + int (nat h) * 3600 + int (nat n) * 60 + int (nat s)) * second + int (nat (t mod second)))"
    unfolding shape
  proof (rule read_time_layout)
    show "civil days = (int (nat year), int (nat month), int (nat day))" using civil range by simp
    show "nat h < 24" "nat n < 60" "nat s < 60" using range by linarith+
  qed (use read_padded range hundred nanos in blast)+
  also have "\<dots> = Some (t div second * second + t mod second)"
    unfolding total using range by (simp only: int_nat_eq if_True, simp add: second_def)
  also have "\<dots> = Some t" by simp
  finally show ?thesis .
qed

lemma time_text_ascii:
  assumes "encodable_time t"
  shows "valid_text (time_text t) = time_text t"
proof (rule valid_text_ascii, rule ballI)
  fix c
  assume c: "c \<in> set (time_text t)"
  obtain days year month day h n s where
    range: "0 \<le> year" "year < 10000" "0 \<le> month" "month < 100" "0 \<le> day" "day < 100"
      "0 \<le> h" "h < 24" "0 \<le> n" "n < 60" "0 \<le> s" "s < 60"
    and shape: "time_text t = padded 4 year @ ''-'' @ padded 2 month @ ''-'' @ padded 2 day @ ''T'' @ padded 2 h @ '':'' @
       padded 2 n @ '':'' @ padded 2 s @ fraction (t mod second) @ ''Z''"
    using assms by (rule time_text_parts)
  have hundred: "h < 100" "n < 100" "s < 100" using range by linarith+
  have fraction: "set (fraction (t mod second)) \<subseteq> {c. is_digit c \<or> c = CHR ''.''}"
    using fraction_digits [of "t mod second"] by (auto simp: list_all_iff second_def)
  have "set (padded 4 year) \<union> set (padded 2 month) \<union> set (padded 2 day) \<union> set (padded 2 h) \<union> set (padded 2 n) \<union>
      set (padded 2 s) \<subseteq> {c. is_digit c}"
    using read_padded range hundred by (intro Un_least) blast+
  with fraction c have "is_digit c \<or> c \<in> set ''-T:.Z''"
    unfolding shape by auto
  moreover have "(of_char c :: nat) < 0x80" if "is_digit c"
    using that by (auto simp: is_digit_def digit_value_def Let_def split: if_splits)
  moreover have "\<forall>c\<in>set ''-T:.Z''. (of_char c :: nat) < 0x80" by code_simp
  ultimately show "(of_char c :: nat) < 0x80" by blast
qed

end
