(* ===== verification/Email_Verification.thy ===== *)
theory Email_Verification
  imports Rate_Limit Go_Time
begin

text \<open>
  The email verification store of \<open>internal/infra/authentication/email_verification_store.go\<close>:
  challenges live in Redis under a key made of the token's hash, with an owner key per user that
  points at the user's current challenge; verifying consumes the challenge and marks the user's row
  in PostgreSQL.
\<close>

section \<open>Data\<close>

text \<open>
  The record to issue, the user and the errors belong to the verification library. A store has the
  JSON form of a challenge as a pair of functions; \<open>encoding_json\<close> below is the one of
  \<open>encoding/json\<close>.
\<close>

record verificationChallenge =
  UserID :: string
  EmailHash :: string
  ExpiresAt :: instant

record verification_record =
  record_UserID :: string
  record_Email :: string
  record_TokenHash :: "8 word list"
  record_ExpiresAt :: instant

record user_row =
  user_ID :: string
  user_Email :: string
  user_Verified :: bool

record challenge_json =
  Marshal :: "verificationChallenge \<Rightarrow> string result"
  Unmarshal :: "string \<Rightarrow> verificationChallenge result"

record 'r RedisEmailVerificationStore =
  store_redis :: "'r redis_commands"
  store_hmac :: "string \<Rightarrow> string \<Rightarrow> 8 word list"
  store_json :: challenge_json
  store_secret :: string
  store_prefix :: string

definition ErrInactiveToken :: string where "ErrInactiveToken = ''emailverification.ErrInactiveToken''"
definition ErrNotFound :: string where "ErrNotFound = ''emailverification.ErrNotFound''"
definition ErrInvalidRecord :: string where "ErrInvalidRecord = ''emailverification.ErrInvalidRecord''"
definition verification_ErrConflict :: string where "verification_ErrConflict = ''emailverification.ErrConflict''"

lemmas verification_errors = ErrInactiveToken_def ErrNotFound_def ErrInvalidRecord_def verification_ErrConflict_def

definition NewRedisEmailVerificationStore ::
  "bool \<Rightarrow> 'r redis_commands option \<Rightarrow> (string \<Rightarrow> string \<Rightarrow> 8 word list) \<Rightarrow> challenge_json \<Rightarrow> string \<Rightarrow> string \<Rightarrow>
   'r RedisEmailVerificationStore result" where
  "NewRedisEmailVerificationStore pool redisClient hmac json key_secret keyPrefix =
     (case (pool, redisClient) of
        (True, Some commands) \<Rightarrow>
          if length key_secret < 32
          then Inl (Errorf ''email verification key secret must contain at least 32 bytes'')
          else
            (let trimmed = TrimSpace keyPrefix;
                 chosen = (if trimmed = [] then ''consumel:auth:email-verification'' else trimmed)
             in Inr \<lparr>store_redis = commands, store_hmac = hmac, store_json = json, store_secret = key_secret,
                  store_prefix = ''{'' @ chosen @ ''}''\<rparr>)
      | _ \<Rightarrow> Inl (Errorf ''PostgreSQL pool and Redis client are required''))"

section \<open>Keys\<close>

definition userKey :: "'r RedisEmailVerificationStore \<Rightarrow> string \<Rightarrow> string" where
  "userKey store userID =
     store_prefix store @ '':user:'' @
     EncodeToString (store_hmac store (store_secret store) (''user'' @ [CHR 0x00] @ userID))"

definition proofKey :: "'r RedisEmailVerificationStore \<Rightarrow> 8 word list \<Rightarrow> string" where
  "proofKey store tokenHash = store_prefix store @ '':proof:'' @ EncodeToString tokenHash"

definition emailHash :: "'r RedisEmailVerificationStore \<Rightarrow> string \<Rightarrow> string" where
  "emailHash store email =
     EncodeToString (store_hmac store (store_secret store) (''email'' @ [CHR 0x00] @ email))"

lemma userKey_proofKey [simp]: "userKey store u \<noteq> proofKey store h" "proofKey store h \<noteq> userKey store u"
  by (simp_all add: userKey_def proofKey_def)

lemma proofKey_inj [simp]: "proofKey store h = proofKey store h' \<longleftrightarrow> h = h'"
  by (auto simp: proofKey_def dest: EncodeToString_inj)

section \<open>The scripts\<close>

text \<open>
  A \<open>SET\<close> with an expiry that is not positive fails and ends the script with an error; what the
  script did before stays done.
\<close>

definition replaceVerificationScript ::
  "'r redis_commands \<Rightarrow> 'r \<Rightarrow> string \<Rightarrow> string \<Rightarrow> string \<Rightarrow> int \<Rightarrow> 'r \<times> int result" where
  "replaceVerificationScript R r user_key proof_key challenge px =
     (if EXISTS R r proof_key then (r, Inr 0)
      else
        (let r1 = (case GET R r user_key of Some previous_proof_key \<Rightarrow> DEL R r previous_proof_key | None \<Rightarrow> r)
         in case SETPX R r1 user_key proof_key px of
              None \<Rightarrow> (r1, Inl (Errorf ''ERR invalid expire time''))
            | Some r2 \<Rightarrow>
                (case SETPX R r2 proof_key challenge px of
                   None \<Rightarrow> (r2, Inl (Errorf ''ERR invalid expire time''))
                 | Some r3 \<Rightarrow> (r3, Inr 1))))"

definition clearVerificationOwnerScript :: "'r redis_commands \<Rightarrow> 'r \<Rightarrow> string \<Rightarrow> string \<Rightarrow> 'r \<times> int" where
  "clearVerificationOwnerScript R r user_key proof_key =
     ((if GET R r user_key = Some proof_key then DEL R r user_key else r), 1)"

definition GetDel :: "'r redis_commands \<Rightarrow> string \<Rightarrow> 'r \<Rightarrow> 'r \<times> string option" where
  "GetDel R k r = ((case GET R r k of None \<Rightarrow> r | Some v \<Rightarrow> DEL R r k), GET R r k)"

section \<open>Operations\<close>

definition FindUserByEmail :: "go_error option \<Rightarrow> user_row list \<Rightarrow> string \<Rightarrow> user_row result" where
  "FindUserByEmail query_error users normalizedEmail =
     (case query_error of
        Some err \<Rightarrow> Inl err
      | None \<Rightarrow>
          (case find (\<lambda>u. user_Email u = normalizedEmail) users of
             None \<Rightarrow> Inl (Sentinel ErrNotFound)
           | Some user \<Rightarrow> Inr user))"

definition issued_challenge :: "'r RedisEmailVerificationStore \<Rightarrow> verification_record \<Rightarrow> verificationChallenge" where
  "issued_challenge store rec =
     \<lparr>UserID = record_UserID rec, EmailHash = emailHash store (record_Email rec), ExpiresAt = record_ExpiresAt rec\<rparr>"

definition Issue ::
  "'r RedisEmailVerificationStore \<Rightarrow> instant \<Rightarrow> link \<Rightarrow> 'r \<Rightarrow> verification_record \<Rightarrow> 'r \<times> go_error option" where
  "Issue store now way r rec =
     (let ttl = time_sub (record_ExpiresAt rec) now
      in if ttl \<le> 0 then (r, Some (Sentinel ErrInactiveToken))
         else
           (case Marshal (store_json store) (issued_challenge store rec) of
              Inl err \<Rightarrow> (r, Some (Wrap ''encode email verification challenge'' err))
            | Inr challenge \<Rightarrow>
                (case Eval way (\<lambda>r. replaceVerificationScript (store_redis store) r
                         (userKey store (record_UserID rec)) (proofKey store (record_TokenHash rec))
                         challenge (milliseconds ttl)) r of
                   (r', Inl err) \<Rightarrow> (r', Some (Wrap ''store email verification challenge'' err))
                 | (r', Inr (Inl err)) \<Rightarrow> (r', Some (Wrap ''store email verification challenge'' err))
                 | (r', Inr (Inr replaced)) \<Rightarrow>
                     (r', if replaced \<noteq> 1 then Some (Sentinel verification_ErrConflict) else None))))"

text \<open>The environment of one \<open>Verify\<close>: its two Redis calls and its two statements.\<close>

record verify_env =
  getdel_link :: link
  clear_link :: link
  select_error :: "go_error option"
  update_link :: link

definition mark_verified :: "user_row \<Rightarrow> user_row list \<Rightarrow> user_row list \<times> nat" where
  "mark_verified user users =
     (let hit = (\<lambda>u. user_ID u = user_ID user \<and> user_Email u = user_Email user \<and> \<not> user_Verified u)
      in (map (\<lambda>u. if hit u then u\<lparr>user_Verified := True\<rparr> else u) users, length (filter hit users)))"

definition Verify ::
  "'r RedisEmailVerificationStore \<Rightarrow> verify_env \<Rightarrow> 'r \<times> user_row list \<Rightarrow> 8 word list \<Rightarrow> instant \<Rightarrow>
   ('r \<times> user_row list) \<times> user_row result" where
  "Verify store env st tokenHash verifiedAt =
     (let (r, users) = st; proof_key = proofKey store tokenHash
      in case Eval (getdel_link env) (GetDel (store_redis store) proof_key) r of
           (r1, Inl err) \<Rightarrow> ((r1, users), Inl (Wrap ''consume email verification challenge'' err))
         | (r1, Inr None) \<Rightarrow> ((r1, users), Inl (Sentinel ErrNotFound))
         | (r1, Inr (Some encoded)) \<Rightarrow>
             (case Unmarshal (store_json store) encoded of
                Inl err \<Rightarrow> ((r1, users), Inl (Sentinel ErrInvalidRecord))
              | Inr challenge \<Rightarrow>
                  (let r2 = fst (Eval (clear_link env)
                              (\<lambda>r. clearVerificationOwnerScript (store_redis store) r
                                 (userKey store (UserID challenge)) proof_key) r1)
                   in if UserID challenge = [] \<or> EmailHash challenge = [] \<or> \<not> verifiedAt < ExpiresAt challenge
                      then ((r2, users), Inl (Sentinel ErrInactiveToken))
                      else
                        (case select_error env of
                           Some err \<Rightarrow> ((r2, users), Inl (Wrap ''load user for email verification'' err))
                         | None \<Rightarrow>
                             (case find (\<lambda>u. user_ID u = UserID challenge) users of
                                None \<Rightarrow> ((r2, users), Inl (Sentinel ErrNotFound))
                              | Some user \<Rightarrow>
                                  if user_Verified user \<or> emailHash store (user_Email user) \<noteq> EmailHash challenge
                                  then ((r2, users), Inl (Sentinel ErrInactiveToken))
                                  else
                                    (case Eval (update_link env) (mark_verified user) users of
                                       (users', Inl err) \<Rightarrow>
                                         ((r2, users'), Inl (Wrap ''mark Authlier email verified'' err))
                                     | (users', Inr affected) \<Rightarrow>
                                         if affected \<noteq> 1
                                         then ((r2, users'), Inl (Sentinel ErrInactiveToken))
                                         else ((r2, users'), Inr (user\<lparr>user_Verified := True\<rparr>))))))))"

section \<open>The JSON form of a challenge\<close>

text \<open>
  The struct's members under the names of their tags. A missing or null member leaves the zero
  value, the last one of a name counts, and other members are ignored; names are compared exactly.
\<close>

definition challenge_value :: "verificationChallenge \<Rightarrow> json" where
  "challenge_value c =
     JObject [(''userId'', JString (UserID c)), (''emailHash'', JString (EmailHash c)), (''expiresAt'', JTime (ExpiresAt c))]"

definition text_member :: "(string \<times> json) list \<Rightarrow> string \<Rightarrow> string option" where
  "text_member entries name =
     (case map_of (rev entries) name of
        None \<Rightarrow> Some []
      | Some JNull \<Rightarrow> Some []
      | Some (JString s) \<Rightarrow> Some s
      | Some _ \<Rightarrow> None)"

definition time_member :: "(string \<times> json) list \<Rightarrow> string \<Rightarrow> instant option" where
  "time_member entries name =
     (case map_of (rev entries) name of
        None \<Rightarrow> Some zero_time
      | Some JNull \<Rightarrow> Some zero_time
      | Some (JString s) \<Rightarrow> read_time s
      | Some _ \<Rightarrow> None)"

definition challenge_of :: "json option \<Rightarrow> verificationChallenge result" where
  "challenge_of v =
     (case v of
        Some JNull \<Rightarrow> Inr \<lparr>UserID = [], EmailHash = [], ExpiresAt = zero_time\<rparr>
      | Some (JObject entries) \<Rightarrow>
          (case (text_member entries ''userId'', text_member entries ''emailHash'', time_member entries ''expiresAt'') of
             (Some user, Some email, Some expires) \<Rightarrow> Inr \<lparr>UserID = user, EmailHash = email, ExpiresAt = expires\<rparr>
           | _ \<Rightarrow> Inl (Errorf ''json: cannot unmarshal''))
      | _ \<Rightarrow> Inl (Errorf ''json: cannot unmarshal''))"

definition encoding_json :: challenge_json where
  "encoding_json =
     \<lparr>Marshal = (\<lambda>c. if encodable (challenge_value c) then Inr (Go_JSON.Marshal (challenge_value c))
                    else Inl (Errorf ''json: error calling MarshalJSON for type time.Time'')),
      Unmarshal = (\<lambda>encoded. challenge_of (Go_JSON.Unmarshal encoded))\<rparr>"

text \<open>
  \<open>survives_json\<close>: if the challenge of a record can be encoded at all, decoding gives it back. The
  codec of \<open>encoding/json\<close> promises so for the records whose user id is valid UTF-8, because the
  hash is hexadecimal and an instant in the years 0 to 9999 comes back to the nanosecond.
\<close>

definition survives_json :: "'r RedisEmailVerificationStore \<Rightarrow> verification_record \<Rightarrow> bool" where
  "survives_json store rec \<longleftrightarrow>
     (case Marshal (store_json store) (issued_challenge store rec) of
        Inl err \<Rightarrow> True
      | Inr encoded \<Rightarrow> Unmarshal (store_json store) encoded = Inr (issued_challenge store rec))"

lemma survives_jsonD:
  "survives_json store rec \<Longrightarrow> Marshal (store_json store) (issued_challenge store rec) = Inr encoded \<Longrightarrow>
   Unmarshal (store_json store) encoded = Inr (issued_challenge store rec)"
  by (simp add: survives_json_def)

lemma half_byte: "unat b div 16 < 16" for b :: "8 word"
  using unsigned_less [of b, where ?'a = nat] by simp

lemma EncodeToString_ascii: "valid_text (EncodeToString bytes) = EncodeToString bytes"
proof (rule valid_text_ascii)
  have "(of_char (hex_digit n) :: nat) < 0x80" if "n < 16" for n
  proof -
    have "\<forall>n\<in>set [0..<16]. (of_char (hex_digit n) :: nat) < 0x80" by code_simp
    with that show ?thesis by simp
  qed
  then show "\<forall>c\<in>set (EncodeToString bytes). (of_char c :: nat) < 0x80"
    by (auto simp: EncodeToString_def hex_byte_def half_byte)
qed

theorem encoding_json_survives:
  assumes "store_json store = encoding_json" "valid_text (record_UserID rec) = record_UserID rec"
  shows "survives_json store rec"
proof -
  let ?c = "issued_challenge store rec"
  have keys: "valid_text ''userId'' = ''userId''" "valid_text ''emailHash'' = ''emailHash''" "valid_text ''expiresAt'' = ''expiresAt''"
    by (intro valid_ascii; simp add: ascii_def)+
  have texts: "valid_text (UserID ?c) = UserID ?c" "valid_text (EmailHash ?c) = EmailHash ?c"
    using assms(2) by (simp_all add: issued_challenge_def emailHash_def EncodeToString_ascii)
  have "challenge_of (Go_JSON.Unmarshal (Go_JSON.Marshal (challenge_value ?c))) = Inr ?c" if "encodable_time (ExpiresAt ?c)"
    unfolding Unmarshal_Marshal
    by (simp add: challenge_value_def challenge_of_def text_member_def time_member_def keys texts read_time_text [OF that]
        time_text_ascii [OF that])
  then show ?thesis by (simp add: survives_json_def assms(1) encoding_json_def challenge_value_def)
qed

section \<open>What happens to the keys\<close>

definition verification_typed :: "'r RedisEmailVerificationStore \<Rightarrow> ('r \<Rightarrow> string \<Rightarrow> redis_value option) \<Rightarrow> 'r \<Rightarrow> bool" where
  "verification_typed store kv r \<longleftrightarrow> (\<forall>h. is_str (kv r (proofKey store h))) \<and> (\<forall>u. is_str (kv r (userKey store u)))"

lemma is_str_cases: "is_str v \<Longrightarrow> v = None \<or> (\<exists>s. v = Some (Str s))"
  by (cases v; cases "the v") (auto simp: is_str_def)

lemma str_at_simps [simp]: "str_at None = None" "str_at (Some (Str s)) = Some s" "is_str None" "is_str (Some (Str s))"
  by (simp_all add: str_at_def is_str_def)

lemma str_at_Some: "str_at v = Some s \<longleftrightarrow> v = Some (Str s)"
  by (auto simp: str_at_def split: option.splits redis_value.splits)

lemma str_at_None: "is_str v \<Longrightarrow> str_at v = None \<longleftrightarrow> v = None"
  by (auto dest: is_str_cases)

context redis_keyspace
begin

lemma GetDel_view:
  assumes "is_str (kv r k)"
  shows "snd (GetDel R k r) = str_at (kv r k)" "kv (fst (GetDel R k r)) = (kv r)(k := None)"
  using assms by (auto simp: GetDel_def get del str_at_None fun_eq_iff split: option.splits)

lemma GetDel_ttl: "j \<noteq> k \<Longrightarrow> ttl (fst (GetDel R k r)) j = ttl r j"
  by (auto simp: GetDel_def del_ttl split: option.splits)

lemma clear_owner_view:
  assumes "is_str (kv r u)"
  shows "kv (fst (clearVerificationOwnerScript R r u p)) = (if kv r u = Some (Str p) then (kv r)(u := None) else kv r)"
  using assms by (auto simp: clearVerificationOwnerScript_def get del str_at_Some)

lemma clear_owner_ttl: "j \<noteq> u \<Longrightarrow> ttl (fst (clearVerificationOwnerScript R r u p)) j = ttl r j"
  by (simp add: clearVerificationOwnerScript_def del_ttl)

text \<open>\<open>Verify\<close> touches the keys only by the consumption and the owner script.\<close>

lemma Verify_keys:
  assumes "store_redis store = R"
  obtains "fst (fst (Verify store env (r, users) h t)) = fst (Eval (getdel_link env) (GetDel R (proofKey store h)) r)"
  | challenge encoded r1 where
      "Eval (getdel_link env) (GetDel R (proofKey store h)) r = (r1, Inr (Some encoded))"
      "Unmarshal (store_json store) encoded = Inr challenge"
      "fst (fst (Verify store env (r, users) h t)) =
         fst (Eval (clear_link env) (\<lambda>r. clearVerificationOwnerScript R r (userKey store (UserID challenge)) (proofKey store h)) r1)"
proof -
  obtain r1 found where eval: "Eval (getdel_link env) (GetDel R (proofKey store h)) r = (r1, found)"
    by (metis prod.exhaust)
  show ?thesis
  proof (cases found)
    case (Inl err)
    then show ?thesis by (intro that(1)) (simp add: Verify_def Let_def assms eval)
  next
    case (Inr value_found)
    show ?thesis
    proof (cases value_found)
      case None
      with Inr show ?thesis by (intro that(1)) (simp add: Verify_def Let_def assms eval)
    next
      case (Some encoded)
      show ?thesis
      proof (cases "Unmarshal (store_json store) encoded")
        case (Inl err)
        with Inr Some show ?thesis by (intro that(1)) (simp add: Verify_def Let_def assms eval)
      next
        case unm: (Inr challenge)
        have "fst (fst (Verify store env (r, users) h t)) =
         fst (Eval (clear_link env) (\<lambda>r. clearVerificationOwnerScript R r (userKey store (UserID challenge)) (proofKey store h)) r1)"
          using Inr Some unm by (simp add: Verify_def Let_def assms eval split: option.splits sum.splits prod.splits)
        with Inr Some unm eval show ?thesis by (intro that(2)) simp_all
      qed
    qed
  qed
qed

end

section \<open>One live challenge per user\<close>

text \<open>
  A challenge is owned when its user's owner key points at it and does not expire before it. In
  every state the store's operations and the passing of time reach from one without challenges,
  every live challenge is owned; so no user ever has two. The issued challenges are those that
  survive their encoding.
\<close>

definition owned ::
  "'r RedisEmailVerificationStore \<Rightarrow> ('r \<Rightarrow> string \<Rightarrow> redis_value option) \<Rightarrow> ('r \<Rightarrow> string \<Rightarrow> int option) \<Rightarrow> 'r \<Rightarrow>
   8 word list \<Rightarrow> string \<Rightarrow> bool" where
  "owned store kv ttl r h encoded \<longleftrightarrow>
     (\<exists>challenge p q. Unmarshal (store_json store) encoded = Inr challenge \<and>
        kv r (userKey store (UserID challenge)) = Some (Str (proofKey store h)) \<and>
        ttl r (proofKey store h) = Some p \<and> ttl r (userKey store (UserID challenge)) = Some q \<and> p \<le> q)"

definition challenge_inv ::
  "'r RedisEmailVerificationStore \<Rightarrow> ('r \<Rightarrow> string \<Rightarrow> redis_value option) \<Rightarrow> ('r \<Rightarrow> string \<Rightarrow> int option) \<Rightarrow> 'r \<Rightarrow> bool" where
  "challenge_inv store kv ttl r \<longleftrightarrow>
     verification_typed store kv r \<and>
     (\<forall>u v. kv r (userKey store u) = Some (Str v) \<longrightarrow> (\<exists>h. v = proofKey store h)) \<and>
     (\<forall>h v. kv r (proofKey store h) = Some (Str v) \<longrightarrow> owned store kv ttl r h v)"

inductive verification_reach ::
  "'r RedisEmailVerificationStore \<Rightarrow> ('r \<Rightarrow> string \<Rightarrow> redis_value option) \<Rightarrow> ('r \<Rightarrow> int \<Rightarrow> 'r) \<Rightarrow> 'r \<Rightarrow> bool"
  for store :: "'r RedisEmailVerificationStore" and kv and elapse
where
  empty: "(\<And>h. kv r (proofKey store h) = None) \<Longrightarrow> (\<And>u. kv r (userKey store u) = None) \<Longrightarrow>
    verification_reach store kv elapse r"
| issue: "verification_reach store kv elapse r \<Longrightarrow> survives_json store rec \<Longrightarrow>
    verification_reach store kv elapse (fst (Issue store now way r rec))"
| verify: "verification_reach store kv elapse r \<Longrightarrow>
    verification_reach store kv elapse (fst (fst (Verify store env (r, users) h t)))"
| pass: "verification_reach store kv elapse r \<Longrightarrow> 0 \<le> d \<Longrightarrow> verification_reach store kv elapse (elapse r d)"

lemma challenge_invD:
  assumes "challenge_inv store kv ttl r"
  shows "is_str (kv r (proofKey store h))" "is_str (kv r (userKey store u))"
    and "kv r (userKey store u) = Some (Str v) \<Longrightarrow> \<exists>h. v = proofKey store h"
    and "kv r (proofKey store h) = Some (Str v) \<Longrightarrow> owned store kv ttl r h v"
  using assms unfolding challenge_inv_def verification_typed_def by blast+

lemma challenge_invI:
  assumes "\<And>h. is_str (kv r (proofKey store h))" "\<And>u. is_str (kv r (userKey store u))"
    and "\<And>u v. kv r (userKey store u) = Some (Str v) \<Longrightarrow> \<exists>h. v = proofKey store h"
    and "\<And>h v. kv r (proofKey store h) = Some (Str v) \<Longrightarrow> owned store kv ttl r h v"
  shows "challenge_inv store kv ttl r"
  using assms unfolding challenge_inv_def verification_typed_def by blast

lemma owned_frame:
  assumes "owned store kv ttl r h v"
    and "ttl r' (proofKey store h) = ttl r (proofKey store h)"
    and "\<And>u. kv r (userKey store u) = Some (Str (proofKey store h)) \<Longrightarrow>
      kv r' (userKey store u) = kv r (userKey store u) \<and> ttl r' (userKey store u) = ttl r (userKey store u)"
  shows "owned store kv ttl r' h v"
proof -
  from assms(1) obtain challenge p q where o: "Unmarshal (store_json store) v = Inr challenge"
      "kv r (userKey store (UserID challenge)) = Some (Str (proofKey store h))"
      "ttl r (proofKey store h) = Some p" "ttl r (userKey store (UserID challenge)) = Some q" "p \<le> q"
    unfolding owned_def by blast
  from assms(3) [OF o(2)] o assms(2) show ?thesis
    unfolding owned_def by (intro exI [of _ challenge] exI [of _ p] exI [of _ q]) simp
qed

context redis_keyspace
begin

lemma challenge_inv_DEL:
  assumes inv: "challenge_inv store kv ttl r"
  shows "challenge_inv store kv ttl (DEL R r (proofKey store h0))"
proof (rule challenge_invI)
  show "is_str (kv (DEL R r (proofKey store h0)) (proofKey store h))" for h
    using challenge_invD(1) [OF inv] by (simp add: del)
  show "is_str (kv (DEL R r (proofKey store h0)) (userKey store u))" for u
    using challenge_invD(2) [OF inv] by simp
  show "\<exists>h. v = proofKey store h" if "kv (DEL R r (proofKey store h0)) (userKey store u) = Some (Str v)" for u v
    using that by (intro challenge_invD(3) [OF inv, of u]) simp
  fix h v
  assume "kv (DEL R r (proofKey store h0)) (proofKey store h) = Some (Str v)"
  then have "h \<noteq> h0" "kv r (proofKey store h) = Some (Str v)" by (auto simp: del split: if_splits)
  then show "owned store kv ttl (DEL R r (proofKey store h0)) h v"
    by (intro owned_frame [OF challenge_invD(4) [OF inv]]) (simp_all add: del_ttl)
qed

lemma challenge_inv_drop_previous:
  assumes inv: "challenge_inv store kv ttl r"
  shows "challenge_inv store kv ttl (case GET R r (userKey store u) of Some prev \<Rightarrow> DEL R r prev | None \<Rightarrow> r)"
proof (cases "GET R r (userKey store u)")
  case None
  with inv show ?thesis by simp
next
  case (Some prev)
  with get [OF challenge_invD(2) [OF inv, of u]] have "kv r (userKey store u) = Some (Str prev)"
    by (metis str_at_Some)
  with challenge_invD(3) [OF inv] obtain h where "prev = proofKey store h" by blast
  with challenge_inv_DEL [OF inv] Some show ?thesis by simp
qed

lemma challenge_inv_same_view:
  assumes "challenge_inv store kv ttl r" "kv r' = kv r" "ttl r' = ttl r"
  shows "challenge_inv store kv ttl r'"
  using assms by (simp add: challenge_inv_def verification_typed_def owned_def)

text \<open>The replace script stores the new challenge with its owner, after dropping the previous one.\<close>

lemma replace_script_view:
  assumes inv: "challenge_inv store kv ttl r" and px: "0 < px"
    and run: "replaceVerificationScript R r (userKey store u) (proofKey store h) encoded px = (r', reply)"
  obtains "kv r (proofKey store h) \<noteq> None" "r' = r" "reply = Inr 0"
  | r1 where "kv r (proofKey store h) = None" "reply = Inr 1" "challenge_inv store kv ttl r1"
      "\<And>g. kv r (userKey store u) = Some (Str (proofKey store g)) \<Longrightarrow> kv r1 (proofKey store g) = None"
      "kv r1 (userKey store u) = kv r (userKey store u)"
      "\<And>k. kv r1 k = None \<or> kv r1 k = kv r k"
      "kv r' = (kv r1)(userKey store u \<mapsto> Str (proofKey store h), proofKey store h \<mapsto> Str encoded)"
      "ttl r' = (ttl r1)(userKey store u \<mapsto> px, proofKey store h \<mapsto> px)"
proof (cases "kv r (proofKey store h) = None")
  case False
  with run show ?thesis by (intro that(1)) (auto simp: replaceVerificationScript_def exists)
next
  case True
  define r1 where "r1 = (case GET R r (userKey store u) of Some prev \<Rightarrow> DEL R r prev | None \<Rightarrow> r)"
  obtain r2 where r2: "SETPX R r1 (userKey store u) (proofKey store h) px = Some r2"
      "kv r2 = (kv r1)(userKey store u \<mapsto> Str (proofKey store h))" "ttl r2 = (ttl r1)(userKey store u \<mapsto> px)"
    using setpx [OF px, of r1 "userKey store u" "proofKey store h"] by blast
  obtain r3 where r3: "SETPX R r2 (proofKey store h) encoded px = Some r3"
      "kv r3 = (kv r2)(proofKey store h \<mapsto> Str encoded)" "ttl r3 = (ttl r2)(proofKey store h \<mapsto> px)"
    using setpx [OF px, of r2 "proofKey store h" encoded] by blast
  have r': "r' = r3" "reply = Inr 1"
    using run True r2(1) r3(1) by (simp_all add: replaceVerificationScript_def exists flip: r1_def)
  have owner: "GET R r (userKey store u) = str_at (kv r (userKey store u))"
    using challenge_invD(2) [OF inv] by (rule get)
  have "challenge_inv store kv ttl r1"
    unfolding r1_def using inv by (rule challenge_inv_drop_previous)
  moreover have "kv r1 (proofKey store g) = None" if "kv r (userKey store u) = Some (Str (proofKey store g))" for g
    using that by (simp add: r1_def owner del)
  moreover have "kv r1 (userKey store u) = kv r (userKey store u)"
  proof (cases "kv r (userKey store u)")
    case (Some w)
    with challenge_invD(2) [OF inv, of u] obtain x where x: "kv r (userKey store u) = Some (Str x)"
      by (auto dest: is_str_cases)
    with challenge_invD(3) [OF inv] obtain g where "x = proofKey store g" by blast
    with x show ?thesis by (simp add: r1_def owner)
  qed (simp add: r1_def owner)
  moreover have "kv r1 k = None \<or> kv r1 k = kv r k" for k
    by (auto simp: r1_def del split: option.splits)
  ultimately show ?thesis using True r' r2 r3 by (intro that(2)) simp_all
qed

lemma challenge_inv_replace:
  assumes inv: "challenge_inv store kv ttl r"
    and round_trip: "Unmarshal (store_json store) encoded = Inr challenge" "UserID challenge = u"
    and run: "replaceVerificationScript R r (userKey store u) (proofKey store h) encoded px = (r', reply)"
  shows "challenge_inv store kv ttl r'"
proof (cases "0 < px")
  case False
  then have "r' = r \<or> r' = (case GET R r (userKey store u) of Some prev \<Rightarrow> DEL R r prev | None \<Rightarrow> r)"
    using run setpx_refused by (auto simp: replaceVerificationScript_def split: if_splits)
  with inv challenge_inv_drop_previous [OF inv] show ?thesis by blast
next
  case True
  from inv True run show ?thesis
  proof (cases rule: replace_script_view)
    case 1
    with inv show ?thesis by simp
  next
    case (2 r1)
    note inv1 = challenge_invD [OF 2(3)]
    show ?thesis
    proof (rule challenge_invI)
      show "is_str (kv r' (proofKey store g))" for g
        using inv1(1) by (simp add: 2(7))
      show "is_str (kv r' (userKey store w))" for w
        using inv1(2) by (simp add: 2(7))
      show "\<exists>g. v = proofKey store g" if "kv r' (userKey store w) = Some (Str v)" for w v
      proof (cases "userKey store w = userKey store u")
        case True
        with that show ?thesis by (auto simp: 2(7))
      next
        case False
        with that show ?thesis by (intro inv1(3) [of w]) (simp add: 2(7))
      qed
      fix g v
      assume live: "kv r' (proofKey store g) = Some (Str v)"
      show "owned store kv ttl r' g v"
      proof (cases "g = h")
        case True
        with live round_trip show ?thesis by (simp add: owned_def 2(7,8))
      next
        case False
        with live have old: "kv r1 (proofKey store g) = Some (Str v)" by (simp add: 2(7))
        have "userKey store w \<noteq> userKey store u" if "kv r1 (userKey store w) = Some (Str (proofKey store g))" for w
        proof
          assume same: "userKey store w = userKey store u"
          with that have "kv r (userKey store u) = Some (Str (proofKey store g))" by (simp add: 2(5))
          from 2(4) [OF this] old show False by simp
        qed
        with False show ?thesis
          by (intro owned_frame [OF inv1(4) [OF old]]) (simp_all add: 2(7,8))
      qed
    qed
  qed
qed

lemma Issue_keys:
  assumes "store_redis store = R"
  shows "fst (Issue store now way r rec) = r \<or>
    (\<exists>encoded px. Marshal (store_json store) (issued_challenge store rec) = Inr encoded \<and>
      fst (Issue store now way r rec) =
       fst (replaceVerificationScript R r (userKey store (record_UserID rec)) (proofKey store (record_TokenHash rec)) encoded px))"
proof (cases "Marshal (store_json store) (issued_challenge store rec)")
  case (Inl err)
  then show ?thesis by (simp add: Issue_def Let_def)
next
  case (Inr encoded)
  define px where "px = milliseconds (time_sub (record_ExpiresAt rec) now)"
  obtain r' reply where script: "replaceVerificationScript R r (userKey store (record_UserID rec))
      (proofKey store (record_TokenHash rec)) encoded px = (r', reply)" by (metis prod.exhaust)
  have "fst (Issue store now way r rec) = r \<or> fst (Issue store now way r rec) = r'"
    using Inr script by (auto simp: Issue_def Let_def Eval_def assms px_def split: link.splits sum.splits)
  with Inr script show ?thesis by (metis fst_conv)
qed

lemma challenge_inv_clear:
  assumes inv: "challenge_inv store kv ttl r" and gone: "kv r (proofKey store h) = None"
  shows "challenge_inv store kv ttl (fst (clearVerificationOwnerScript R r (userKey store u) (proofKey store h)))"
    (is "challenge_inv store kv ttl ?r")
proof (rule challenge_invI)
  note view = clear_owner_view [OF challenge_invD(2) [OF inv, of u], of "proofKey store h"]
  show "is_str (kv ?r (proofKey store g))" for g
    using challenge_invD(1) [OF inv] by (simp add: view)
  show "is_str (kv ?r (userKey store w))" for w
    using challenge_invD(2) [OF inv] by (simp add: view)
  show "\<exists>g. v = proofKey store g" if "kv ?r (userKey store w) = Some (Str v)" for w v
    using that by (intro challenge_invD(3) [OF inv, of w]) (simp add: view split: if_splits)
  fix g v
  assume "kv ?r (proofKey store g) = Some (Str v)"
  then have live: "kv r (proofKey store g) = Some (Str v)" by (simp add: view split: if_splits)
  with gone have "g \<noteq> h" by auto
  have "userKey store w \<noteq> userKey store u \<or> kv r (userKey store u) \<noteq> Some (Str (proofKey store h))"
    if "kv r (userKey store w) = Some (Str (proofKey store g))" for w
    using that \<open>g \<noteq> h\<close> by auto
  then show "owned store kv ttl ?r g v"
    by (intro owned_frame [OF challenge_invD(4) [OF inv live]]) (auto simp: view clear_owner_ttl clearVerificationOwnerScript_def
        get [OF challenge_invD(2) [OF inv]] str_at_Some del_ttl)
qed

lemma challenge_inv_elapse:
  assumes inv: "challenge_inv store kv ttl r" and d: "0 \<le> d"
  shows "challenge_inv store kv ttl (elapse r d)"
proof (rule challenge_invI)
  note gone = elapse_only_removes [OF d, of r]
  show "is_str (kv (elapse r d) (proofKey store h))" for h
    using gone [of "proofKey store h"] challenge_invD(1) [OF inv] by auto
  show "is_str (kv (elapse r d) (userKey store u))" for u
    using gone [of "userKey store u"] challenge_invD(2) [OF inv] by auto
  show "\<exists>h. v = proofKey store h" if "kv (elapse r d) (userKey store u) = Some (Str v)" for u v
    using gone [of "userKey store u"] that by (intro challenge_invD(3) [OF inv, of u]) simp
  fix h v
  assume live: "kv (elapse r d) (proofKey store h) = Some (Str v)"
  with gone [of "proofKey store h"] have "kv r (proofKey store h) = Some (Str v)" by auto
  from challenge_invD(4) [OF inv this] obtain challenge p q where o: "Unmarshal (store_json store) v = Inr challenge"
      "kv r (userKey store (UserID challenge)) = Some (Str (proofKey store h))"
      "ttl r (proofKey store h) = Some p" "ttl r (userKey store (UserID challenge)) = Some q" "p \<le> q"
    unfolding owned_def by blast
  from live o(3) have "d < p" by (auto simp: elapsed [OF d] split: if_splits)
  with o have "ttl (elapse r d) (proofKey store h) = Some (p - d)" "ttl (elapse r d) (userKey store (UserID challenge)) = Some (q - d)"
      "kv (elapse r d) (userKey store (UserID challenge)) = Some (Str (proofKey store h))"
    by (simp_all add: elapsed_ttl [OF d] elapsed [OF d])
  with o show "owned store kv ttl (elapse r d) h v" unfolding owned_def by fastforce
qed

lemma challenge_inv_verify:
  assumes lim: "store_redis store = R" and inv: "challenge_inv store kv ttl r"
  shows "challenge_inv store kv ttl (fst (fst (Verify store env (r, users) h t)))"
proof -
  have typed: "is_str (kv r (proofKey store h))" using challenge_invD(1) [OF inv] .
  have consumed: "challenge_inv store kv ttl (fst (GetDel R (proofKey store h) r))"
    using inv challenge_inv_DEL [OF inv, of h] by (auto simp: GetDel_def split: option.splits)
  show ?thesis
  proof (rule Verify_keys [OF lim, of env r users h t])
    assume "fst (fst (Verify store env (r, users) h t)) = fst (Eval (getdel_link env) (GetDel R (proofKey store h)) r)"
    with inv consumed show ?thesis by (simp add: Eval_fst split: link.splits)
  next
    fix challenge encoded r1
    assume "Eval (getdel_link env) (GetDel R (proofKey store h)) r = (r1, Inr (Some encoded))"
      and end_state: "fst (fst (Verify store env (r, users) h t)) = fst (Eval (clear_link env)
        (\<lambda>r. clearVerificationOwnerScript R r (userKey store (UserID challenge)) (proofKey store h)) r1)"
    then have r1: "r1 = fst (GetDel R (proofKey store h) r)" by (simp add: Eval_Inr)
    then have "kv r1 (proofKey store h) = None" using GetDel_view(2) [OF typed] by simp
    with challenge_inv_clear [OF consumed, of h "UserID challenge"] consumed r1 end_state show ?thesis
      by (simp add: Eval_fst split: link.splits)
  qed
qed

lemma challenge_inv_issue:
  assumes lim: "store_redis store = R" and inv: "challenge_inv store kv ttl r"
    and json: "survives_json store rec"
  shows "challenge_inv store kv ttl (fst (Issue store now way r rec))"
  using Issue_keys [OF lim, of now way r rec]
proof (elim disjE exE conjE)
  fix encoded px
  assume enc: "Marshal (store_json store) (issued_challenge store rec) = Inr encoded"
    and end_state: "fst (Issue store now way r rec) =
      fst (replaceVerificationScript R r (userKey store (record_UserID rec)) (proofKey store (record_TokenHash rec)) encoded px)"
  obtain r' reply where run: "replaceVerificationScript R r (userKey store (record_UserID rec))
      (proofKey store (record_TokenHash rec)) encoded px = (r', reply)" by (metis prod.exhaust)
  from challenge_inv_replace [OF inv survives_jsonD [OF json enc] _ run] show ?thesis
    by (simp add: end_state run issued_challenge_def)
qed (simp add: inv)

lemma challenge_inv_reach:
  assumes lim: "store_redis store = R"
    and reach: "verification_reach store kv elapse r"
  shows "challenge_inv store kv ttl r"
  using reach
proof induction
  case (empty r)
  then show ?case by (intro challenge_invI) simp_all
next
  case (issue r rec now way)
  then show ?case using challenge_inv_issue [OF lim] by blast
next
  case (verify r env users h t)
  then show ?case using challenge_inv_verify [OF lim] by blast
next
  case (pass r d)
  then show ?case using challenge_inv_elapse by blast
qed

section \<open>Verifying\<close>

lemma Verify_only_removes:
  assumes lim: "store_redis store = R" and typed: "verification_typed store kv r"
  shows "kv (fst (fst (Verify store env (r, users) h t))) k = None \<or>
    kv (fst (fst (Verify store env (r, users) h t))) k = kv r k"
proof -
  have proof_str: "is_str (kv r (proofKey store h))" using typed by (simp add: verification_typed_def)
  note view = GetDel_view(2) [OF proof_str]
  show ?thesis
  proof (rule Verify_keys [OF lim, of env r users h t])
    assume "fst (fst (Verify store env (r, users) h t)) = fst (Eval (getdel_link env) (GetDel R (proofKey store h)) r)"
    with view show ?thesis by (simp add: Eval_fst split: link.splits)
  next
    fix challenge encoded r1
    assume "Eval (getdel_link env) (GetDel R (proofKey store h)) r = (r1, Inr (Some encoded))"
      and end_state: "fst (fst (Verify store env (r, users) h t)) = fst (Eval (clear_link env)
        (\<lambda>r. clearVerificationOwnerScript R r (userKey store (UserID challenge)) (proofKey store h)) r1)"
    then have "r1 = fst (GetDel R (proofKey store h) r)" by (simp add: Eval_Inr)
    then have r1: "kv r1 = (kv r)(proofKey store h := None)" using view by simp
    then have "is_str (kv r1 (userKey store (UserID challenge)))" using typed by (simp add: verification_typed_def)
    from clear_owner_view [OF this, of "proofKey store h"] r1 end_state show ?thesis
      by (simp add: Eval_fst split: link.splits)
  qed
qed

lemma Verify_typed:
  assumes "store_redis store = R" "verification_typed store kv r"
  shows "verification_typed store kv (fst (fst (Verify store env (r, users) h t)))"
  using assms Verify_only_removes [OF assms, of env users h t]
  unfolding verification_typed_def by (metis str_at_simps(3))

lemma elapse_verification_typed: "verification_typed store kv r \<Longrightarrow> 0 \<le> d \<Longrightarrow> verification_typed store kv (elapse r d)"
  using elapse_only_removes unfolding verification_typed_def by (metis str_at_simps(3))

lemma Verify_success:
  assumes lim: "store_redis store = R" and typed: "verification_typed store kv r"
    and run: "Verify store env (r, users) h t = ((r', users'), Inr user)"
  obtains encoded challenge row where
    "kv r (proofKey store h) = Some (Str encoded)" "kv r' (proofKey store h) = None"
    "Unmarshal (store_json store) encoded = Inr challenge" "t < ExpiresAt challenge"
    "find (\<lambda>u. user_ID u = UserID challenge) users = Some row" "\<not> user_Verified row"
    "emailHash store (user_Email row) = EmailHash challenge"
    "mark_verified row users = (users', 1)" "user = row\<lparr>user_Verified := True\<rparr>"
proof -
  have proof_str: "is_str (kv r (proofKey store h))" using typed by (simp add: verification_typed_def)
  obtain r1 encoded where eval: "Eval (getdel_link env) (GetDel R (proofKey store h)) r = (r1, Inr (Some encoded))"
    using run lim by (fastforce simp: Verify_def Let_def split: sum.splits option.splits prod.splits)
  then have get: "getdel_link env = Answered" "GetDel R (proofKey store h) r = (r1, Some encoded)"
    by (auto simp: Eval_Inr)
  with GetDel_view [OF proof_str] have r1: "str_at (kv r (proofKey store h)) = Some encoded"
      "kv r1 = (kv r)(proofKey store h := None)" by simp_all
  obtain challenge where unm: "Unmarshal (store_json store) encoded = Inr challenge"
    using run eval lim by (auto simp: Verify_def Let_def split: sum.splits)
  define r2 where "r2 = fst (Eval (clear_link env)
      (\<lambda>r. clearVerificationOwnerScript R r (userKey store (UserID challenge)) (proofKey store h)) r1)"
  have "is_str (kv r1 (userKey store (UserID challenge)))" using typed by (simp add: r1 verification_typed_def)
  from clear_owner_view [OF this, of "proofKey store h"] have r2: "kv r2 (proofKey store h) = None"
    by (simp add: r2_def Eval_fst r1 split: link.splits)
  have "\<exists>row. r' = r2 \<and> t < ExpiresAt challenge \<and> find (\<lambda>u. user_ID u = UserID challenge) users = Some row \<and>
      \<not> user_Verified row \<and> emailHash store (user_Email row) = EmailHash challenge \<and>
      mark_verified row users = (users', 1) \<and> user = row\<lparr>user_Verified := True\<rparr>"
    using run eval unm lim
    by (auto simp: Verify_def Let_def Eval_Inr simp flip: r2_def split: if_splits option.splits sum.splits prod.splits)
  with that r1(1) unm r2 show ?thesis by (auto simp: str_at_Some)
qed

end

text \<open>A run of verifications, with time passing and the user table changing in between.\<close>

fun verify_run ::
  "'r RedisEmailVerificationStore \<Rightarrow> ('r \<Rightarrow> int \<Rightarrow> 'r) \<Rightarrow> 'r \<Rightarrow>
   (int \<times> verify_env \<times> user_row list \<times> 8 word list \<times> instant) list \<Rightarrow> (8 word list \<times> user_row result) list" where
  "verify_run store elapse r [] = []"
| "verify_run store elapse r ((d, env, users, h, t) # calls) =
     (case Verify store env (elapse r d, users) h t of
        ((r', users'), res) \<Rightarrow> (h, res) # verify_run store elapse r' calls)"

context redis_keyspace
begin

lemma verify_run_gone:
  assumes lim: "store_redis store = R"
  shows "verification_typed store kv r \<Longrightarrow> kv r (proofKey store h) = None \<Longrightarrow> \<forall>(d, c)\<in>set calls. 0 \<le> d \<Longrightarrow>
    filter (\<lambda>(h', res). h' = h \<and> \<not> isl res) (verify_run store elapse r calls) = []"
proof (induction calls arbitrary: r)
  case (Cons c calls)
  obtain d env users h' t where c: "c = (d, env, users, h', t)" by (metis prod.exhaust)
  obtain r' users' res where run: "Verify store env (elapse r d, users) h' t = ((r', users'), res)"
    by (metis prod.exhaust)
  have d: "0 \<le> d" using Cons.prems(3) c by auto
  have typed: "verification_typed store kv (elapse r d)" using elapse_verification_typed [OF Cons.prems(1) d] .
  have gone: "kv (elapse r d) (proofKey store h) = None"
    using elapse_only_removes [OF d, of r "proofKey store h"] Cons.prems(2) by auto
  have "isl res" if "h' = h"
  proof (rule ccontr)
    assume "\<not> isl res"
    then obtain u where "res = Inr u" by (cases res) auto
    with run have "Verify store env (elapse r d, users) h' t = ((r', users'), Inr u)" by simp
    from Verify_success [OF lim typed this] gone that show False by auto
  qed
  moreover have "verification_typed store kv r'" "kv r' (proofKey store h) = None"
    using Verify_typed [OF lim typed, of env users h' t] Verify_only_removes [OF lim typed, of env users h' t "proofKey store h"]
      gone by (auto simp: run)
  ultimately show ?case using Cons.IH [of r'] Cons.prems(3) by (auto simp: c run)
qed simp

lemma verify_run_single_use:
  assumes lim: "store_redis store = R"
  shows "verification_typed store kv r \<Longrightarrow> \<forall>(d, c)\<in>set calls. 0 \<le> d \<Longrightarrow>
    length (filter (\<lambda>(h', res). h' = h \<and> \<not> isl res) (verify_run store elapse r calls)) \<le> 1"
proof (induction calls arbitrary: r)
  case (Cons c calls)
  obtain d env users h' t where c: "c = (d, env, users, h', t)" by (metis prod.exhaust)
  obtain r' users' res where run: "Verify store env (elapse r d, users) h' t = ((r', users'), res)"
    by (metis prod.exhaust)
  have d: "0 \<le> d" and later: "\<forall>(d, c)\<in>set calls. 0 \<le> d" using Cons.prems(2) c by auto
  have typed: "verification_typed store kv (elapse r d)" using elapse_verification_typed [OF Cons.prems(1) d] .
  have typed': "verification_typed store kv r'"
    using Verify_typed [OF lim typed, of env users h' t] by (simp add: run)
  have out: "verify_run store elapse r (c # calls) = (h', res) # verify_run store elapse r' calls"
    by (simp add: c run)
  show ?case
  proof (cases "h' = h \<and> \<not> isl res")
    case True
    then obtain u where "res = Inr u" by (cases res) auto
    with run True have "Verify store env (elapse r d, users) h t = ((r', users'), Inr u)" by simp
    from Verify_success [OF lim typed this] have "kv r' (proofKey store h) = None" by blast
    from verify_run_gone [OF lim typed' this later] show ?thesis by (simp only: out) simp
  next
    case False
    with Cons.IH [OF typed' later] show ?thesis by (auto simp: c run)
  qed
qed simp

lemma Issue_success:
  assumes lim: "store_redis store = R" and inv: "challenge_inv store kv ttl r"
    and run: "Issue store now way r rec = (r', None)"
  obtains encoded px where "px = milliseconds (time_sub (record_ExpiresAt rec) now)" "0 < px" "way = Answered"
    "Marshal (store_json store) (issued_challenge store rec) = Inr encoded"
    "kv r (proofKey store (record_TokenHash rec)) = None"
    "kv r' (proofKey store (record_TokenHash rec)) = Some (Str encoded)"
    "ttl r' (proofKey store (record_TokenHash rec)) = Some px"
    "\<And>g. kv r (userKey store (record_UserID rec)) = Some (Str (proofKey store g)) \<Longrightarrow>
       g \<noteq> record_TokenHash rec \<Longrightarrow> kv r' (proofKey store g) = None"
proof -
  define px where "px = milliseconds (time_sub (record_ExpiresAt rec) now)"
  obtain encoded where enc: "Marshal (store_json store) (issued_challenge store rec) = Inr encoded"
    using run by (auto simp: Issue_def Let_def split: if_splits sum.splits)
  obtain reply where script: "replaceVerificationScript R r (userKey store (record_UserID rec))
      (proofKey store (record_TokenHash rec)) encoded px = (r', reply)" "way = Answered" "reply = Inr 1"
    using run enc lim
    by (auto simp: Issue_def Let_def px_def Eval_Inr split: if_splits sum.splits prod.splits)
  have px: "0 < px"
  proof (rule ccontr)
    assume "\<not> 0 < px"
    with script show False by (auto simp: replaceVerificationScript_def setpx_refused Let_def split: if_splits option.splits)
  qed
  from inv px script(1) show ?thesis
  proof (cases rule: replace_script_view)
    case 1
    with script(3) show ?thesis by simp
  next
    case (2 r1)
    show ?thesis
      by (rule that [OF px_def px script(2) enc 2(1)]) (use 2(4) in \<open>auto simp: 2(7,8)\<close>)
  qed
qed

end


lemma marked_once:
  assumes "distinct (map user_ID users)" "row \<in> set users" "\<not> user_Verified row"
  shows "find (\<lambda>u. user_ID u = user_ID row) users = Some row"
    and "snd (mark_verified row users) = 1"
    and "fst (mark_verified row users) = map (\<lambda>u. if u = row then u\<lparr>user_Verified := True\<rparr> else u) users"
proof -
  have same: "u = row" if "u \<in> set users" "user_ID u = user_ID row" for u
    using distinct_map_inj [OF assms(1) that(1) assms(2) that(2)] .
  show "find (\<lambda>u. user_ID u = user_ID row) users = Some row"
  proof (cases "find (\<lambda>u. user_ID u = user_ID row) users")
    case None
    with assms(2) show ?thesis by (auto simp: find_None_iff)
  next
    case (Some u)
    then have "u \<in> set users" "user_ID u = user_ID row" by (auto simp: find_Some_iff)
    with same Some show ?thesis by simp
  qed
  have hit: "user_ID u = user_ID row \<and> user_Email u = user_Email row \<and> \<not> user_Verified u \<longleftrightarrow> u = row"
    if "u \<in> set users" for u
    using same that assms(3) by auto
  then have "filter (\<lambda>u. user_ID u = user_ID row \<and> user_Email u = user_Email row \<and> \<not> user_Verified u) users =
      filter (\<lambda>u. u = row) users"
    by (intro filter_cong) auto
  also have "length \<dots> = 1"
  proof -
    have "distinct users" using assms(1) by (simp add: distinct_map)
    with assms(2) show ?thesis by (induction users) (auto simp: filter_empty_conv)
  qed
  finally show "snd (mark_verified row users) = 1" by (simp add: mark_verified_def)
  show "fst (mark_verified row users) = map (\<lambda>u. if u = row then u\<lparr>user_Verified := True\<rparr> else u) users"
    unfolding mark_verified_def Let_def fst_conv using hit by (intro map_cong) auto
qed

context redis_keyspace
begin

lemma verify_after_issue:
  assumes lim: "store_redis store = R" and inv: "challenge_inv store kv ttl r"
    and json: "survives_json store rec"
    and run: "Issue store now way r rec = (r', None)"
    and d: "0 \<le> d" "d < milliseconds (time_sub (record_ExpiresAt rec) now)"
    and env: "getdel_link env = Answered" "select_error env = None" "update_link env = Answered"
    and user: "distinct (map user_ID users)" "row \<in> set users" "\<not> user_Verified row"
      "user_ID row = record_UserID rec" "user_Email row = record_Email rec" "record_UserID rec \<noteq> []"
      "emailHash store (record_Email rec) \<noteq> []"
    and time: "t < record_ExpiresAt rec"
  shows "snd (Verify store env (elapse r' d, users) (record_TokenHash rec) t) = Inr (row\<lparr>user_Verified := True\<rparr>)"
    and "snd (fst (Verify store env (elapse r' d, users) (record_TokenHash rec) t)) =
      map (\<lambda>u. if u = row then u\<lparr>user_Verified := True\<rparr> else u) users"
proof -
  let ?k = "proofKey store (record_TokenHash rec)"
  obtain encoded where enc: "Marshal (store_json store) (issued_challenge store rec) = Inr encoded"
      "kv r' ?k = Some (Str encoded)" "ttl r' ?k = Some (milliseconds (time_sub (record_ExpiresAt rec) now))"
    by (rule Issue_success [OF lim inv run]) auto
  have live: "kv (elapse r' d) ?k = Some (Str encoded)" using enc d by (simp add: elapsed)
  then have "is_str (kv (elapse r' d) ?k)" by simp
  note get = GetDel_view [OF this]
  obtain r1 where r1: "GetDel R ?k (elapse r' d) = (r1, Some encoded)"
    using get(1) live by (cases "GetDel R ?k (elapse r' d)") simp
  note marked = marked_once [OF user(1-3)]
  obtain users' where mark: "mark_verified row users = (users', 1)"
    using marked(2) by (cases "mark_verified row users") simp
  note simps = Verify_def Let_def Eval_def env lim r1 survives_jsonD [OF json enc(1)] issued_challenge_def user marked(1) [unfolded user(4)] mark time
  show "snd (Verify store env (elapse r' d, users) (record_TokenHash rec) t) = Inr (row\<lparr>user_Verified := True\<rparr>)"
    by (simp add: simps)
  show "snd (fst (Verify store env (elapse r' d, users) (record_TokenHash rec) t)) =
      map (\<lambda>u. if u = row then u\<lparr>user_Verified := True\<rparr> else u) users"
    using marked(3) by (simp add: simps)
qed

end

section \<open>The verification store's properties\<close>

text \<open>A store over the in-memory keyspace with one challenge, for evaluating runs.\<close>

definition sample_challenge :: "string \<Rightarrow> verificationChallenge" where
  "sample_challenge u = \<lparr>UserID = u, EmailHash = ''62'', ExpiresAt = 5000000000\<rparr>"

definition sample_codec :: challenge_json where
  "sample_codec =
     \<lparr>Marshal = (\<lambda>c. if c = sample_challenge ''u'' then Inr ''{u}''
                     else if c = sample_challenge ''w'' then Inr ''{w}'' else Inl (Errorf ''json'')),
      Unmarshal = (\<lambda>s. if s = ''{u}'' then Inr (sample_challenge ''u'')
                       else if s = ''{w}'' then Inr (sample_challenge ''w'') else Inl (Errorf ''json''))\<rparr>"

definition sample_verification :: "mem_redis RedisEmailVerificationStore" where
  "sample_verification =
     \<lparr>store_redis = mem_commands, store_hmac = (\<lambda>k m. [of_char (last m)]), store_json = sample_codec,
      store_secret = ''k'', store_prefix = ''{p}''\<rparr>"

definition sample_record :: "string \<Rightarrow> 8 word \<Rightarrow> verification_record" where
  "sample_record u n =
     \<lparr>record_UserID = u, record_Email = ''a@b'', record_TokenHash = [n], record_ExpiresAt = 5000000000\<rparr>"

definition sample_users :: "user_row list" where
  "sample_users = [\<lparr>user_ID = ''u'', user_Email = ''a@b'', user_Verified = False\<rparr>]"

definition sample_verify_env :: verify_env where
  "sample_verify_env = \<lparr>getdel_link = Answered, clear_link = Answered, select_error = None, update_link = Answered\<rparr>"

definition sample_issued :: mem_redis where
  "sample_issued = fst (Issue sample_verification 0 Answered [] (sample_record ''u'' 1))"

lemma sample_issue: "Issue sample_verification 0 Answered [] (sample_record ''u'' 1) = (sample_issued, None)"
proof -
  have "snd (Issue sample_verification 0 Answered [] (sample_record ''u'' 1)) = None" by code_simp
  then show ?thesis by (simp add: sample_issued_def prod_eq_iff)
qed

lemma sample_json: "survives_json sample_verification rec"
  by (simp add: survives_json_def sample_verification_def sample_codec_def)

text \<open>The same store with the codec of \<open>encoding/json\<close>.\<close>

definition coded_verification :: "mem_redis RedisEmailVerificationStore" where
  "coded_verification = sample_verification\<lparr>store_json := encoding_json\<rparr>"

definition coded_text :: "string \<Rightarrow> 8 word \<Rightarrow> string" where
  "coded_text u n = Go_JSON.Marshal (challenge_value (issued_challenge coded_verification (sample_record u n)))"

definition coded_issued :: mem_redis where
  "coded_issued = fst (Issue coded_verification 0 Answered [] (sample_record ''u'' 1))"

definition coded_issued_twice :: mem_redis where
  "coded_issued_twice = fst (Issue coded_verification 0 Answered coded_issued (sample_record ''w'' 2))"

lemma coded_json: "ascii u \<Longrightarrow> survives_json coded_verification (sample_record u n)"
  by (intro encoding_json_survives) (simp_all add: coded_verification_def sample_record_def valid_ascii)

lemma coded_names: "ascii ''u''" "ascii ''w''"
  by (simp_all add: ascii_def)

lemma coded_issue:
  "Issue coded_verification 0 Answered r (sample_record u n) =
     (case replaceVerificationScript mem_commands r (userKey sample_verification u) (proofKey sample_verification [n])
             (coded_text u n) 5000 of
        (r', Inl err) \<Rightarrow> (r', Some (Wrap ''store email verification challenge'' err))
      | (r', Inr replaced) \<Rightarrow> (r', if replaced \<noteq> 1 then Some (Sentinel verification_ErrConflict) else None))"
proof -
  have "encodable (challenge_value (issued_challenge coded_verification (sample_record u n)))"
    by (simp add: challenge_value_def issued_challenge_def sample_record_def encodable_time_def second_def)
  then have "Marshal (store_json coded_verification) (issued_challenge coded_verification (sample_record u n)) = Inr (coded_text u n)"
    by (simp add: coded_verification_def encoding_json_def coded_text_def)
  moreover have "time_sub (record_ExpiresAt (sample_record u n)) 0 = 5000000000"
    "milliseconds 5000000000 = 5000"
    by (simp_all add: sample_record_def) code_simp+
  moreover have "userKey coded_verification u = userKey sample_verification u"
    "proofKey coded_verification [n] = proofKey sample_verification [n]"
    "store_redis coded_verification = mem_commands" for u
    by (simp_all add: coded_verification_def userKey_def proofKey_def sample_verification_def)
  ultimately show ?thesis
    by (simp add: Issue_def Eval_def sample_record_def split: prod.split sum.split)
qed

definition coded_once :: "string \<Rightarrow> mem_redis" where
  "coded_once x = fst (replaceVerificationScript mem_commands [] (userKey sample_verification ''u'')
     (proofKey sample_verification [1]) x 5000)"

definition coded_twice :: "string \<Rightarrow> string \<Rightarrow> mem_redis" where
  "coded_twice x y = fst (replaceVerificationScript mem_commands (coded_once x) (userKey sample_verification ''w'')
     (proofKey sample_verification [2]) y 5000)"

lemma coded_scripts:
  "replaceVerificationScript mem_commands [] (userKey sample_verification ''u'') (proofKey sample_verification [1]) x 5000 =
     (coded_once x, Inr 1)"
  "replaceVerificationScript mem_commands (coded_once x) (userKey sample_verification ''w'') (proofKey sample_verification [2])
     y 5000 = (coded_twice x y, Inr 1)"
  "GET mem_commands (coded_twice x y) (proofKey sample_verification [1]) = Some x"
  "GET mem_commands (coded_twice x y) (proofKey sample_verification [2]) = Some y"
  by code_simp+

lemma coded_issues:
  "Issue coded_verification 0 Answered [] (sample_record ''u'' 1) = (coded_issued, None)"
  "coded_issued = coded_once (coded_text ''u'' 1)"
  "coded_issued_twice = coded_twice (coded_text ''u'' 1) (coded_text ''w'' 2)"
  by (simp_all add: coded_issued_def coded_issued_twice_def coded_issue coded_scripts)

lemma coded_store: "store_redis coded_verification = mem_commands" "proofKey coded_verification h = proofKey sample_verification h"
  by (simp_all add: coded_verification_def sample_verification_def proofKey_def)

lemma coded_inv: "challenge_inv coded_verification mem_kv mem_ttl []"
  by (intro challenge_invI) (simp_all add: mem_kv_def)

lemma sample_redis: "store_redis sample_verification = mem_commands"
  by (simp add: sample_verification_def)

lemma sample_inv: "challenge_inv sample_verification mem_kv mem_ttl []"
  by (intro challenge_invI) (simp_all add: mem_kv_def)

text \<open>
  C14. One live challenge per user: in every state the store's operations and the passing of time
  reach from one without challenges, whatever fails on the way, two live challenges with different tokens
  belong to users with different owner keys, so to different users. The challenges issued on the way
  are such that decoding their JSON gives them back, which \<open>encoding/json\<close> does when the user's id is
  valid UTF-8 (\<open>encoding_json_survives\<close>).
\<close>

theorem one_live_challenge_per_user:
  assumes "redis_keyspace R kv ttl elapse" "store_redis store = R"
    and "verification_reach store kv elapse r"
    and "kv r (proofKey store h) = Some (Str v)" "kv r (proofKey store h') = Some (Str v')" "h \<noteq> h'"
  shows "\<exists>c c'. Unmarshal (store_json store) v = Inr c \<and> Unmarshal (store_json store) v' = Inr c' \<and>
    userKey store (UserID c) \<noteq> userKey store (UserID c') \<and> UserID c \<noteq> UserID c'"
proof -
  have inv: "challenge_inv store kv ttl r"
    using redis_keyspace.challenge_inv_reach [OF assms(1-3)] .
  from challenge_invD(4) [OF inv assms(4)] challenge_invD(4) [OF inv assms(5)]
  obtain c c' where c: "Unmarshal (store_json store) v = Inr c" "Unmarshal (store_json store) v' = Inr c'"
      "kv r (userKey store (UserID c)) = Some (Str (proofKey store h))"
      "kv r (userKey store (UserID c')) = Some (Str (proofKey store h'))"
    unfolding owned_def by blast
  with assms(6) have "userKey store (UserID c) \<noteq> userKey store (UserID c')" by auto
  with c show ?thesis by auto
qed

theorem one_live_challenge_per_user_witness:
  "\<exists>c c'. Unmarshal encoding_json (coded_text ''u'' 1) = Inr c \<and> Unmarshal encoding_json (coded_text ''w'' 2) = Inr c' \<and>
    userKey coded_verification (UserID c) \<noteq> userKey coded_verification (UserID c') \<and> UserID c \<noteq> UserID c'"
proof -
  have reach: "verification_reach coded_verification mem_kv mem_elapse coded_issued_twice"
    unfolding coded_issued_twice_def coded_issued_def
    by (intro verification_reach.issue verification_reach.empty) (simp_all add: mem_kv_def coded_json coded_names)
  note str = challenge_invD(1) [OF mem.challenge_inv_reach [OF coded_store(1) reach]]
  have "GET mem_commands coded_issued_twice (proofKey coded_verification [1]) = Some (coded_text ''u'' 1)"
    "GET mem_commands coded_issued_twice (proofKey coded_verification [2]) = Some (coded_text ''w'' 2)"
    by (simp_all only: coded_issues(3) coded_store(2) coded_scripts)
  then have "mem_kv coded_issued_twice (proofKey coded_verification [1]) = Some (Str (coded_text ''u'' 1))"
    "mem_kv coded_issued_twice (proofKey coded_verification [2]) = Some (Str (coded_text ''w'' 2))"
    by (simp_all only: mem.get [OF str] str_at_Some)
  from one_live_challenge_per_user [OF mem.redis_keyspace_axioms coded_store(1) reach this]
  show ?thesis by (simp add: coded_verification_def)
qed

text \<open>
  C15. A token works once: in any run of verifications, with time passing and the user table
  changing between them and with lost requests and replies, at most one verification of a token succeeds.
\<close>

theorem tokens_are_single_use:
  assumes "redis_keyspace R kv ttl elapse" "store_redis store = R"
    and "verification_typed store kv r" "\<forall>(d, c)\<in>set calls. 0 \<le> d"
  shows "length (filter (\<lambda>(h', res). h' = h \<and> \<not> isl res) (verify_run store elapse r calls)) \<le> 1"
  using redis_keyspace.verify_run_single_use [OF assms] .

definition sample_verifications :: "(int \<times> verify_env \<times> user_row list \<times> 8 word list \<times> instant) list" where
  "sample_verifications = [(10, sample_verify_env, sample_users, [1], 20), (10, sample_verify_env, sample_users, [1], 30)]"

theorem tokens_are_single_use_witness:
  "length (filter (\<lambda>(h', res). h' = [1] \<and> \<not> isl res)
     (verify_run sample_verification mem_elapse sample_issued sample_verifications)) \<le> 1 \<and>
   map (isl \<circ> snd) (verify_run sample_verification mem_elapse sample_issued sample_verifications) = [False, True]"
proof
  have "challenge_inv sample_verification mem_kv mem_ttl sample_issued"
    unfolding sample_issued_def by (rule mem.challenge_inv_issue [OF sample_redis sample_inv sample_json])
  then have "verification_typed sample_verification mem_kv sample_issued" by (simp add: challenge_inv_def)
  moreover have "\<forall>(d, c)\<in>set sample_verifications. 0 \<le> d" by (simp add: sample_verifications_def)
  ultimately show "length (filter (\<lambda>(h', res). h' = [1] \<and> \<not> isl res)
     (verify_run sample_verification mem_elapse sample_issued sample_verifications)) \<le> 1"
    by (rule tokens_are_single_use [OF mem.redis_keyspace_axioms sample_redis])
  show "map (isl \<circ> snd) (verify_run sample_verification mem_elapse sample_issued sample_verifications) = [False, True]"
    by code_simp
qed

text \<open>
  C16. A success is justified: \<open>Verify\<close> returns a user only if Redis held an unexpired challenge
  for the token, that user's row was there, unverified, with the email the challenge was issued
  for, and the update marked exactly that one row; the challenge is gone afterwards.
\<close>

theorem verify_success_is_justified:
  assumes "redis_keyspace R kv ttl elapse" "store_redis store = R" "verification_typed store kv r"
    and "Verify store env (r, users) h t = ((r', users'), Inr user)"
  shows "\<exists>encoded challenge row. kv r (proofKey store h) = Some (Str encoded) \<and>
    Unmarshal (store_json store) encoded = Inr challenge \<and> t < ExpiresAt challenge \<and>
    row \<in> set users \<and> user_ID row = UserID challenge \<and> \<not> user_Verified row \<and>
    emailHash store (user_Email row) = EmailHash challenge \<and>
    mark_verified row users = (users', 1) \<and> user = row\<lparr>user_Verified := True\<rparr> \<and>
    kv r' (proofKey store h) = None"
proof (rule redis_keyspace.Verify_success [OF assms])
  fix encoded challenge row
  assume *: "kv r (proofKey store h) = Some (Str encoded)" "kv r' (proofKey store h) = None"
    "Unmarshal (store_json store) encoded = Inr challenge" "t < ExpiresAt challenge"
    "find (\<lambda>u. user_ID u = UserID challenge) users = Some row" "\<not> user_Verified row"
    "emailHash store (user_Email row) = EmailHash challenge"
    "mark_verified row users = (users', 1)" "user = row\<lparr>user_Verified := True\<rparr>"
  from *(5) have "row \<in> set users" "user_ID row = UserID challenge" by (auto simp: find_Some_iff)
  with * show ?thesis by blast
qed

lemma sample_verified:
  "snd (Verify sample_verification sample_verify_env (sample_issued, sample_users) [1] 20) =
     Inr \<lparr>user_ID = ''u'', user_Email = ''a@b'', user_Verified = True\<rparr>"
  by code_simp

theorem verify_success_is_justified_witness:
  "\<exists>encoded challenge. mem_kv sample_issued (proofKey sample_verification [1]) = Some (Str encoded) \<and>
    Unmarshal (store_json sample_verification) encoded = Inr challenge \<and> 20 < ExpiresAt challenge"
proof -
  obtain r' users' where run: "Verify sample_verification sample_verify_env (sample_issued, sample_users) [1] 20 =
      ((r', users'), Inr \<lparr>user_ID = ''u'', user_Email = ''a@b'', user_Verified = True\<rparr>)"
    using sample_verified by (metis prod.exhaust snd_conv)
  have "challenge_inv sample_verification mem_kv mem_ttl sample_issued"
    unfolding sample_issued_def by (rule mem.challenge_inv_issue [OF sample_redis sample_inv sample_json])
  then have "verification_typed sample_verification mem_kv sample_issued" by (simp add: challenge_inv_def)
  from verify_success_is_justified [OF mem.redis_keyspace_axioms sample_redis this run] show ?thesis by blast
qed

text \<open>
  C17. An issued token works: after a successful \<open>Issue\<close> of a challenge that decoding its JSON gives
  back (so of one for a user id that is valid UTF-8), a verification of that token within the
  challenge's lifetime, with the user's row still there, unverified and under the same email, succeeds
  and marks that row and no other.
\<close>

theorem issued_token_verifies:
  assumes "redis_keyspace R kv ttl elapse" "store_redis store = R" "challenge_inv store kv ttl r"
    and "survives_json store rec"
    and "Issue store now way r rec = (r', None)"
    and "0 \<le> d" "d < milliseconds (time_sub (record_ExpiresAt rec) now)"
    and "getdel_link env = Answered" "select_error env = None" "update_link env = Answered"
    and "distinct (map user_ID users)" "row \<in> set users" "\<not> user_Verified row"
    and "user_ID row = record_UserID rec" "user_Email row = record_Email rec" "record_UserID rec \<noteq> []"
    and "emailHash store (record_Email rec) \<noteq> []" "t < record_ExpiresAt rec"
  shows "snd (Verify store env (elapse r' d, users) (record_TokenHash rec) t) = Inr (row\<lparr>user_Verified := True\<rparr>) \<and>
    snd (fst (Verify store env (elapse r' d, users) (record_TokenHash rec) t)) =
      map (\<lambda>u. if u = row then u\<lparr>user_Verified := True\<rparr> else u) users"
proof -
  note issued = redis_keyspace.verify_after_issue [OF assms]
  from issued(1) issued(2) show ?thesis by blast
qed

theorem issued_token_verifies_witness:
  "snd (Verify coded_verification sample_verify_env (mem_elapse coded_issued 4000, sample_users) [1] 20) =
     Inr \<lparr>user_ID = ''u'', user_Email = ''a@b'', user_Verified = True\<rparr>"
proof -
  let ?row = "\<lparr>user_ID = ''u'', user_Email = ''a@b'', user_Verified = False\<rparr>"
  have ttl: "milliseconds (time_sub (record_ExpiresAt (sample_record ''u'' 1)) 0) = 5000" by code_simp
  have hash: "emailHash coded_verification (record_Email (sample_record ''u'' 1)) \<noteq> []" by code_simp
  have "snd (Verify coded_verification sample_verify_env (mem_elapse coded_issued 4000, sample_users)
      (record_TokenHash (sample_record ''u'' 1)) 20) = Inr (?row\<lparr>user_Verified := True\<rparr>)"
    using issued_token_verifies [OF mem.redis_keyspace_axioms coded_store(1) coded_inv coded_json [OF coded_names(1)]
        coded_issues(1), of 4000 sample_verify_env sample_users ?row 20] ttl hash
    by (simp add: sample_verify_env_def sample_users_def sample_record_def)
  then show ?thesis by (simp add: sample_record_def)
qed

end
