(* ===== verification/Tenancy_Tables.thy ===== *)
theory Tenancy_Tables
  imports Go_Strings "HOL-Library.Product_Lexorder"
begin

text \<open>
  The tenancy tables of PostgreSQL (\<open>internal/infra/database/migrations\<close>) and the statements
  sqlc generated for them (\<open>internal/*/repositories/generated\<close>): rows with their \<open>pgtype\<close>
  fields, the constraints, and each statement as a function over the tables. A statement
  that violates a constraint returns an error; a failure of the connection or of the encoding is
  a parameter of the operation that runs the statement.
\<close>

section \<open>Rows\<close>

record timestamptz =
  Time :: instant
  Valid :: bool

definition null_timestamp :: timestamptz where
  "null_timestamp = \<lparr>Time = zero_time, Valid = False\<rparr>"

definition some_timestamp :: "instant \<Rightarrow> timestamptz" where
  "some_timestamp t = \<lparr>Time = t, Valid = True\<rparr>"

record users_row =
  u_id :: uuid
  u_subject :: string
  u_created :: timestamptz

record organizations_row =
  o_id :: uuid
  o_owner :: uuid
  o_name :: string
  o_created :: timestamptz
  o_updated :: timestamptz
  o_deleted :: timestamptz
  o_suspended :: timestamptz

record roles_row =
  r_id :: uuid
  r_org :: uuid
  r_name :: string
  r_key :: "string option"
  r_created :: timestamptz
  r_updated :: timestamptz
  r_deleted :: timestamptz

record memberships_row =
  m_org :: uuid
  m_user :: uuid
  m_role :: uuid
  m_status :: string
  m_created :: timestamptz
  m_updated :: timestamptz
  m_removed :: timestamptz

record projects_row =
  p_id :: uuid
  p_org :: uuid
  p_name :: string
  p_created :: timestamptz
  p_updated :: timestamptz

record environments_row =
  e_id :: uuid
  e_project :: uuid
  e_name :: string
  e_activated :: timestamptz
  e_created :: timestamptz

record tables =
  users :: "users_row list"
  organizations :: "organizations_row list"
  organization_roles :: "roles_row list"
  organization_memberships :: "memberships_row list"
  projects :: "projects_row list"
  project_environments :: "environments_row list"

section \<open>Constraints\<close>

text \<open>
  \<open>lower\<close> is PostgreSQL's \<open>lower(text)\<close>, which depends on the database's locale and is a
  parameter.
\<close>

definition not_blank :: "string \<Rightarrow> bool" where
  "not_blank s \<longleftrightarrow> btrim s \<noteq> []"

definition role_clash :: "(string \<Rightarrow> string) \<Rightarrow> roles_row \<Rightarrow> roles_row \<Rightarrow> bool" where
  "role_clash lower a b \<longleftrightarrow>
     r_id a = r_id b \<or>
     r_org a = r_org b \<and> r_key a \<noteq> None \<and> r_key a = r_key b \<or>
     r_org a = r_org b \<and> \<not> Valid (r_deleted a) \<and> \<not> Valid (r_deleted b) \<and> lower (r_name a) = lower (r_name b)"

definition environment_clash :: "environments_row \<Rightarrow> environments_row \<Rightarrow> bool" where
  "environment_clash a b \<longleftrightarrow> e_id a = e_id b \<or> e_project a = e_project b \<and> e_name a = e_name b"

text \<open>The rows a table accepts next to what is there: checks, unique keys and foreign keys.\<close>

definition user_ok :: "users_row list \<Rightarrow> users_row \<Rightarrow> bool" where
  "user_ok rows u \<longleftrightarrow> not_blank (u_subject u) \<and> u_id u \<notin> u_id ` set rows"

definition organization_ok :: "tables \<Rightarrow> organizations_row \<Rightarrow> bool" where
  "organization_ok db o' \<longleftrightarrow>
     not_blank (o_name o') \<and> o_id o' \<notin> o_id ` set (organizations db) \<and> o_owner o' \<in> u_id ` set (users db)"

definition role_ok :: "(string \<Rightarrow> string) \<Rightarrow> tables \<Rightarrow> roles_row \<Rightarrow> bool" where
  "role_ok lower db r \<longleftrightarrow>
     not_blank (r_name r) \<and> (case r_key r of None \<Rightarrow> True | Some k \<Rightarrow> k = ''admin'' \<or> k = ''developer'') \<and>
     r_org r \<in> o_id ` set (organizations db) \<and> (\<forall>q\<in>set (organization_roles db). \<not> role_clash lower r q)"

definition membership_ok :: "tables \<Rightarrow> memberships_row \<Rightarrow> bool" where
  "membership_ok db m \<longleftrightarrow>
     (m_status m = ''active'' \<or> m_status m = ''suspended'') \<and>
     (m_org m, m_user m) \<notin> (\<lambda>n. (m_org n, m_user n)) ` set (organization_memberships db) \<and>
     m_org m \<in> o_id ` set (organizations db) \<and> m_user m \<in> u_id ` set (users db) \<and>
     (m_org m, m_role m) \<in> (\<lambda>r. (r_org r, r_id r)) ` set (organization_roles db)"

definition project_ok :: "tables \<Rightarrow> projects_row \<Rightarrow> bool" where
  "project_ok db p \<longleftrightarrow>
     not_blank (p_name p) \<and> p_id p \<notin> p_id ` set (projects db) \<and> p_org p \<in> o_id ` set (organizations db)"

definition environment_ok :: "tables \<Rightarrow> environments_row \<Rightarrow> bool" where
  "environment_ok db e \<longleftrightarrow>
     (e_name e = ''sandbox'' \<or> e_name e = ''live'') \<and> (e_name e = ''sandbox'' \<longrightarrow> Valid (e_activated e)) \<and>
     e_project e \<in> p_id ` set (projects db) \<and> (\<forall>f\<in>set (project_environments db). \<not> environment_clash e f)"

section \<open>Statements\<close>

definition pgx_ErrNoRows :: string where
  "pgx_ErrNoRows = ''pgx.ErrNoRows''"

definition violation :: "string \<Rightarrow> go_error" where
  "violation table_name = Errorf (''constraint violation: '' @ table_name)"

text \<open>A \<open>:one\<close> query: the first row, or \<open>pgx.ErrNoRows\<close>.\<close>

definition one_row :: "'a list \<Rightarrow> 'a result" where
  "one_row rows = (case rows of [] \<Rightarrow> Inl (Sentinel pgx_ErrNoRows) | r # rs \<Rightarrow> Inr r)"

definition GetUserByAuthlierSubjectID :: "users_row list \<Rightarrow> string \<Rightarrow> users_row result" where
  "GetUserByAuthlierSubjectID rows subject = one_row (filter (\<lambda>u. u_subject u = subject) rows)"

text \<open>
  \<open>ResolveUserByAuthlierSubjectID\<close> reads from the snapshot taken when the statement began, while
  its insert meets the rows committed when it happens; a row with the same subject makes it do
  nothing.
\<close>

definition ResolveUser_insert :: "instant \<Rightarrow> users_row list \<Rightarrow> uuid \<Rightarrow> string \<Rightarrow> users_row list result" where
  "ResolveUser_insert now rows new_id subject =
     (let u = \<lparr>u_id = new_id, u_subject = subject, u_created = some_timestamp now\<rparr>
      in if \<not> not_blank subject then Inl (violation ''users_authlier_subject_id_not_blank'')
         else if subject \<in> u_subject ` set rows then Inr []
         else if \<not> user_ok rows u then Inl (violation ''users_pkey'')
         else Inr [u])"

definition ResolveUser_statement ::
  "instant \<Rightarrow> users_row list \<Rightarrow> users_row list \<Rightarrow> uuid \<Rightarrow> string \<Rightarrow> users_row list \<times> users_row result" where
  "ResolveUser_statement now snapshot rows new_id subject =
     (case ResolveUser_insert now rows new_id subject of
        Inl err \<Rightarrow> (rows, Inl err)
      | Inr inserted \<Rightarrow>
          (rows @ inserted, one_row (inserted @ filter (\<lambda>u. u_subject u = subject) snapshot)))"

definition CreateOrganization_statement ::
  "instant \<Rightarrow> tables \<Rightarrow> uuid \<Rightarrow> uuid \<Rightarrow> string \<Rightarrow> (tables \<times> organizations_row) result" where
  "CreateOrganization_statement now db new_id owner name =
     (let row = \<lparr>o_id = new_id, o_owner = owner, o_name = name, o_created = some_timestamp now,
                 o_updated = some_timestamp now, o_deleted = null_timestamp, o_suspended = null_timestamp\<rparr>
      in if organization_ok db row then Inr (db\<lparr>organizations := organizations db @ [row]\<rparr>, row)
         else Inl (violation ''organizations''))"

definition CreateOrganizationRole_statement ::
  "(string \<Rightarrow> string) \<Rightarrow> instant \<Rightarrow> tables \<Rightarrow> uuid \<Rightarrow> uuid \<Rightarrow> string \<Rightarrow> string option \<Rightarrow> (tables \<times> roles_row) result" where
  "CreateOrganizationRole_statement lower now db new_id org name key =
     (let row = \<lparr>r_id = new_id, r_org = org, r_name = name, r_key = key, r_created = some_timestamp now,
                 r_updated = some_timestamp now, r_deleted = null_timestamp\<rparr>
      in if role_ok lower db row then Inr (db\<lparr>organization_roles := organization_roles db @ [row]\<rparr>, row)
         else Inl (violation ''organization_roles''))"

definition CreateOrganizationMembership_statement ::
  "instant \<Rightarrow> tables \<Rightarrow> uuid \<Rightarrow> uuid \<Rightarrow> uuid \<Rightarrow> string \<Rightarrow> (tables \<times> memberships_row) result" where
  "CreateOrganizationMembership_statement now db org user role status =
     (let row = \<lparr>m_org = org, m_user = user, m_role = role, m_status = status, m_created = some_timestamp now,
                 m_updated = some_timestamp now, m_removed = null_timestamp\<rparr>
      in if membership_ok db row
         then Inr (db\<lparr>organization_memberships := organization_memberships db @ [row]\<rparr>, row)
         else Inl (violation ''organization_memberships''))"

definition GetOrganizationMembership_statement :: "tables \<Rightarrow> uuid \<Rightarrow> uuid \<Rightarrow> memberships_row result" where
  "GetOrganizationMembership_statement db org user =
     one_row (filter (\<lambda>m. m_org m = org \<and> m_user m = user) (organization_memberships db))"

definition ListOrganizationRoles_statement :: "(string \<Rightarrow> int) \<Rightarrow> tables \<Rightarrow> uuid \<Rightarrow> roles_row list" where
  "ListOrganizationRoles_statement rank db org =
     sort_key (\<lambda>r. rank (r_name r)) (filter (\<lambda>r. r_org r = org \<and> \<not> Valid (r_deleted r)) (organization_roles db))"

text \<open>The three-way join of the active access query, before its columns are selected.\<close>

definition access_condition :: "uuid \<Rightarrow> memberships_row \<Rightarrow> organizations_row \<Rightarrow> roles_row \<Rightarrow> bool" where
  "access_condition user m o' r \<longleftrightarrow>
     o_id o' = m_org m \<and> r_org r = m_org m \<and> r_id r = m_role m \<and>
     m_user m = user \<and> m_status m = ''active'' \<and> \<not> Valid (m_removed m) \<and>
     \<not> Valid (o_deleted o') \<and> \<not> Valid (o_suspended o') \<and> \<not> Valid (r_deleted r)"

definition access_join :: "tables \<Rightarrow> uuid \<Rightarrow> (memberships_row \<times> organizations_row \<times> roles_row) list" where
  "access_join db user =
     filter (\<lambda>(m, o', r). access_condition user m o' r)
       (List.product (organization_memberships db) (List.product (organizations db) (organization_roles db)))"

definition ListActiveOrganizationAccessByUser_statement ::
  "tables \<Rightarrow> uuid \<Rightarrow> (memberships_row \<times> organizations_row \<times> roles_row) list" where
  "ListActiveOrganizationAccessByUser_statement db user =
     sort_key (\<lambda>(m, o', r). (Time (o_created o'), uint (o_id o'))) (access_join db user)"

definition CreateProject_statement ::
  "instant \<Rightarrow> tables \<Rightarrow> uuid \<Rightarrow> uuid \<Rightarrow> string \<Rightarrow> (tables \<times> projects_row) result" where
  "CreateProject_statement now db new_id org name =
     (let row = \<lparr>p_id = new_id, p_org = org, p_name = name, p_created = some_timestamp now, p_updated = some_timestamp now\<rparr>
      in if project_ok db row then Inr (db\<lparr>projects := projects db @ [row]\<rparr>, row)
         else Inl (violation ''projects''))"

text \<open>PostgreSQL keeps microseconds of the activation time.\<close>

definition CreateProjectEnvironment_statement ::
  "instant \<Rightarrow> tables \<Rightarrow> uuid \<Rightarrow> uuid \<Rightarrow> string \<Rightarrow> timestamptz \<Rightarrow> (tables \<times> environments_row) result" where
  "CreateProjectEnvironment_statement now db new_id project name activated =
     (let row = \<lparr>e_id = new_id, e_project = project, e_name = name,
                 e_activated = (if Valid activated then some_timestamp (Time activated div 1000 * 1000) else null_timestamp),
                 e_created = some_timestamp now\<rparr>
      in if environment_ok db row then Inr (db\<lparr>project_environments := project_environments db @ [row]\<rparr>, row)
         else Inl (violation ''project_environments''))"

definition ListProjectEnvironments_statement :: "(string \<Rightarrow> int) \<Rightarrow> tables \<Rightarrow> uuid \<Rightarrow> environments_row list" where
  "ListProjectEnvironments_statement rank db project =
     sort_key (\<lambda>e. rank (e_name e)) (filter (\<lambda>e. e_project e = project) (project_environments db))"

section \<open>Consistent tables\<close>

text \<open>
  A state of the tables that meets every constraint. Each insert keeps it, as the statements
  insert only rows their table accepts.
\<close>

definition users_unique :: "users_row list \<Rightarrow> bool" where
  "users_unique rows \<longleftrightarrow>
     distinct (map u_id rows) \<and> distinct (map u_subject rows) \<and> (\<forall>u\<in>set rows. not_blank (u_subject u))"

definition consistent :: "(string \<Rightarrow> string) \<Rightarrow> tables \<Rightarrow> bool" where
  "consistent lower db \<longleftrightarrow>
     users_unique (users db) \<and>
     distinct (map o_id (organizations db)) \<and>
     (\<forall>o'\<in>set (organizations db). not_blank (o_name o') \<and> o_owner o' \<in> u_id ` set (users db)) \<and>
     distinct (map r_id (organization_roles db)) \<and>
     (\<forall>r\<in>set (organization_roles db). not_blank (r_name r) \<and> r_org r \<in> o_id ` set (organizations db) \<and>
        (case r_key r of None \<Rightarrow> True | Some k \<Rightarrow> k = ''admin'' \<or> k = ''developer'') \<and>
        (\<forall>q\<in>set (organization_roles db). r \<noteq> q \<longrightarrow> \<not> role_clash lower r q)) \<and>
     distinct (map (\<lambda>m. (m_org m, m_user m)) (organization_memberships db)) \<and>
     (\<forall>m\<in>set (organization_memberships db). (m_status m = ''active'' \<or> m_status m = ''suspended'') \<and>
        m_org m \<in> o_id ` set (organizations db) \<and> m_user m \<in> u_id ` set (users db) \<and>
        (m_org m, m_role m) \<in> (\<lambda>r. (r_org r, r_id r)) ` set (organization_roles db)) \<and>
     distinct (map p_id (projects db)) \<and>
     (\<forall>p\<in>set (projects db). not_blank (p_name p) \<and> p_org p \<in> o_id ` set (organizations db)) \<and>
     distinct (map e_id (project_environments db)) \<and>
     (\<forall>e\<in>set (project_environments db). (e_name e = ''sandbox'' \<or> e_name e = ''live'') \<and>
        (e_name e = ''sandbox'' \<longrightarrow> Valid (e_activated e)) \<and> e_project e \<in> p_id ` set (projects db) \<and>
        (\<forall>f\<in>set (project_environments db). e \<noteq> f \<longrightarrow> \<not> environment_clash e f))"

lemma role_clash_sym: "role_clash lower a b = role_clash lower b a"
  unfolding role_clash_def by metis

lemma environment_clash_sym: "environment_clash a b = environment_clash b a"
  by (auto simp: environment_clash_def)

lemma consistent_organization:
  "consistent lower db \<Longrightarrow> organization_ok db row \<Longrightarrow> consistent lower (db\<lparr>organizations := organizations db @ [row]\<rparr>)"
  by (simp add: consistent_def organization_ok_def)

lemma consistent_role:
  assumes "consistent lower db" "role_ok lower db row"
  shows "consistent lower (db\<lparr>organization_roles := organization_roles db @ [row]\<rparr>)"
proof -
  have new: "r_id row \<notin> r_id ` set (organization_roles db)" "\<forall>q\<in>set (organization_roles db). \<not> role_clash lower row q"
    "\<forall>q\<in>set (organization_roles db). \<not> role_clash lower q row"
    using assms(2) by (auto simp: role_ok_def role_clash_def)
  with assms show ?thesis by (simp add: consistent_def role_ok_def)
qed

lemma consistent_membership:
  "consistent lower db \<Longrightarrow> membership_ok db row \<Longrightarrow>
   consistent lower (db\<lparr>organization_memberships := organization_memberships db @ [row]\<rparr>)"
  by (simp add: consistent_def membership_ok_def)

lemma consistent_project:
  "consistent lower db \<Longrightarrow> project_ok db row \<Longrightarrow> consistent lower (db\<lparr>projects := projects db @ [row]\<rparr>)"
  by (simp add: consistent_def project_ok_def)

lemma consistent_environment:
  assumes "consistent lower db" "environment_ok db row"
  shows "consistent lower (db\<lparr>project_environments := project_environments db @ [row]\<rparr>)"
proof -
  have new: "e_id row \<notin> e_id ` set (project_environments db)" "\<forall>q\<in>set (project_environments db). \<not> environment_clash row q"
    "\<forall>q\<in>set (project_environments db). \<not> environment_clash q row"
    using assms(2) by (auto simp: environment_ok_def environment_clash_def)
  with assms show ?thesis by (simp add: consistent_def environment_ok_def)
qed

lemma users_unique_append:
  "users_unique rows \<Longrightarrow> user_ok rows u \<Longrightarrow> u_subject u \<notin> u_subject ` set rows \<Longrightarrow> users_unique (rows @ [u])"
  by (auto simp: users_unique_def user_ok_def)

lemma one_row_unique:
  assumes "distinct (map f rows)" "u \<in> set rows"
  shows "one_row (filter (\<lambda>v. f v = f u) rows) = Inr u"
proof -
  have "v = u" if "v \<in> set rows" "f v = f u" for v
    using distinct_map_inj [OF assms(1) that(1) assms(2) that(2)] .
  then have "filter (\<lambda>v. f v = f u) rows = filter (\<lambda>v. v = u) rows" by (intro filter_cong) auto
  moreover have "\<exists>xs. filter (\<lambda>v. v = u) rows = u # xs" using assms(2) by (induction rows) auto
  ultimately show ?thesis by (auto simp: one_row_def)
qed

section \<open>Transactions\<close>

definition or_error :: "go_error option \<Rightarrow> 'a result \<Rightarrow> 'a result" where
  "or_error fault res = (case fault of Some e \<Rightarrow> Inl e | None \<Rightarrow> res)"

lemma or_error_Inr: "or_error fault res = Inr x \<longleftrightarrow> fault = None \<and> res = Inr x"
  by (simp add: or_error_def split: option.splits)

text \<open>
  The environment of a transaction: where it fails besides the constraints. A commit can fail
  with or without having taken effect.
\<close>

record tx_env =
  begin_error :: "go_error option"
  statement_error :: "nat \<Rightarrow> go_error option"
  commit_link :: link
  tx_now :: instant

definition tx_fault_free :: "tx_env \<Rightarrow> bool" where
  "tx_fault_free env \<longleftrightarrow> begin_error env = None \<and> (\<forall>n. statement_error env n = None) \<and> commit_link env = Answered"

lemma not_blank_TrimSpace: "TrimSpace name \<noteq> [] \<Longrightarrow> not_blank (TrimSpace name)"
  by (simp add: not_blank_def trimmed_btrim_nonempty TrimSpace_trimmed)

section \<open>Repositories that store in one transaction\<close>

text \<open>
  What a service relies on when its repository writes several rows in one transaction: whatever
  is answered, the tables are unchanged or have the whole addition, a success means the addition,
  and the constraints are kept.
\<close>

locale atomic_repository =
  fixes store :: "'s \<Rightarrow> 'x \<Rightarrow> 's \<times> 'y result"
    and whole :: "'s \<Rightarrow> 'x \<Rightarrow> 's"
    and ok :: "'s \<Rightarrow> bool"
  assumes kept_or_whole: "store s x = (s', Inl e) \<Longrightarrow> s' = s \<or> s' = whole s x"
    and stored: "store s x = (s', Inr y) \<Longrightarrow> s' = whole s x"
    and keeps: "ok s \<Longrightarrow> store s x = (s', res) \<Longrightarrow> ok s'"
begin

lemma all_or_nothing:
  "store s x = (s', res) \<Longrightarrow> s' = s \<and> (\<exists>e. res = Inl e) \<or> s' = whole s x"
  using kept_or_whole stored by (cases res) blast+

end

end
