(* ===== verification/Users.thy ===== *)
theory Users
  imports Tenancy_Tables
begin

text \<open>
  Users: \<open>internal/users\<close>. A user of the server stands for a subject of the authentication
  library; the service creates it on first access. Concurrent first accesses are
  modelled by interference: before each statement of a resolution, other clients may have
  committed rows.
\<close>

section \<open>Repository\<close>

record User =
  User_ID :: uuid
  User_AuthlierSubjectID :: string
  User_CreatedAt :: instant

definition mapUser :: "users_row \<Rightarrow> User" where
  "mapUser row = \<lparr>User_ID = u_id row, User_AuthlierSubjectID = u_subject row, User_CreatedAt = Time (u_created row)\<rparr>"

text \<open>
  The environment of a resolution: what other clients commit before the first read, before the
  insert statement takes its snapshot, between the snapshot and the insert, and before the second
  read; the failures of the three statements; and the database's clock.
\<close>

record resolve_env =
  before_find :: "users_row list \<Rightarrow> users_row list"
  before_snapshot :: "users_row list \<Rightarrow> users_row list"
  before_insert :: "users_row list \<Rightarrow> users_row list"
  before_again :: "users_row list \<Rightarrow> users_row list"
  find_error :: "go_error option"
  resolve_link :: link
  again_error :: "go_error option"
  db_now :: instant

definition flatten :: "'a result result \<Rightarrow> 'a result" where
  "flatten res = (case res of Inl e \<Rightarrow> Inl e | Inr r \<Rightarrow> r)"

definition ResolveUserByAuthlierSubjectID ::
  "resolve_env \<Rightarrow> users_row list \<Rightarrow> User \<Rightarrow> users_row list \<times> User result" where
  "ResolveUserByAuthlierSubjectID env rows user =
     (let subject = User_AuthlierSubjectID user;
          rows1 = before_find env rows
      in case or_error (find_error env) (GetUserByAuthlierSubjectID rows1 subject) of
           Inr existing \<Rightarrow> (rows1, Inr (mapUser existing))
         | Inl err \<Rightarrow>
             if \<not> errors_is err pgx_ErrNoRows
             then (rows1, Inl (Wrap ''find user by Authlier subject ID'' err))
             else
               (let snapshot = before_snapshot env rows1;
                    rows2 = before_insert env snapshot;
                    (rows3, outcome) =
                      Eval (resolve_link env)
                        (\<lambda>rows. ResolveUser_statement (db_now env) snapshot rows (User_ID user) subject) rows2
                in case flatten outcome of
                     Inr resolved \<Rightarrow>
                       (rows3, Inr \<lparr>User_ID = u_id resolved, User_AuthlierSubjectID = u_subject resolved,
                                    User_CreatedAt = Time (u_created resolved)\<rparr>)
                   | Inl err \<Rightarrow>
                       if errors_is err pgx_ErrNoRows
                       then (let rows4 = before_again env rows3
                             in case or_error (again_error env) (GetUserByAuthlierSubjectID rows4 subject) of
                                  Inl findErr \<Rightarrow>
                                    (rows4, Inl (Wrap ''resolve concurrent user by Authlier subject ID'' findErr))
                                | Inr existing \<Rightarrow> (rows4, Inr (mapUser existing)))
                       else (rows3, Inl (Wrap ''resolve user by Authlier subject ID'' err))))"

definition UserByAuthlierSubjectID :: "go_error option \<Rightarrow> users_row list \<Rightarrow> string \<Rightarrow> User result" where
  "UserByAuthlierSubjectID fault rows subject =
     (case or_error fault (GetUserByAuthlierSubjectID rows subject) of
        Inl err \<Rightarrow> Inl (Wrap ''get user by Authlier subject ID'' err)
      | Inr user \<Rightarrow> Inr (mapUser user))"

section \<open>Service\<close>

definition ErrAuthlierSubjectIDRequired :: string where
  "ErrAuthlierSubjectIDRequired = ''users.ErrAuthlierSubjectIDRequired''"

text \<open>The service over any repository; \<open>newV7\<close> is the outcome of generating an id.\<close>

type_synonym 's UserRepository = "'s \<Rightarrow> User \<Rightarrow> 's \<times> User result"

record 's UserService =
  UserService_repository :: "'s UserRepository"

definition NewUserService :: "'s UserRepository \<Rightarrow> 's UserService" where
  "NewUserService repository = \<lparr>UserService_repository = repository\<rparr>"

definition UserService_ResolveUser :: "'s UserService \<Rightarrow> uuid result \<Rightarrow> 's \<Rightarrow> string \<Rightarrow> 's \<times> User result" where
  "UserService_ResolveUser service newV7 s authlierSubjectID =
     (let subject = TrimSpace authlierSubjectID
      in if subject = [] then (s, Inl (Sentinel ErrAuthlierSubjectIDRequired))
         else
           (case ids_new newV7 of
              Inl err \<Rightarrow> (s, Inl (Wrap ''generate user ID'' err))
            | Inr new_id \<Rightarrow>
                UserService_repository service s
                  \<lparr>User_ID = new_id, User_AuthlierSubjectID = subject, User_CreatedAt = zero_time\<rparr>))"

lemma UserService_repository_New [simp]: "UserService_repository (NewUserService repository) = repository"
  by (simp add: NewUserService_def)

section \<open>Resolution under interference\<close>

text \<open>
  \<open>extends\<close> is what every client of the table does to it, and may rely on from the others: rows
  are only added, and the table stays unique. \<open>well_behaved\<close> environments interfere only so, and
  their failures are not the driver's no-rows error.
\<close>

definition extends :: "users_row list \<Rightarrow> users_row list \<Rightarrow> bool" where
  "extends rows rows' \<longleftrightarrow> set rows \<subseteq> set rows' \<and> users_unique rows'"

definition well_behaved :: "resolve_env \<Rightarrow> bool" where
  "well_behaved env \<longleftrightarrow>
     (\<forall>rows. users_unique rows \<longrightarrow> extends rows (before_find env rows) \<and> extends rows (before_snapshot env rows) \<and>
        extends rows (before_insert env rows) \<and> extends rows (before_again env rows)) \<and>
     (case find_error env of None \<Rightarrow> True | Some e \<Rightarrow> \<not> errors_is e pgx_ErrNoRows) \<and>
     (case resolve_link env of Answered \<Rightarrow> True | Lost_before e \<Rightarrow> \<not> errors_is e pgx_ErrNoRows
      | Lost_after e \<Rightarrow> \<not> errors_is e pgx_ErrNoRows)"

definition fault_free :: "resolve_env \<Rightarrow> bool" where
  "fault_free env \<longleftrightarrow> find_error env = None \<and> resolve_link env = Answered \<and> again_error env = None"

lemma extends_refl: "users_unique rows \<Longrightarrow> extends rows rows"
  by (simp add: extends_def)

lemma extends_trans: "extends a b \<Longrightarrow> extends b c \<Longrightarrow> extends a c"
  by (auto simp: extends_def)

lemma extends_unique: "extends a b \<Longrightarrow> users_unique b"
  by (simp add: extends_def)

lemma well_behavedD:
  assumes "well_behaved env" "users_unique rows"
  shows "extends rows (before_find env rows)" "extends rows (before_snapshot env rows)"
    "extends rows (before_insert env rows)" "extends rows (before_again env rows)"
  using assms by (simp_all add: well_behaved_def)

lemma GetUser_found:
  "users_unique rows \<Longrightarrow> u \<in> set rows \<Longrightarrow> GetUserByAuthlierSubjectID rows (u_subject u) = Inr u"
  unfolding GetUserByAuthlierSubjectID_def using one_row_unique [of u_subject rows u] by (simp add: users_unique_def)

lemma GetUser_Inr: "GetUserByAuthlierSubjectID rows subject = Inr u \<Longrightarrow> u \<in> set rows \<and> u_subject u = subject"
  by (auto simp: GetUserByAuthlierSubjectID_def one_row_def filter_eq_Cons_iff split: list.splits)

lemma GetUser_Inl:
  "GetUserByAuthlierSubjectID rows subject = Inl e \<Longrightarrow> e = Sentinel pgx_ErrNoRows \<and> subject \<notin> u_subject ` set rows"
  by (auto simp: GetUserByAuthlierSubjectID_def one_row_def filter_empty_conv split: list.splits)

text \<open>The insert statement: it adds at most the caller's row, and finds the subject or finds it added meanwhile.\<close>

lemma ResolveUser_statement_cases:
  assumes "users_unique rows" "extends snapshot rows" "not_blank subject"
    and run: "ResolveUser_statement now snapshot rows new_id subject = (rows', res)"
  obtains (clash) "rows' = rows" "res = Inl (violation ''users_pkey'')" "new_id \<in> u_id ` set rows"
  | (found) u where "extends rows rows'" "res = Inr u" "u \<in> set rows'" "u_subject u = subject"
  | (added_meanwhile) "rows' = rows" "res = Inl (Sentinel pgx_ErrNoRows)" "subject \<in> u_subject ` set rows"
proof (cases "subject \<in> u_subject ` set rows")
  case True
  then have res: "rows' = rows" "res = one_row (filter (\<lambda>u. u_subject u = subject) snapshot)"
    using run assms(3) by (simp_all add: ResolveUser_statement_def ResolveUser_insert_def Let_def)
  show ?thesis
  proof (cases res)
    case (Inl e)
    with res GetUser_Inl [of snapshot subject e] have "res = Inl (Sentinel pgx_ErrNoRows)"
      by (simp add: GetUserByAuthlierSubjectID_def)
    with res True show ?thesis by (intro added_meanwhile)
  next
    case (Inr u)
    with res GetUser_Inr [of snapshot subject u] have "u \<in> set snapshot" "u_subject u = subject"
      by (simp_all add: GetUserByAuthlierSubjectID_def)
    with Inr res assms(1,2) show ?thesis by (intro found [of u]) (auto simp: extends_def)
  qed
next
  case False
  let ?u = "\<lparr>u_id = new_id, u_subject = subject, u_created = some_timestamp now\<rparr>"
  show ?thesis
  proof (cases "user_ok rows ?u")
    case True
    then have "rows' = rows @ [?u]" "res = Inr ?u"
      using run assms(3) False by (simp_all add: ResolveUser_statement_def ResolveUser_insert_def Let_def one_row_def)
    with users_unique_append [OF assms(1) True] False show ?thesis
      by (intro found [of ?u]) (auto simp: extends_def)
  next
    case bad: False
    then have "rows' = rows" "res = Inl (violation ''users_pkey'')"
      using run assms(3) False by (simp_all add: ResolveUser_statement_def ResolveUser_insert_def Let_def)
    with bad assms(3) show ?thesis by (intro clash) (simp_all add: user_ok_def)
  qed
qed

lemma mapUser_fields [simp]: "User_ID (mapUser u) = u_id u" "User_AuthlierSubjectID (mapUser u) = u_subject u"
  by (simp_all add: mapUser_def)


definition table_at_insert :: "resolve_env \<Rightarrow> users_row list \<Rightarrow> users_row list" where
  "table_at_insert env rows = before_insert env (before_snapshot env (before_find env rows))"

definition resolved_in :: "users_row list \<Rightarrow> string \<Rightarrow> User \<Rightarrow> bool" where
  "resolved_in rows subject u \<longleftrightarrow> (\<exists>row\<in>set rows. u = mapUser row \<and> u_subject row = subject)"

lemma resolved_in_extends: "resolved_in rows subject u \<Longrightarrow> extends rows rows' \<Longrightarrow> resolved_in rows' subject u"
  by (auto simp: resolved_in_def extends_def)

lemma resolved_in_same:
  assumes "users_unique rows" "resolved_in rows subject u" "resolved_in rows subject v"
  shows "u = v"
proof -
  from assms(2,3) obtain a b where "a \<in> set rows" "b \<in> set rows" "u_subject a = u_subject b" "u = mapUser a" "v = mapUser b"
    by (auto simp: resolved_in_def)
  moreover from this have "a = b"
    using distinct_map_inj [of u_subject rows a b] assms(1) by (simp add: users_unique_def)
  ultimately show ?thesis by simp
qed

lemma not_found_error: "errors_is (Sentinel pgx_ErrNoRows) pgx_ErrNoRows" "\<not> errors_is (violation t) pgx_ErrNoRows"
  by (simp_all add: violation_def)

text \<open>The insert path, once the first read found nothing.\<close>

lemma insert_path:
  assumes wb: "well_behaved env" and uniq: "users_unique rows1" and blank: "not_blank subject"
    and stmt: "Eval (resolve_link env) (\<lambda>rows. ResolveUser_statement now (before_snapshot env rows1) rows new_id subject)
      (before_insert env (before_snapshot env rows1)) = (rows3, outcome)"
  shows "extends rows1 rows3"
    and "flatten outcome = Inr u \<Longrightarrow> u \<in> set rows3 \<and> u_subject u = subject"
    and "flatten outcome = Inl err \<Longrightarrow> errors_is err pgx_ErrNoRows \<Longrightarrow> subject \<in> u_subject ` set rows3"
    and "resolve_link env = Answered \<Longrightarrow> new_id \<notin> u_id ` set (before_insert env (before_snapshot env rows1)) \<Longrightarrow>
      (\<exists>u. flatten outcome = Inr u) \<or> flatten outcome = Inl (Sentinel pgx_ErrNoRows)"
proof -
  let ?snap = "before_snapshot env rows1" and ?rows2 = "before_insert env (before_snapshot env rows1)"
  have snap: "extends rows1 ?snap" using well_behavedD(2) [OF wb uniq] .
  have rows2: "extends ?snap ?rows2" using well_behavedD(3) [OF wb extends_unique [OF snap]] .
  obtain rows' res where run: "ResolveUser_statement now ?snap ?rows2 new_id subject = (rows', res)"
    by (metis prod.exhaust)
  have link: "resolve_link env = Answered \<or> (\<exists>e. flatten outcome = Inl e \<and> \<not> errors_is e pgx_ErrNoRows)"
    using stmt wb by (cases "resolve_link env") (auto simp: Eval_def well_behaved_def flatten_def split: prod.splits)
  have rows3: "rows3 = ?rows2 \<or> rows3 = rows'"
    using stmt run by (cases "resolve_link env") (auto simp: Eval_def)
  have answered: "rows3 = rows' \<and> flatten outcome = res" if "resolve_link env = Answered"
    using stmt run that by (auto simp: Eval_def flatten_def)
  note cases = ResolveUser_statement_cases [OF extends_unique [OF rows2] rows2 blank run]
  have "extends ?rows2 rows'" by (rule cases) (auto intro: extends_refl [OF extends_unique [OF rows2]])
  with rows3 snap rows2 show "extends rows1 rows3" by (meson extends_trans extends_refl extends_unique)
  show "u \<in> set rows3 \<and> u_subject u = subject" if "flatten outcome = Inr u"
    by (rule cases) (use that link answered in auto)
  show "subject \<in> u_subject ` set rows3" if "flatten outcome = Inl err" "errors_is err pgx_ErrNoRows"
    by (rule cases) (use that link answered not_found_error in auto)
  show "(\<exists>u. flatten outcome = Inr u) \<or> flatten outcome = Inl (Sentinel pgx_ErrNoRows)"
    if "resolve_link env = Answered" "new_id \<notin> u_id ` set ?rows2"
    by (rule cases) (use that answered in auto)
qed

lemma resolve_user:
  assumes wb: "well_behaved env" and uniq: "users_unique rows" and blank: "not_blank (User_AuthlierSubjectID user)"
    and run: "ResolveUserByAuthlierSubjectID env rows user = (rows', res)"
  shows "extends rows rows'"
    and "res = Inr u \<Longrightarrow> resolved_in rows' (User_AuthlierSubjectID user) u"
    and "fault_free env \<Longrightarrow> User_ID user \<notin> u_id ` set (table_at_insert env rows) \<Longrightarrow> \<exists>u. res = Inr u"
proof -
  let ?subject = "User_AuthlierSubjectID user" and ?rows1 = "before_find env rows"
  have rows1: "extends rows ?rows1" using well_behavedD(1) [OF wb uniq] .
  note uniq1 = extends_unique [OF rows1]
  let ?goal = "extends rows rows' \<and> (\<forall>u. res = Inr u \<longrightarrow> resolved_in rows' ?subject u) \<and>
    (fault_free env \<and> User_ID user \<notin> u_id ` set (table_at_insert env rows) \<longrightarrow> (\<exists>u. res = Inr u))"
  have ?goal
  proof (cases "or_error (find_error env) (GetUserByAuthlierSubjectID ?rows1 ?subject)")
    case (Inr row)
    then have "row \<in> set ?rows1 \<and> u_subject row = ?subject"
      using GetUser_Inr [of ?rows1 ?subject row] by (simp add: or_error_def split: option.splits)
    with Inr run rows1 show ?thesis
      by (auto simp: ResolveUserByAuthlierSubjectID_def Let_def resolved_in_def)
  next
    case first: (Inl err)
    show ?thesis
    proof (cases "errors_is err pgx_ErrNoRows")
      case False
      with first GetUser_Inl [of ?rows1 ?subject err] have "find_error env = Some err"
        by (auto simp: or_error_def split: option.splits)
      with False first run rows1 show ?thesis
        by (auto simp: ResolveUserByAuthlierSubjectID_def Let_def fault_free_def)
    next
      case True
      let ?snap = "before_snapshot env ?rows1"
      obtain rows3 outcome where stmt: "Eval (resolve_link env)
          (\<lambda>rows. ResolveUser_statement (db_now env) ?snap rows (User_ID user) ?subject) (before_insert env ?snap) =
          (rows3, outcome)" by (metis prod.exhaust)
      note path = insert_path [OF wb uniq1 blank stmt]
      have rows3: "extends rows rows3" using extends_trans [OF rows1 path(1)] .
      show ?thesis
      proof (cases "flatten outcome")
        case (Inr u)
        with first True run stmt have "rows' = rows3" "res = Inr (mapUser u)"
          by (simp_all add: ResolveUserByAuthlierSubjectID_def Let_def mapUser_def)
        with path(2) [OF Inr] rows3 show ?thesis by (auto simp: resolved_in_def)
      next
        case (Inl e)
        show ?thesis
        proof (cases "errors_is e pgx_ErrNoRows")
          case False
          with first True run stmt Inl have "rows' = rows3" "res = Inl (Wrap ''resolve user by Authlier subject ID'' e)"
            by (simp_all add: ResolveUserByAuthlierSubjectID_def Let_def)
          with path(4) False Inl rows3 show ?thesis
            by (auto simp: fault_free_def table_at_insert_def not_found_error)
        next
          case again: True
          let ?rows4 = "before_again env rows3"
          have rows4: "extends rows3 ?rows4" using well_behavedD(4) [OF wb extends_unique [OF path(1)]] .
          from path(3) [OF Inl again] rows4 obtain row where row: "row \<in> set ?rows4" "u_subject row = ?subject"
            by (auto simp: extends_def)
          with GetUser_found [OF extends_unique [OF rows4] row(1)]
          have "GetUserByAuthlierSubjectID ?rows4 ?subject = Inr row" by simp
          with first True run stmt Inl again have "rows' = ?rows4"
              "res = (case again_error env of None \<Rightarrow> Inr (mapUser row)
                 | Some f \<Rightarrow> Inl (Wrap ''resolve concurrent user by Authlier subject ID'' f))"
            by (simp_all add: ResolveUserByAuthlierSubjectID_def Let_def or_error_def split: option.splits)
          with rows3 rows4 row show ?thesis
            by (auto simp: resolved_in_def fault_free_def intro: extends_trans split: option.splits)
        qed
      qed
    qed
  qed
  then show "extends rows rows'" "res = Inr u \<Longrightarrow> resolved_in rows' ?subject u"
    "fault_free env \<Longrightarrow> User_ID user \<notin> u_id ` set (table_at_insert env rows) \<Longrightarrow> \<exists>u. res = Inr u"
    by blast+
qed


section \<open>The repository interface\<close>

text \<open>
  What the service needs of its repository: a resolution finds the user of its subject, the
  storage only grows, users once known stay known, and a subject has one user. \<open>service_run\<close> is the
  list of answers of a run of the service, \<open>service_end\<close> the storage after it.
\<close>

fun service_run ::
  "('s \<Rightarrow> User \<Rightarrow> 's \<times> User result) \<Rightarrow> 's \<Rightarrow> (uuid result \<times> string) list \<Rightarrow> (string \<times> User result) list" where
  "service_run repository s [] = []"
| "service_run repository s ((newV7, subject) # calls) =
     (case UserService_ResolveUser (NewUserService repository) newV7 s subject of
        (s', res) \<Rightarrow> (TrimSpace subject, res) # service_run repository s' calls)"

fun service_end :: "('s \<Rightarrow> User \<Rightarrow> 's \<times> User result) \<Rightarrow> 's \<Rightarrow> (uuid result \<times> string) list \<Rightarrow> 's" where
  "service_end repository s [] = s"
| "service_end repository s ((newV7, subject) # calls) =
     service_end repository (fst (UserService_ResolveUser (NewUserService repository) newV7 s subject)) calls"

lemma TrimSpace_not_blank: "TrimSpace s \<noteq> [] \<Longrightarrow> not_blank (TrimSpace s)"
  unfolding not_blank_def by (rule trimmed_btrim_nonempty [OF TrimSpace_trimmed])

locale user_repository =
  fixes resolve :: "'s \<Rightarrow> User \<Rightarrow> 's \<times> User result"
    and ok :: "'s \<Rightarrow> bool"
    and grows :: "'s \<Rightarrow> 's \<Rightarrow> bool"
    and known :: "'s \<Rightarrow> string \<Rightarrow> User \<Rightarrow> bool"
  assumes keeps: "ok s \<Longrightarrow> not_blank (User_AuthlierSubjectID user) \<Longrightarrow> resolve s user = (s', res) \<Longrightarrow> ok s' \<and> grows s s'"
    and finds: "ok s \<Longrightarrow> not_blank (User_AuthlierSubjectID user) \<Longrightarrow> resolve s user = (s', Inr u) \<Longrightarrow>
      known s' (User_AuthlierSubjectID user) u"
    and grows_refl: "ok s \<Longrightarrow> grows s s"
    and grows_trans: "grows a b \<Longrightarrow> grows b c \<Longrightarrow> grows a c"
    and stable: "grows s s' \<Longrightarrow> known s x v \<Longrightarrow> known s' x v"
    and one: "ok s \<Longrightarrow> known s x u \<Longrightarrow> known s x v \<Longrightarrow> u = v"
begin

lemma service_keeps:
  assumes "ok s" "UserService_ResolveUser (NewUserService resolve) newV7 s subject = (s', res)"
  shows "ok s'" "grows s s'" "res = Inr u \<Longrightarrow> known s' (TrimSpace subject) u"
proof -
  have "s' = s \<and> (\<exists>e. res = Inl e) \<or>
    (\<exists>user. not_blank (User_AuthlierSubjectID user) \<and> User_AuthlierSubjectID user = TrimSpace subject \<and> resolve s user = (s', res))"
    using assms(2) TrimSpace_not_blank [of subject]
    by (auto simp: UserService_ResolveUser_def Let_def split: if_splits sum.splits)
  then consider e where "s' = s" "res = Inl e"
    | user where "not_blank (User_AuthlierSubjectID user)" "User_AuthlierSubjectID user = TrimSpace subject"
        "resolve s user = (s', res)"
    by blast
  note cases = this
  show "ok s'" by (rule cases) (simp add: assms(1), metis keeps [OF assms(1)])
  show "grows s s'" by (rule cases) (simp add: grows_refl [OF assms(1)], metis keeps [OF assms(1)])
  show "known s' (TrimSpace subject) u" if "res = Inr u" by (rule cases) (simp add: that, metis finds [OF assms(1)] that)
qed

lemma service_run_stored:
  "ok s \<Longrightarrow> ok (service_end resolve s calls) \<and> grows s (service_end resolve s calls) \<and>
    ((x, Inr u) \<in> set (service_run resolve s calls) \<longrightarrow> known (service_end resolve s calls) x u)"
proof (induction calls arbitrary: s)
  case Nil
  then show ?case by (simp add: grows_refl)
next
  case (Cons c calls)
  obtain newV7 subject where c: "c = (newV7, subject)" by (cases c)
  obtain s' res where run: "UserService_ResolveUser (NewUserService resolve) newV7 s subject = (s', res)" by (metis prod.exhaust)
  note kept = service_keeps [OF Cons.prems run]
  note rest = Cons.IH [OF kept(1)]
  have "known (service_end resolve s' calls) (TrimSpace subject) u" if "res = Inr u"
    using stable kept(3) [OF that] rest by blast
  with rest grows_trans [OF kept(2)] show ?case by (auto simp: c run)
qed

lemma service_run_agrees:
  "ok s \<Longrightarrow> (x, Inr u) \<in> set (service_run resolve s calls) \<Longrightarrow> (x, Inr v) \<in> set (service_run resolve s calls) \<Longrightarrow> u = v"
  using service_run_stored [of s calls x u] service_run_stored [of s calls x v] one by blast

end

text \<open>The repository with a script of environments, one for each call; quiet once they are used up.\<close>

definition quiet :: resolve_env where
  "quiet = \<lparr>before_find = (\<lambda>rows. rows), before_snapshot = (\<lambda>rows. rows), before_insert = (\<lambda>rows. rows),
     before_again = (\<lambda>rows. rows), find_error = None, resolve_link = Answered, again_error = None, db_now = 0\<rparr>"

definition scripted_repository ::
  "users_row list \<times> resolve_env list \<Rightarrow> User \<Rightarrow> (users_row list \<times> resolve_env list) \<times> User result" where
  "scripted_repository s user =
     (case s of
        (rows, []) \<Rightarrow> (case ResolveUserByAuthlierSubjectID quiet rows user of (rows', res) \<Rightarrow> ((rows', []), res))
      | (rows, env # envs) \<Rightarrow>
          (case ResolveUserByAuthlierSubjectID env rows user of (rows', res) \<Rightarrow> ((rows', envs), res)))"

lemma quiet_well_behaved: "well_behaved quiet"
  by (simp add: well_behaved_def quiet_def extends_refl)

lemma scripted_cases:
  assumes "\<forall>env\<in>set envs. well_behaved env" "scripted_repository (rows, envs) user = ((rows', envs'), res)"
  obtains env where "well_behaved env" "ResolveUserByAuthlierSubjectID env rows user = (rows', res)"
    "\<forall>env\<in>set envs'. well_behaved env"
  using assms quiet_well_behaved
  by (cases envs) (fastforce simp: scripted_repository_def split: prod.splits)+

interpretation scripted: user_repository scripted_repository
  "\<lambda>(rows, envs). users_unique rows \<and> (\<forall>env\<in>set envs. well_behaved env)"
  "\<lambda>(rows, envs) (rows', envs'). extends rows rows'" "\<lambda>(rows, envs). resolved_in rows"
proof unfold_locales
  fix s s' t :: "users_row list \<times> resolve_env list" and user u v :: User and res x
  obtain rows envs rows' envs' where s: "s = (rows, envs)" "s' = (rows', envs')" by (metis prod.exhaust)
  let ?ok = "case s of (rows, envs) \<Rightarrow> users_unique rows \<and> (\<forall>env\<in>set envs. well_behaved env)"
  show "(case s' of (rows, envs) \<Rightarrow> users_unique rows \<and> (\<forall>env\<in>set envs. well_behaved env)) \<and>
      (case s of (rows, envs) \<Rightarrow> \<lambda>(rows', envs'). extends rows rows') s'"
    if "?ok" "not_blank (User_AuthlierSubjectID user)" "scripted_repository s user = (s', res)"
    using that unfolding s prod.case
    by (elim conjE) (erule (1) scripted_cases, auto dest: resolve_user(1) extends_unique)
  show "(case s' of (rows, envs) \<Rightarrow> resolved_in rows) (User_AuthlierSubjectID user) u"
    if "?ok" "not_blank (User_AuthlierSubjectID user)" "scripted_repository s user = (s', Inr u)"
    using that unfolding s prod.case
    by (elim conjE) (erule (1) scripted_cases, auto dest: resolve_user(2))
  show "(case s of (rows, envs) \<Rightarrow> \<lambda>(rows', envs'). extends rows rows') s" if "?ok"
    using that by (auto simp: s intro: extends_refl)
  show "(case s of (rows, envs) \<Rightarrow> \<lambda>(rows', envs'). extends rows rows') t"
    if "(case s of (rows, envs) \<Rightarrow> \<lambda>(rows', envs'). extends rows rows') s'"
      "(case s' of (rows, envs) \<Rightarrow> \<lambda>(rows', envs'). extends rows rows') t"
    using that by (auto simp: s intro: extends_trans split: prod.splits)
  show "(case s' of (rows, envs) \<Rightarrow> resolved_in rows) x v"
    if "(case s of (rows, envs) \<Rightarrow> \<lambda>(rows', envs'). extends rows rows') s'" "(case s of (rows, envs) \<Rightarrow> resolved_in rows) x v"
    using that by (auto simp: s intro: resolved_in_extends)
  show "u = v" if "?ok" "(case s of (rows, envs) \<Rightarrow> resolved_in rows) x u" "(case s of (rows, envs) \<Rightarrow> resolved_in rows) x v"
    using that resolved_in_same unfolding s by auto
qed

section \<open>The users' properties\<close>

text \<open>
  C18. Resolving under interference. Whatever rows other clients add between the statements, and
  whichever statement fails, a resolution only adds rows and leaves the table unique; when it
  returns a user, that is the user of the subject, stored in the table; and without failures it does
  return one unless the generated id was taken: a lost race against another insert is
  always resolved.
\<close>

theorem resolution_survives_interference:
  assumes "well_behaved env" "users_unique rows" "not_blank (User_AuthlierSubjectID user)"
    and "ResolveUserByAuthlierSubjectID env rows user = (rows', res)"
  shows "extends rows rows' \<and>
    (\<forall>u. res = Inr u \<longrightarrow> resolved_in rows' (User_AuthlierSubjectID user) u) \<and>
    (fault_free env \<and> User_ID user \<notin> u_id ` set (table_at_insert env rows) \<longrightarrow> (\<exists>u. res = Inr u))"
  using resolve_user [OF assms] by blast

text \<open>Another client inserts the same subject after the snapshot: the statement returns no row.\<close>

definition raced :: resolve_env where
  "raced = quiet\<lparr>before_insert := (\<lambda>rows. if ''s'' \<in> u_subject ` set rows \<or> 7 \<in> u_id ` set rows then rows
     else rows @ [\<lparr>u_id = 7, u_subject = ''s'', u_created = some_timestamp 0\<rparr>])\<rparr>"

definition sample_user :: User where
  "sample_user = \<lparr>User_ID = 1, User_AuthlierSubjectID = ''s'', User_CreatedAt = zero_time\<rparr>"

lemma raced_well_behaved: "well_behaved raced"
  by (auto simp: well_behaved_def raced_def quiet_def extends_def users_unique_def not_blank_def btrim_def)

lemma sample_raced:
  "ResolveUserByAuthlierSubjectID raced [] sample_user =
     ([\<lparr>u_id = 7, u_subject = ''s'', u_created = some_timestamp 0\<rparr>],
      Inr \<lparr>User_ID = 7, User_AuthlierSubjectID = ''s'', User_CreatedAt = 0\<rparr>)"
  by code_simp

theorem resolution_survives_interference_witness:
  "resolved_in [\<lparr>u_id = 7, u_subject = ''s'', u_created = some_timestamp 0\<rparr>] ''s''
     \<lparr>User_ID = 7, User_AuthlierSubjectID = ''s'', User_CreatedAt = 0\<rparr>"
proof -
  have "users_unique []" "not_blank (User_AuthlierSubjectID sample_user)"
    by (simp_all add: users_unique_def not_blank_def btrim_def sample_user_def)
  from resolution_survives_interference [OF raced_well_behaved this sample_raced] show ?thesis
    by (simp add: sample_user_def)
qed

text \<open>
  C19. One user per subject. Any run of \<open>ResolveUser\<close> calls of the service, each with its own
  interference and failures, leaves a unique table that still has every row it had; every answer
  that is a user is the row of its subject in that final table, which the lookup finds there, so
  that all the answers for one subject (up to surrounding space) are the same user.
\<close>

theorem one_user_per_subject:
  assumes "users_unique rows" "\<forall>env\<in>set envs. well_behaved env"
    and "service_end scripted_repository (rows, envs) calls = (rows', envs')"
  shows "users_unique rows' \<and> set rows \<subseteq> set rows' \<and>
    (\<forall>subject u. (subject, Inr u) \<in> set (service_run scripted_repository (rows, envs) calls) \<longrightarrow>
       UserByAuthlierSubjectID None rows' subject = Inr u \<and>
       (\<forall>v. (subject, Inr v) \<in> set (service_run scripted_repository (rows, envs) calls) \<longrightarrow> v = u))"
proof (intro conjI allI impI)
  note stored = scripted.service_run_stored [of "(rows, envs)" calls, unfolded assms(3)]
  show unique: "users_unique rows'" and "set rows \<subseteq> set rows'"
    using stored assms(1,2) by (auto simp: extends_def)
  fix subject u
  assume u: "(subject, Inr u) \<in> set (service_run scripted_repository (rows, envs) calls)"
  then have "resolved_in rows' subject u" using stored assms(1,2) by auto
  then show "UserByAuthlierSubjectID None rows' subject = Inr u"
    using GetUser_found [OF unique] by (auto simp: resolved_in_def UserByAuthlierSubjectID_def or_error_def)
  fix v
  assume "(subject, Inr v) \<in> set (service_run scripted_repository (rows, envs) calls)"
  with u scripted.service_run_agrees [of "(rows, envs)" subject v calls u] assms(1,2) show "v = u" by simp
qed

definition sample_resolutions :: "(string \<times> User result) list" where
  "sample_resolutions = service_run scripted_repository ([], [raced]) [(Inr 1, '' s''), (Inr 2, ''s '')]"

lemma sample_resolutions_values:
  "sample_resolutions =
     [(''s'', Inr \<lparr>User_ID = 7, User_AuthlierSubjectID = ''s'', User_CreatedAt = 0\<rparr>),
      (''s'', Inr \<lparr>User_ID = 7, User_AuthlierSubjectID = ''s'', User_CreatedAt = 0\<rparr>)]"
  by code_simp

theorem one_user_per_subject_witness:
  "\<exists>u. UserByAuthlierSubjectID None [\<lparr>u_id = 7, u_subject = ''s'', u_created = some_timestamp 0\<rparr>] ''s'' = Inr u \<and>
     sample_resolutions = [(''s'', Inr u), (''s'', Inr u)]"
proof -
  have "users_unique []" "\<forall>env\<in>set [raced]. well_behaved env"
    by (simp_all add: users_unique_def raced_well_behaved)
  moreover have "fst (service_end scripted_repository ([], [raced]) [(Inr 1, '' s''), (Inr 2, ''s '')]) =
      [\<lparr>u_id = 7, u_subject = ''s'', u_created = some_timestamp 0\<rparr>]"
    by code_simp
  then obtain envs' where "service_end scripted_repository ([], [raced]) [(Inr 1, '' s''), (Inr 2, ''s '')] =
      ([\<lparr>u_id = 7, u_subject = ''s'', u_created = some_timestamp 0\<rparr>], envs')"
    by (metis prod.collapse)
  ultimately have "(''s'', Inr u) \<in> set sample_resolutions \<Longrightarrow>
      UserByAuthlierSubjectID None [\<lparr>u_id = 7, u_subject = ''s'', u_created = some_timestamp 0\<rparr>] ''s'' = Inr u" for u
    unfolding sample_resolutions_def using one_user_per_subject by blast
  then show ?thesis unfolding sample_resolutions_values by simp
qed

end
