(* ===== verification/Organizations.thy ===== *)
theory Organizations
  imports Users
begin

text \<open>
  Organizations: \<open>internal/organizations\<close>. Creating an organization stores it with its Admin
  and Developer roles and its owner's membership in one transaction; the access query lists
  what a user may enter.
\<close>

section \<open>Models\<close>

datatype OrganizationRoleSystemKey = Role_key string

definition OrganizationRoleSystemKeyAdmin :: OrganizationRoleSystemKey where
  "OrganizationRoleSystemKeyAdmin = Role_key ''admin''"

definition OrganizationRoleSystemKeyDeveloper :: OrganizationRoleSystemKey where
  "OrganizationRoleSystemKeyDeveloper = Role_key ''developer''"

datatype OrganizationMembershipStatus = Membership_status string

definition OrganizationMembershipStatusActive :: OrganizationMembershipStatus where
  "OrganizationMembershipStatusActive = Membership_status ''active''"

definition OrganizationMembershipStatusSuspended :: OrganizationMembershipStatus where
  "OrganizationMembershipStatusSuspended = Membership_status ''suspended''"

record Organization =
  Org_ID :: uuid
  Org_OwnerUserID :: uuid
  Org_Name :: string
  Org_CreatedAt :: instant
  Org_UpdatedAt :: instant
  Org_DeletedAt :: "instant option"
  Org_SuspendedAt :: "instant option"

record OrganizationRole =
  Role_ID :: uuid
  Role_OrganizationID :: uuid
  Role_Name :: string
  Role_SystemKey :: "OrganizationRoleSystemKey option"
  Role_CreatedAt :: instant
  Role_UpdatedAt :: instant
  Role_DeletedAt :: "instant option"

record OrganizationMembership =
  Membership_OrganizationID :: uuid
  Membership_UserID :: uuid
  Membership_RoleID :: uuid
  Membership_Status :: OrganizationMembershipStatus
  Membership_CreatedAt :: instant
  Membership_UpdatedAt :: instant
  Membership_RemovedAt :: "instant option"

record OrganizationAccess =
  Access_OrganizationID :: uuid
  Access_OrganizationName :: string
  Access_Owner :: bool
  Access_RoleID :: uuid
  Access_RoleName :: string
  Access_RoleSystemKey :: "OrganizationRoleSystemKey option"

section \<open>Mapping rows\<close>

definition nullableTime :: "timestamptz \<Rightarrow> instant option" where
  "nullableTime v = (if \<not> Valid v then None else Some (Time v))"

definition nullableRoleSystemKey :: "OrganizationRoleSystemKey option \<Rightarrow> string option" where
  "nullableRoleSystemKey v = (case v of None \<Rightarrow> None | Some (Role_key key) \<Rightarrow> Some key)"

definition roleSystemKey :: "string option \<Rightarrow> OrganizationRoleSystemKey option" where
  "roleSystemKey v = (case v of None \<Rightarrow> None | Some key \<Rightarrow> Some (Role_key key))"

primrec status_string :: "OrganizationMembershipStatus \<Rightarrow> string" where
  "status_string (Membership_status s) = s"

definition mapOrganization :: "organizations_row \<Rightarrow> Organization" where
  "mapOrganization row =
     \<lparr>Org_ID = o_id row, Org_OwnerUserID = o_owner row, Org_Name = o_name row,
      Org_CreatedAt = Time (o_created row), Org_UpdatedAt = Time (o_updated row),
      Org_DeletedAt = nullableTime (o_deleted row), Org_SuspendedAt = nullableTime (o_suspended row)\<rparr>"

definition mapOrganizationMembership :: "memberships_row \<Rightarrow> OrganizationMembership" where
  "mapOrganizationMembership row =
     \<lparr>Membership_OrganizationID = m_org row, Membership_UserID = m_user row, Membership_RoleID = m_role row,
      Membership_Status = Membership_status (m_status row), Membership_CreatedAt = Time (m_created row),
      Membership_UpdatedAt = Time (m_updated row), Membership_RemovedAt = nullableTime (m_removed row)\<rparr>"

definition mapCreatedOrganizationMembership :: "memberships_row \<Rightarrow> OrganizationMembership" where
  "mapCreatedOrganizationMembership row =
     \<lparr>Membership_OrganizationID = m_org row, Membership_UserID = m_user row, Membership_RoleID = m_role row,
      Membership_Status = Membership_status (m_status row), Membership_CreatedAt = Time (m_created row),
      Membership_UpdatedAt = Time (m_updated row), Membership_RemovedAt = nullableTime (m_removed row)\<rparr>"

definition mapOrganizationRole :: "roles_row \<Rightarrow> OrganizationRole" where
  "mapOrganizationRole row =
     \<lparr>Role_ID = r_id row, Role_OrganizationID = r_org row, Role_Name = r_name row,
      Role_SystemKey = roleSystemKey (r_key row), Role_CreatedAt = Time (r_created row),
      Role_UpdatedAt = Time (r_updated row), Role_DeletedAt = nullableTime (r_deleted row)\<rparr>"

lemma roleSystemKey_round_trip [simp]:
  "roleSystemKey (nullableRoleSystemKey k) = k" "nullableRoleSystemKey (roleSystemKey s) = s"
  by (auto simp: roleSystemKey_def nullableRoleSystemKey_def split: option.splits OrganizationRoleSystemKey.splits)

lemma nullableTime_simps [simp]: "nullableTime null_timestamp = None" "nullableTime (some_timestamp t) = Some t"
  by (simp_all add: nullableTime_def null_timestamp_def some_timestamp_def)

section \<open>Repository\<close>

fun insert_roles ::
  "(string \<Rightarrow> string) \<Rightarrow> tx_env \<Rightarrow> nat \<Rightarrow> tables \<Rightarrow> OrganizationRole list \<Rightarrow> tables result" where
  "insert_roles lower env n db [] = Inr db"
| "insert_roles lower env n db (role # roles) =
     (case or_error (statement_error env n)
             (CreateOrganizationRole_statement lower (tx_now env) db (Role_ID role) (Role_OrganizationID role)
                (Role_Name role) (nullableRoleSystemKey (Role_SystemKey role))) of
        Inl err \<Rightarrow> Inl (Wrap ''create organization role'' err)
      | Inr (db', row) \<Rightarrow> insert_roles lower env (Suc n) db' roles)"

text \<open>The statements of the transaction: the tables and rows to commit.\<close>

definition create_organization_rows ::
  "(string \<Rightarrow> string) \<Rightarrow> tx_env \<Rightarrow> tables \<Rightarrow> Organization \<Rightarrow> OrganizationRole list \<Rightarrow> OrganizationMembership \<Rightarrow>
   (tables \<times> organizations_row \<times> memberships_row) result" where
  "create_organization_rows lower env db organization roles membership =
     (case or_error (statement_error env 0)
             (CreateOrganization_statement (tx_now env) db (Org_ID organization) (Org_OwnerUserID organization)
                (Org_Name organization)) of
        Inl err \<Rightarrow> Inl (Wrap ''create organization'' err)
      | Inr (db1, createdOrganization) \<Rightarrow>
          (case insert_roles lower env 1 db1 roles of
             Inl err \<Rightarrow> Inl err
           | Inr db2 \<Rightarrow>
               (case or_error (statement_error env (Suc (length roles)))
                       (CreateOrganizationMembership_statement (tx_now env) db2
                          (Membership_OrganizationID membership) (Membership_UserID membership)
                          (Membership_RoleID membership) (status_string (Membership_Status membership))) of
                  Inl err \<Rightarrow> Inl (Wrap ''create owner membership'' err)
                | Inr (db3, createdMembership) \<Rightarrow> Inr (db3, createdOrganization, createdMembership))))"

definition CreateOrganizationWithOwner ::
  "(string \<Rightarrow> string) \<Rightarrow> tx_env \<Rightarrow> tables \<Rightarrow> Organization \<Rightarrow> OrganizationRole list \<Rightarrow> OrganizationMembership \<Rightarrow>
   tables \<times> (Organization \<times> OrganizationMembership) result" where
  "CreateOrganizationWithOwner lower env db organization roles membership =
     (case begin_error env of
        Some err \<Rightarrow> (db, Inl (Wrap ''begin transaction'' err))
      | None \<Rightarrow>
          (case create_organization_rows lower env db organization roles membership of
             Inl err \<Rightarrow> (db, Inl err)
           | Inr (db', createdOrganization, createdMembership) \<Rightarrow>
               (case Eval (commit_link env) (\<lambda>_. (db', ())) db of
                  (final, Inl err) \<Rightarrow> (final, Inl (Wrap ''commit transaction'' err))
                | (final, Inr _) \<Rightarrow>
                    (final, Inr (mapOrganization createdOrganization,
                                 mapCreatedOrganizationMembership createdMembership)))))"

definition GetOrganizationMembership :: "go_error option \<Rightarrow> tables \<Rightarrow> uuid \<Rightarrow> uuid \<Rightarrow> OrganizationMembership result" where
  "GetOrganizationMembership fault db organizationID userID =
     (case or_error fault (GetOrganizationMembership_statement db organizationID userID) of
        Inl err \<Rightarrow> Inl (Wrap ''get organization membership'' err)
      | Inr membership \<Rightarrow> Inr (mapOrganizationMembership membership))"

definition access_of :: "memberships_row \<times> organizations_row \<times> roles_row \<Rightarrow> OrganizationAccess" where
  "access_of row =
     (case row of (m, o', r) \<Rightarrow>
        \<lparr>Access_OrganizationID = o_id o', Access_OrganizationName = o_name o', Access_Owner = (o_owner o' = m_user m),
         Access_RoleID = r_id r, Access_RoleName = r_name r, Access_RoleSystemKey = roleSystemKey (r_key r)\<rparr>)"

definition ActiveOrganizationAccessByUser ::
  "go_error option \<Rightarrow> tables \<Rightarrow> uuid \<Rightarrow> OrganizationAccess list result" where
  "ActiveOrganizationAccessByUser fault db userID =
     (case or_error fault (Inr (ListActiveOrganizationAccessByUser_statement db userID)) of
        Inl err \<Rightarrow> Inl (Wrap ''list active organization access by user'' err)
      | Inr rows \<Rightarrow> Inr (map access_of rows))"

definition OrganizationRoles :: "(string \<Rightarrow> int) \<Rightarrow> go_error option \<Rightarrow> tables \<Rightarrow> uuid \<Rightarrow> OrganizationRole list result" where
  "OrganizationRoles rank fault db organizationID =
     (case or_error fault (Inr (ListOrganizationRoles_statement rank db organizationID)) of
        Inl err \<Rightarrow> Inl (Wrap ''list organization roles'' err)
      | Inr roles \<Rightarrow> Inr (map mapOrganizationRole roles))"

section \<open>Service\<close>

definition ErrOrganizationNameRequired :: string where
  "ErrOrganizationNameRequired = ''organizations.ErrOrganizationNameRequired''"

definition ErrOwnerUserIDRequired :: string where
  "ErrOwnerUserIDRequired = ''organizations.ErrOwnerUserIDRequired''"

definition new_organization :: "uuid \<Rightarrow> uuid \<Rightarrow> string \<Rightarrow> Organization" where
  "new_organization organizationID owner name =
     \<lparr>Org_ID = organizationID, Org_OwnerUserID = owner, Org_Name = name, Org_CreatedAt = zero_time,
      Org_UpdatedAt = zero_time, Org_DeletedAt = None, Org_SuspendedAt = None\<rparr>"

definition new_role :: "uuid \<Rightarrow> uuid \<Rightarrow> string \<Rightarrow> OrganizationRoleSystemKey \<Rightarrow> OrganizationRole" where
  "new_role roleID organizationID name key =
     \<lparr>Role_ID = roleID, Role_OrganizationID = organizationID, Role_Name = name, Role_SystemKey = Some key,
      Role_CreatedAt = zero_time, Role_UpdatedAt = zero_time, Role_DeletedAt = None\<rparr>"

definition new_membership :: "uuid \<Rightarrow> uuid \<Rightarrow> uuid \<Rightarrow> OrganizationMembership" where
  "new_membership organizationID owner roleID =
     \<lparr>Membership_OrganizationID = organizationID, Membership_UserID = owner, Membership_RoleID = roleID,
      Membership_Status = OrganizationMembershipStatusActive, Membership_CreatedAt = zero_time,
      Membership_UpdatedAt = zero_time, Membership_RemovedAt = None\<rparr>"

text \<open>The service over any repository; the three ids are the outcomes of generating them, in order.\<close>

type_synonym 's OrganizationRepository =
  "'s \<Rightarrow> Organization \<Rightarrow> OrganizationRole list \<Rightarrow> OrganizationMembership \<Rightarrow>
   's \<times> (Organization \<times> OrganizationMembership) result"

record 's OrganizationManagementService =
  Organization_repository :: "'s OrganizationRepository"

definition NewOrganizationManagementService :: "'s OrganizationRepository \<Rightarrow> 's OrganizationManagementService" where
  "NewOrganizationManagementService repository = \<lparr>Organization_repository = repository\<rparr>"

definition CreateOrganization ::
  "'s OrganizationManagementService \<Rightarrow> uuid result \<times> uuid result \<times> uuid result \<Rightarrow> 's \<Rightarrow> string \<Rightarrow> uuid \<Rightarrow>
   's \<times> (Organization \<times> OrganizationMembership) result" where
  "CreateOrganization service new_ids s name ownerUserID =
     (let name = TrimSpace name
      in if name = [] then (s, Inl (Sentinel ErrOrganizationNameRequired))
         else if ownerUserID = uuid_nil then (s, Inl (Sentinel ErrOwnerUserIDRequired))
         else
           (case new_ids of (id1, id2, id3) \<Rightarrow>
              (case ids_new id1 of
                 Inl err \<Rightarrow> (s, Inl (Wrap ''generate organization ID'' err))
               | Inr organizationID \<Rightarrow>
                   (case ids_new id2 of
                      Inl err \<Rightarrow> (s, Inl (Wrap ''generate Admin role ID'' err))
                    | Inr adminRoleID \<Rightarrow>
                        (case ids_new id3 of
                           Inl err \<Rightarrow> (s, Inl (Wrap ''generate Developer role ID'' err))
                         | Inr developerRoleID \<Rightarrow>
                             Organization_repository service s (new_organization organizationID ownerUserID name)
                               [new_role adminRoleID organizationID ''Admin'' OrganizationRoleSystemKeyAdmin,
                                new_role developerRoleID organizationID ''Developer'' OrganizationRoleSystemKeyDeveloper]
                               (new_membership organizationID ownerUserID adminRoleID))))))"

lemma Organization_repository_New [simp]: "Organization_repository (NewOrganizationManagementService repository) = repository"
  by (simp add: NewOrganizationManagementService_def)

section \<open>The transaction\<close>

definition organization_row :: "instant \<Rightarrow> Organization \<Rightarrow> organizations_row" where
  "organization_row now org =
     \<lparr>o_id = Org_ID org, o_owner = Org_OwnerUserID org, o_name = Org_Name org, o_created = some_timestamp now,
      o_updated = some_timestamp now, o_deleted = null_timestamp, o_suspended = null_timestamp\<rparr>"

definition role_row :: "instant \<Rightarrow> OrganizationRole \<Rightarrow> roles_row" where
  "role_row now role =
     \<lparr>r_id = Role_ID role, r_org = Role_OrganizationID role, r_name = Role_Name role,
      r_key = nullableRoleSystemKey (Role_SystemKey role), r_created = some_timestamp now,
      r_updated = some_timestamp now, r_deleted = null_timestamp\<rparr>"

definition membership_row :: "instant \<Rightarrow> OrganizationMembership \<Rightarrow> memberships_row" where
  "membership_row now m =
     \<lparr>m_org = Membership_OrganizationID m, m_user = Membership_UserID m, m_role = Membership_RoleID m,
      m_status = status_string (Membership_Status m), m_created = some_timestamp now,
      m_updated = some_timestamp now, m_removed = null_timestamp\<rparr>"

text \<open>The tables with an organization, its roles and its owner's membership added.\<close>

definition added ::
  "instant \<Rightarrow> tables \<Rightarrow> Organization \<Rightarrow> OrganizationRole list \<Rightarrow> OrganizationMembership \<Rightarrow> tables" where
  "added now db org roles m =
     db\<lparr>organizations := organizations db @ [organization_row now org],
        organization_roles := organization_roles db @ map (role_row now) roles,
        organization_memberships := organization_memberships db @ [membership_row now m]\<rparr>"

lemma CreateOrganization_row:
  "CreateOrganization_statement now db (Org_ID org) (Org_OwnerUserID org) (Org_Name org) = Inr (db', row) \<longleftrightarrow>
   organization_ok db (organization_row now org) \<and> row = organization_row now org \<and>
   db' = db\<lparr>organizations := organizations db @ [row]\<rparr>"
  by (auto simp: CreateOrganization_statement_def organization_row_def Let_def)

lemma CreateRole_row:
  "CreateOrganizationRole_statement lower now db (Role_ID role) (Role_OrganizationID role) (Role_Name role)
     (nullableRoleSystemKey (Role_SystemKey role)) = Inr (db', row) \<longleftrightarrow>
   role_ok lower db (role_row now role) \<and> row = role_row now role \<and>
   db' = db\<lparr>organization_roles := organization_roles db @ [row]\<rparr>"
  by (auto simp: CreateOrganizationRole_statement_def role_row_def Let_def)

lemma CreateMembership_row:
  "CreateOrganizationMembership_statement now db (Membership_OrganizationID m) (Membership_UserID m)
     (Membership_RoleID m) (status_string (Membership_Status m)) = Inr (db', row) \<longleftrightarrow>
   membership_ok db (membership_row now m) \<and> row = membership_row now m \<and>
   db' = db\<lparr>organization_memberships := organization_memberships db @ [row]\<rparr>"
  by (auto simp: CreateOrganizationMembership_statement_def membership_row_def Let_def)

lemma insert_roles_rows:
  "insert_roles lower env n db roles = Inr db' \<Longrightarrow>
   db' = db\<lparr>organization_roles := organization_roles db @ map (role_row (tx_now env)) roles\<rparr> \<and>
   (consistent lower db \<longrightarrow> consistent lower db')"
proof (induction roles arbitrary: n db)
  case (Cons role roles)
  obtain db1 row where step: "CreateOrganizationRole_statement lower (tx_now env) db (Role_ID role) (Role_OrganizationID role)
      (Role_Name role) (nullableRoleSystemKey (Role_SystemKey role)) = Inr (db1, row)"
    and rest: "insert_roles lower env (Suc n) db1 roles = Inr db'"
    using Cons.prems by (auto simp: or_error_Inr split: sum.splits)
  then have ok: "role_ok lower db (role_row (tx_now env) role)"
      "db1 = db\<lparr>organization_roles := organization_roles db @ [role_row (tx_now env) role]\<rparr>"
    by (simp_all add: CreateRole_row)
  have kept: "consistent lower db \<longrightarrow> consistent lower db1" using consistent_role [OF _ ok(1)] ok(2) by blast
  have "db' = db\<lparr>organization_roles := organization_roles db @ map (role_row (tx_now env)) (role # roles)\<rparr>"
    using Cons.IH [OF rest] by (simp add: ok(2))
  with Cons.IH [OF rest] kept show ?case by blast
qed simp

lemma create_organization_rows_added:
  assumes "create_organization_rows lower env db org roles m = Inr (db', row, mrow)"
  shows "db' = added (tx_now env) db org roles m" "row = organization_row (tx_now env) org"
    "mrow = membership_row (tx_now env) m" "consistent lower db \<Longrightarrow> consistent lower db'"
    "organization_ok db (organization_row (tx_now env) org)"
proof -
  obtain db1 where org: "CreateOrganization_statement (tx_now env) db (Org_ID org) (Org_OwnerUserID org) (Org_Name org) = Inr (db1, row)"
    and roles: "\<exists>db2. insert_roles lower env 1 db1 roles = Inr db2 \<and>
      CreateOrganizationMembership_statement (tx_now env) db2 (Membership_OrganizationID m) (Membership_UserID m)
        (Membership_RoleID m) (status_string (Membership_Status m)) = Inr (db', mrow)"
    using assms by (auto simp: create_organization_rows_def or_error_Inr split: sum.splits)
  from roles obtain db2 where db2: "insert_roles lower env 1 db1 roles = Inr db2"
    and mem: "CreateOrganizationMembership_statement (tx_now env) db2 (Membership_OrganizationID m) (Membership_UserID m)
        (Membership_RoleID m) (status_string (Membership_Status m)) = Inr (db', mrow)" by blast
  note org = org [unfolded CreateOrganization_row] and mem = mem [unfolded CreateMembership_row]
    and db2 = insert_roles_rows [OF db2]
  show "db' = added (tx_now env) db org roles m" "row = organization_row (tx_now env) org"
    "mrow = membership_row (tx_now env) m"
    using org mem db2 by (simp_all add: added_def)
  show "organization_ok db (organization_row (tx_now env) org)" using org by blast
  show "consistent lower db'" if "consistent lower db"
    using that org mem db2 consistent_organization consistent_membership by metis
qed

lemma CreateOrganizationWithOwner_cases:
  assumes "CreateOrganizationWithOwner lower env db org roles m = (db', res)"
  obtains (failed) e where "db' = db" "res = Inl e" "commit_link env \<noteq> Answered \<or>
      begin_error env \<noteq> None \<or> (\<exists>e. create_organization_rows lower env db org roles m = Inl e)"
  | (lost) e e' where "db' = added (tx_now env) db org roles m" "res = Inl e" "commit_link env = Lost_after e'"
      "consistent lower db \<Longrightarrow> consistent lower db'"
  | (created) "db' = added (tx_now env) db org roles m"
      "res = Inr (mapOrganization (organization_row (tx_now env) org), mapOrganizationMembership (membership_row (tx_now env) m))"
      "consistent lower db \<Longrightarrow> consistent lower db'" "organization_ok db (organization_row (tx_now env) org)"
proof (cases "create_organization_rows lower env db org roles m")
  case (Inl e)
  show ?thesis
  proof (cases "begin_error env")
    case None
    with Inl assms show ?thesis by (intro failed [of e]) (simp_all add: CreateOrganizationWithOwner_def)
  next
    case (Some err)
    with Inl assms show ?thesis
      by (intro failed [of "Wrap ''begin transaction'' err"]) (simp_all add: CreateOrganizationWithOwner_def)
  qed
next
  case (Inr rows)
  obtain db1 row mrow where rows: "rows = (db1, row, mrow)" by (metis prod.exhaust)
  note added = create_organization_rows_added [OF Inr [unfolded rows]]
  show ?thesis
  proof (cases "begin_error env")
    case (Some e)
    with assms show ?thesis by (intro failed) (auto simp: CreateOrganizationWithOwner_def)
  next
    case None
    show ?thesis
    proof (cases "commit_link env")
      case Answered
      with assms Inr rows None added show ?thesis
        by (intro created) (auto simp: CreateOrganizationWithOwner_def Eval_def mapCreatedOrganizationMembership_def
            mapOrganizationMembership_def)
    next
      case (Lost_before e)
      with assms Inr rows None show ?thesis
        by (intro failed) (auto simp: CreateOrganizationWithOwner_def Eval_def)
    next
      case (Lost_after e)
      with assms Inr rows None added show ?thesis
        by (intro lost [of _ e]) (auto simp: CreateOrganizationWithOwner_def Eval_def)
    qed
  qed
qed

section \<open>The service over an atomic repository\<close>

text \<open>What the service asks its repository to store.\<close>

definition organization_parts ::
  "uuid \<Rightarrow> uuid \<Rightarrow> uuid \<Rightarrow> string \<Rightarrow> uuid \<Rightarrow> Organization \<times> OrganizationRole list \<times> OrganizationMembership" where
  "organization_parts organizationID adminID developerID name owner =
     (new_organization organizationID owner name,
      [new_role adminID organizationID ''Admin'' OrganizationRoleSystemKeyAdmin,
       new_role developerID organizationID ''Developer'' OrganizationRoleSystemKeyDeveloper],
      new_membership organizationID owner adminID)"

lemma CreateOrganization_cases:
  obtains (refused) e where "CreateOrganization (NewOrganizationManagementService repository) new_ids s name owner = (s, Inl e)"
  | (planned) organizationID adminID developerID where
      "new_ids = (Inr organizationID, Inr adminID, Inr developerID)" "TrimSpace name \<noteq> []" "owner \<noteq> uuid_nil"
      "CreateOrganization (NewOrganizationManagementService repository) new_ids s name owner =
         (case organization_parts organizationID adminID developerID (TrimSpace name) owner of
            (org, roles, m) \<Rightarrow> repository s org roles m)"
proof -
  obtain id1 id2 id3 where ids: "new_ids = (id1, id2, id3)" by (rule prod_cases3)
  note defs = CreateOrganization_def ids_new_def Let_def organization_parts_def ids
  show ?thesis
  proof (cases "TrimSpace name = [] \<or> owner = uuid_nil")
    case True
    show ?thesis
      by (rule refused [of "Sentinel (if TrimSpace name = [] then ErrOrganizationNameRequired else ErrOwnerUserIDRequired)"])
        (use True in \<open>auto simp: defs\<close>)
  next
    case False
    show ?thesis
    proof (cases id1)
      case (Inl e)
      with False show ?thesis by (intro refused [of "Wrap ''generate organization ID'' e"]) (simp add: defs)
    next
      case (Inr a)
      note id1 = this
      show ?thesis
      proof (cases id2)
        case (Inl e)
        with False id1 show ?thesis by (intro refused [of "Wrap ''generate Admin role ID'' e"]) (simp add: defs)
      next
        case (Inr b)
        note id2 = this
        show ?thesis
        proof (cases id3)
          case (Inl e)
          with False id1 id2 show ?thesis
            by (intro refused [of "Wrap ''generate Developer role ID'' e"]) (simp add: defs)
        next
          case (Inr c)
          with False id1 id2 show ?thesis by (intro planned [of a b c]) (simp_all add: defs)
        qed
      qed
    qed
  qed
qed

locale organization_repository =
  atomic_repository store whole ok
  for store :: "'s \<Rightarrow> Organization \<times> OrganizationRole list \<times> OrganizationMembership \<Rightarrow>
      's \<times> (Organization \<times> OrganizationMembership) result"
    and whole :: "'s \<Rightarrow> Organization \<times> OrganizationRole list \<times> OrganizationMembership \<Rightarrow> 's"
    and ok :: "'s \<Rightarrow> bool"
begin

lemma creation_whole:
  assumes "CreateOrganization (NewOrganizationManagementService (\<lambda>s org roles m. store s (org, roles, m))) new_ids s name owner = (s', res)"
  shows "s' = s \<and> (\<exists>e. res = Inl e) \<or>
    (\<exists>organizationID adminID developerID. new_ids = (Inr organizationID, Inr adminID, Inr developerID) \<and>
       TrimSpace name \<noteq> [] \<and> owner \<noteq> uuid_nil \<and>
       s' = whole s (organization_parts organizationID adminID developerID (TrimSpace name) owner))"
proof (cases rule: CreateOrganization_cases [of "\<lambda>s org roles m. store s (org, roles, m)" new_ids s name owner])
  case (refused e)
  with assms show ?thesis by auto
next
  case (planned a b c)
  then have "store s (organization_parts a b c (TrimSpace name) owner) = (s', res)"
    using assms by (simp split: prod.splits)
  from all_or_nothing [OF this] planned show ?thesis by blast
qed

lemma creation_keeps:
  assumes "CreateOrganization (NewOrganizationManagementService (\<lambda>s org roles m. store s (org, roles, m))) new_ids s name owner = (s', res)" "ok s"
  shows "ok s'"
proof (cases rule: CreateOrganization_cases [of "\<lambda>s org roles m. store s (org, roles, m)" new_ids s name owner])
  case (refused e)
  with assms show ?thesis by simp
next
  case (planned a b c)
  then have "store s (organization_parts a b c (TrimSpace name) owner) = (s', res)"
    using assms(1) by (simp split: prod.splits)
  with assms(2) show ?thesis by (rule keeps)
qed

end

definition store_organization ::
  "(string \<Rightarrow> string) \<Rightarrow> tx_env \<Rightarrow> tables \<Rightarrow> Organization \<times> OrganizationRole list \<times> OrganizationMembership \<Rightarrow>
   tables \<times> (Organization \<times> OrganizationMembership) result" where
  "store_organization lower env db parts =
     (case parts of (org, roles, m) \<Rightarrow> CreateOrganizationWithOwner lower env db org roles m)"

definition with_parts :: "instant \<Rightarrow> tables \<Rightarrow> Organization \<times> OrganizationRole list \<times> OrganizationMembership \<Rightarrow> tables" where
  "with_parts now db parts = (case parts of (org, roles, m) \<Rightarrow> added now db org roles m)"

interpretation owner_repository:
  organization_repository "store_organization lower env" "with_parts (tx_now env)" "consistent lower"
proof
  fix db db' :: tables and res and parts :: "Organization \<times> OrganizationRole list \<times> OrganizationMembership"
  obtain org roles m where parts: "parts = (org, roles, m)" by (rule prod_cases3)
  show "store_organization lower env db parts = (db', Inl e) \<Longrightarrow> db' = db \<or> db' = with_parts (tx_now env) db parts" for e
    unfolding parts store_organization_def with_parts_def prod.case by (erule CreateOrganizationWithOwner_cases) auto
  show "store_organization lower env db parts = (db', Inr y) \<Longrightarrow> db' = with_parts (tx_now env) db parts" for y
    unfolding parts store_organization_def with_parts_def prod.case by (erule CreateOrganizationWithOwner_cases) auto
  show "consistent lower db \<Longrightarrow> store_organization lower env db parts = (db', res) \<Longrightarrow> consistent lower db'"
    unfolding parts store_organization_def prod.case by (erule CreateOrganizationWithOwner_cases) auto
qed

lemma store_organization_service:
  "CreateOrganization (NewOrganizationManagementService (CreateOrganizationWithOwner lower env)) =
   CreateOrganization (NewOrganizationManagementService (\<lambda>s org roles m. store_organization lower env s (org, roles, m)))"
  by (simp add: store_organization_def)

section \<open>Creation\<close>

text \<open>
  C20. Creating an organization is all or nothing. Whatever fails, and whether or not the commit's
  answer arrives, either the tables are untouched and the caller gets an error, or they have the
  organization under its trimmed name, its Admin and Developer roles and the active membership of
  its owner with the Admin role, and nothing else has changed. Every constraint of the tables
  still holds.
\<close>

theorem organization_creation_is_atomic:
  assumes "CreateOrganization (NewOrganizationManagementService (CreateOrganizationWithOwner lower env)) new_ids db name owner = (db', res)"
  shows "(db' = db \<and> (\<exists>e. res = Inl e) \<or>
     (\<exists>organizationID adminID developerID. new_ids = (Inr organizationID, Inr adminID, Inr developerID) \<and>
        TrimSpace name \<noteq> [] \<and> owner \<noteq> uuid_nil \<and>
        db' = db\<lparr>organizations := organizations db @
                   [organization_row (tx_now env) (new_organization organizationID owner (TrimSpace name))],
                 organization_roles := organization_roles db @
                   [role_row (tx_now env) (new_role adminID organizationID ''Admin'' OrganizationRoleSystemKeyAdmin),
                    role_row (tx_now env) (new_role developerID organizationID ''Developer'' OrganizationRoleSystemKeyDeveloper)],
                 organization_memberships := organization_memberships db @
                   [membership_row (tx_now env) (new_membership organizationID owner adminID)]\<rparr>)) \<and>
     (consistent lower db \<longrightarrow> consistent lower db')"
proof (rule conjI)
  note run = assms [unfolded store_organization_service]
  show "consistent lower db \<longrightarrow> consistent lower db'" using owner_repository.creation_keeps [OF run] by blast
  show "db' = db \<and> (\<exists>e. res = Inl e) \<or>
     (\<exists>organizationID adminID developerID. new_ids = (Inr organizationID, Inr adminID, Inr developerID) \<and>
        TrimSpace name \<noteq> [] \<and> owner \<noteq> uuid_nil \<and>
        db' = db\<lparr>organizations := organizations db @
                   [organization_row (tx_now env) (new_organization organizationID owner (TrimSpace name))],
                 organization_roles := organization_roles db @
                   [role_row (tx_now env) (new_role adminID organizationID ''Admin'' OrganizationRoleSystemKeyAdmin),
                    role_row (tx_now env) (new_role developerID organizationID ''Developer'' OrganizationRoleSystemKeyDeveloper)],
                 organization_memberships := organization_memberships db @
                   [membership_row (tx_now env) (new_membership organizationID owner adminID)]\<rparr>)"
    using owner_repository.creation_whole [OF run] by (simp add: with_parts_def organization_parts_def added_def)
qed

definition sample_tables :: tables where
  "sample_tables =
     \<lparr>users = [\<lparr>u_id = 7, u_subject = ''subject'', u_created = some_timestamp 0\<rparr>,
               \<lparr>u_id = 8, u_subject = ''other'', u_created = some_timestamp 0\<rparr>],
      organizations = [], organization_roles = [], organization_memberships = [], projects = [],
      project_environments = []\<rparr>"

definition sample_tx :: "link \<Rightarrow> tx_env" where
  "sample_tx l = \<lparr>begin_error = None, statement_error = (\<lambda>_. None), commit_link = l, tx_now = 5\<rparr>"

lemma sample_tables_consistent: "consistent (\<lambda>s. s) sample_tables"
  by (simp add: consistent_def sample_tables_def users_unique_def not_blank_def btrim_def)

lemma organization_creation_is_atomic_witness:
  "\<exists>db' res. CreateOrganization (NewOrganizationManagementService (CreateOrganizationWithOwner (\<lambda>s. s) (sample_tx (Lost_after (Errorf ''eof'')))))
      (Inr 1, Inr 2, Inr 3) sample_tables '' Acme '' 7 = (db', res) \<and> (\<exists>e. res = Inl e) \<and>
    map o_name (organizations db') = [''Acme''] \<and> consistent (\<lambda>s. s) db'"
proof -
  obtain db' res where run: "CreateOrganization (NewOrganizationManagementService (CreateOrganizationWithOwner (\<lambda>s. s) (sample_tx (Lost_after (Errorf ''eof'')))))
      (Inr 1, Inr 2, Inr 3) sample_tables '' Acme '' 7 = (db', res)" by (rule prod.exhaust)
  have "consistent (\<lambda>s. s) db'" using organization_creation_is_atomic [OF run] sample_tables_consistent by blast
  moreover have "(case CreateOrganization (NewOrganizationManagementService (CreateOrganizationWithOwner (\<lambda>s. s) (sample_tx (Lost_after (Errorf ''eof'')))))
      (Inr 1, Inr 2, Inr 3) sample_tables '' Acme '' 7 of (db', res) \<Rightarrow>
      (case res of Inl e \<Rightarrow> True | Inr _ \<Rightarrow> False) \<and> map o_name (organizations db') = [''Acme''])"
    by code_simp
  ultimately show ?thesis using run by (auto split: sum.splits)
qed

lemma consistent_role_org:
  "consistent lower db \<Longrightarrow> r \<in> set (organization_roles db) \<Longrightarrow> r_org r \<in> o_id ` set (organizations db)"
  by (simp add: consistent_def)

lemma consistent_membership_org:
  "consistent lower db \<Longrightarrow> m \<in> set (organization_memberships db) \<Longrightarrow> m_org m \<in> o_id ` set (organizations db)"
  by (simp add: consistent_def)

text \<open>The rows of a new organization next to consistent tables, none of which mention a fresh id.\<close>

lemmas new_row_defs = organization_row_def role_row_def membership_row_def new_organization_def new_role_def
  new_membership_def OrganizationRoleSystemKeyAdmin_def OrganizationRoleSystemKeyDeveloper_def
  nullableRoleSystemKey_def OrganizationMembershipStatusActive_def

abbreviation admin_of :: "uuid \<Rightarrow> uuid \<Rightarrow> OrganizationRole" where
  "admin_of adminID organizationID \<equiv> new_role adminID organizationID ''Admin'' OrganizationRoleSystemKeyAdmin"

abbreviation developer_of :: "uuid \<Rightarrow> uuid \<Rightarrow> OrganizationRole" where
  "developer_of developerID organizationID \<equiv>
     new_role developerID organizationID ''Developer'' OrganizationRoleSystemKeyDeveloper"

lemma fresh_organization_unmentioned:
  assumes "consistent lower db" "organizationID \<notin> o_id ` set (organizations db)"
  shows "r \<in> set (organization_roles db) \<Longrightarrow> r_org r \<noteq> organizationID"
    "m \<in> set (organization_memberships db) \<Longrightarrow> m_org m \<noteq> organizationID"
  using consistent_role_org [OF assms(1)] consistent_membership_org [OF assms(1)] assms(2) by metis+

lemma new_rows_accepted:
  fixes db now organizationID owner name adminID developerID
  assumes consistent: "consistent lower db"
    and name: "TrimSpace name \<noteq> []" and owner: "owner \<in> u_id ` set (users db)"
    and fresh: "organizationID \<notin> o_id ` set (organizations db)"
      "adminID \<notin> r_id ` set (organization_roles db)" "developerID \<notin> r_id ` set (organization_roles db)"
      "adminID \<noteq> developerID"
    and lower: "lower ''Admin'' \<noteq> lower ''Developer''"
  defines "db1 \<equiv> db\<lparr>organizations := organizations db @ [organization_row now (new_organization organizationID owner (TrimSpace name))]\<rparr>"
    and "admin \<equiv> role_row now (admin_of adminID organizationID)"
    and "developer \<equiv> role_row now (developer_of developerID organizationID)"
  shows "organization_ok db (organization_row now (new_organization organizationID owner (TrimSpace name)))"
    "role_ok lower db1 admin"
    "role_ok lower (db1\<lparr>organization_roles := organization_roles db @ [admin]\<rparr>) developer"
    "membership_ok (db1\<lparr>organization_roles := organization_roles db @ [admin, developer]\<rparr>)
       (membership_row now (new_membership organizationID owner adminID))"
proof -
  have blank: "not_blank ''Admin''" "not_blank ''Developer''" by (simp_all add: not_blank_def btrim_def)
  note other = fresh_organization_unmentioned [OF consistent fresh(1)]
  show "organization_ok db (organization_row now (new_organization organizationID owner (TrimSpace name)))"
    using owner fresh by (simp add: organization_ok_def new_row_defs not_blank_TrimSpace name)
  show "role_ok lower db1 admin"
    using fresh other(1) by (auto simp: role_ok_def role_clash_def new_row_defs blank db1_def admin_def)
  show "role_ok lower (db1\<lparr>organization_roles := organization_roles db @ [admin]\<rparr>) developer"
    using fresh other(1) lower
    by (auto simp: role_ok_def role_clash_def new_row_defs blank db1_def admin_def developer_def)
  show "membership_ok (db1\<lparr>organization_roles := organization_roles db @ [admin, developer]\<rparr>)
       (membership_row now (new_membership organizationID owner adminID))"
    using owner other(2) by (auto simp: membership_ok_def new_row_defs db1_def admin_def developer_def)
qed

lemma insert_roles_two:
  assumes "\<And>n. statement_error env n = None"
    and "role_ok lower db (role_row (tx_now env) a)"
    and "role_ok lower (db\<lparr>organization_roles := organization_roles db @ [role_row (tx_now env) a]\<rparr>) (role_row (tx_now env) b)"
  shows "insert_roles lower env n db [a, b] =
    Inr (db\<lparr>organization_roles := organization_roles db @ [role_row (tx_now env) a, role_row (tx_now env) b]\<rparr>)"
proof -
  let ?db' = "db\<lparr>organization_roles := organization_roles db @ [role_row (tx_now env) a]\<rparr>"
  have "CreateOrganizationRole_statement lower (tx_now env) db (Role_ID a) (Role_OrganizationID a) (Role_Name a)
      (nullableRoleSystemKey (Role_SystemKey a)) = Inr (?db', role_row (tx_now env) a)"
    unfolding CreateRole_row using assms(2) by simp
  moreover have "CreateOrganizationRole_statement lower (tx_now env) ?db' (Role_ID b) (Role_OrganizationID b) (Role_Name b)
      (nullableRoleSystemKey (Role_SystemKey b)) =
      Inr (db\<lparr>organization_roles := organization_roles db @ [role_row (tx_now env) a, role_row (tx_now env) b]\<rparr>,
           role_row (tx_now env) b)"
    unfolding CreateRole_row using assms(3) by simp
  ultimately show ?thesis by (simp add: or_error_def assms(1))
qed

lemma CreateOrganizationWithOwner_accepted:
  fixes db org roles m env
  defines "db1 \<equiv> db\<lparr>organizations := organizations db @ [organization_row (tx_now env) org]\<rparr>"
  assumes env: "tx_fault_free env"
    and ok: "organization_ok db (organization_row (tx_now env) org)"
      "insert_roles lower env 1 db1 roles = Inr db2"
      "membership_ok db2 (membership_row (tx_now env) m)"
  shows "CreateOrganizationWithOwner lower env db org roles m =
    (db2\<lparr>organization_memberships := organization_memberships db2 @ [membership_row (tx_now env) m]\<rparr>,
     Inr (mapOrganization (organization_row (tx_now env) org),
          mapCreatedOrganizationMembership (membership_row (tx_now env) m)))"
proof -
  let ?m = "membership_row (tx_now env) m"
  let ?db3 = "db2\<lparr>organization_memberships := organization_memberships db2 @ [?m]\<rparr>"
  have "CreateOrganization_statement (tx_now env) db (Org_ID org) (Org_OwnerUserID org) (Org_Name org) =
      Inr (db1, organization_row (tx_now env) org)"
    unfolding CreateOrganization_row using ok(1) by (simp add: db1_def)
  moreover have "CreateOrganizationMembership_statement (tx_now env) db2 (Membership_OrganizationID m) (Membership_UserID m)
      (Membership_RoleID m) (status_string (Membership_Status m)) = Inr (?db3, ?m)"
    unfolding CreateMembership_row using ok(3) by simp
  ultimately have "create_organization_rows lower env db org roles m = Inr (?db3, organization_row (tx_now env) org, ?m)"
    using ok(2) env by (simp add: create_organization_rows_def or_error_def tx_fault_free_def)
  with env show ?thesis by (simp add: CreateOrganizationWithOwner_def tx_fault_free_def Eval_def)
qed

text \<open>
  C21. Creation succeeds when nothing fails outside the program: with a name that is not blank, an
  owner who is a known user, fresh distinct ids and a database that does not lower-case Admin and
  Developer to the same name, no constraint can refuse a statement, and the caller gets the stored
  organization and the owner's membership.
\<close>

theorem organization_creation_succeeds:
  assumes consistent: "consistent lower db"
    and name: "TrimSpace name \<noteq> []"
    and owner: "owner \<noteq> uuid_nil" "owner \<in> u_id ` set (users db)"
    and fresh: "organizationID \<notin> o_id ` set (organizations db)"
      "adminID \<notin> r_id ` set (organization_roles db)" "developerID \<notin> r_id ` set (organization_roles db)"
      "adminID \<noteq> developerID"
    and lower: "lower ''Admin'' \<noteq> lower ''Developer''"
    and env: "tx_fault_free env"
  shows "\<exists>db'. CreateOrganization (NewOrganizationManagementService (CreateOrganizationWithOwner lower env)) (Inr organizationID, Inr adminID, Inr developerID)
      db name owner =
    (db', Inr (\<lparr>Org_ID = organizationID, Org_OwnerUserID = owner, Org_Name = TrimSpace name, Org_CreatedAt = tx_now env,
                Org_UpdatedAt = tx_now env, Org_DeletedAt = None, Org_SuspendedAt = None\<rparr>,
              \<lparr>Membership_OrganizationID = organizationID, Membership_UserID = owner, Membership_RoleID = adminID,
                Membership_Status = OrganizationMembershipStatusActive, Membership_CreatedAt = tx_now env,
                Membership_UpdatedAt = tx_now env, Membership_RemovedAt = None\<rparr>))"
proof -
  have none: "\<And>n. statement_error env n = None" using env by (simp add: tx_fault_free_def)
  note ok = new_rows_accepted [OF consistent name owner(2) fresh lower, where now = "tx_now env"]
  have roles: "insert_roles lower env 1
      (db\<lparr>organizations := organizations db @ [organization_row (tx_now env) (new_organization organizationID owner (TrimSpace name))]\<rparr>)
      [admin_of adminID organizationID, developer_of developerID organizationID] = Inr
      (db\<lparr>organizations := organizations db @ [organization_row (tx_now env) (new_organization organizationID owner (TrimSpace name))],
          organization_roles := organization_roles db @ [role_row (tx_now env) (admin_of adminID organizationID),
            role_row (tx_now env) (developer_of developerID organizationID)]\<rparr>)"
    using insert_roles_two [OF none, of lower _ "admin_of adminID organizationID" "developer_of developerID organizationID" 1]
      ok(2,3) by simp
  from CreateOrganizationWithOwner_accepted [OF env ok(1) roles ok(4)] show ?thesis
    using name owner
    by (simp add: CreateOrganization_def Let_def ids_new_def mapOrganization_def mapCreatedOrganizationMembership_def
        new_row_defs some_timestamp_def null_timestamp_def nullableTime_def)
qed

lemma organization_creation_succeeds_witness:
  "\<exists>db'. CreateOrganization (NewOrganizationManagementService (CreateOrganizationWithOwner (\<lambda>s. s) (sample_tx Answered))) (Inr 1, Inr 2, Inr 3)
      sample_tables ''Acme'' 7 =
    (db', Inr (\<lparr>Org_ID = 1, Org_OwnerUserID = 7, Org_Name = TrimSpace ''Acme'', Org_CreatedAt = tx_now (sample_tx Answered),
                Org_UpdatedAt = tx_now (sample_tx Answered), Org_DeletedAt = None, Org_SuspendedAt = None\<rparr>,
              \<lparr>Membership_OrganizationID = 1, Membership_UserID = 7, Membership_RoleID = 2,
                Membership_Status = OrganizationMembershipStatusActive, Membership_CreatedAt = tx_now (sample_tx Answered),
                Membership_UpdatedAt = tx_now (sample_tx Answered), Membership_RemovedAt = None\<rparr>))"
proof (rule organization_creation_succeeds [OF sample_tables_consistent])
  show "TrimSpace ''Acme'' \<noteq> []" by code_simp
qed (simp_all add: sample_tables_def uuid_nil_def tx_fault_free_def sample_tx_def)

section \<open>Access\<close>

lemma filter_product:
  "filter P (List.product xs ys) = concat (map (\<lambda>x. map (Pair x) (filter (\<lambda>y. P (x, y)) ys)) xs)"
  by (induction xs) (simp_all add: filter_map o_def)

lemma access_join_set:
  "(m, o', r) \<in> set (access_join db user) \<longleftrightarrow>
   m \<in> set (organization_memberships db) \<and> o' \<in> set (organizations db) \<and> r \<in> set (organization_roles db) \<and>
   access_condition user m o' r"
  by (auto simp: access_join_def)

text \<open>On consistent tables an organization is reached through one membership, and so at most once.\<close>

lemma access_join_inj:
  assumes "consistent lower db"
  shows "inj_on (\<lambda>(m, o', r). o_id o') (set (access_join db user))"
proof (rule inj_onI)
  fix x y
  assume x: "x \<in> set (access_join db user)" and y: "y \<in> set (access_join db user)"
    and xy: "(case x of (m, o', r) \<Rightarrow> o_id o') = (case y of (m, o', r) \<Rightarrow> o_id o')"
  obtain m p r m' p' r' where split: "x = (m, p, r)" "y = (m', p', r')" by (metis prod.exhaust)
  have a: "(m, p, r) \<in> set (access_join db user)" and b: "(m', p', r') \<in> set (access_join db user)"
    and eq: "o_id p = o_id p'" using x y xy by (simp_all add: split)
  have uniq: "distinct (map o_id (organizations db))" "distinct (map r_id (organization_roles db))"
      "distinct (map (\<lambda>m. (m_org m, m_user m)) (organization_memberships db))"
    using assms by (simp_all add: consistent_def)
  have m: "m = m'"
    by (rule distinct_map_inj [OF uniq(3)]) (use a b eq in \<open>simp_all add: access_join_set access_condition_def\<close>)
  have p: "p = p'"
    by (rule distinct_map_inj [OF uniq(1)]) (use a b eq in \<open>simp_all add: access_join_set\<close>)
  have "r = r'"
    by (rule distinct_map_inj [OF uniq(2)]) (use a b m in \<open>simp_all add: access_join_set access_condition_def\<close>)
  with m p show "x = y" by (simp add: split)
qed

lemma access_join_distinct:
  assumes "consistent lower db"
  shows "distinct (map (\<lambda>(m, o', r). o_id o') (access_join db user))"
proof -
  have "distinct (organization_memberships db)" "distinct (organizations db)" "distinct (organization_roles db)"
    using assms by (simp_all add: consistent_def distinct_map)
  then have "distinct (access_join db user)" unfolding access_join_def by (intro distinct_filter List.distinct_product)
  with access_join_inj [OF assms] show ?thesis by (simp add: distinct_map)
qed

lemma ActiveOrganizationAccessByUser_Inr:
  "ActiveOrganizationAccessByUser fault db user = Inr access \<longleftrightarrow>
   fault = None \<and> access = map access_of (ListActiveOrganizationAccessByUser_statement db user)"
  by (auto simp: ActiveOrganizationAccessByUser_def or_error_def split: option.splits)

lemma Access_OrganizationID_access_of: "Access_OrganizationID (access_of row) = (case row of (m, o', r) \<Rightarrow> o_id o')"
  by (simp add: access_of_def split: prod.splits)

text \<open>
  C22. The access list of a user. An entry is listed exactly when the user has an active membership,
  not removed, in an organization neither deleted nor suspended, under a role not deleted; it
  carries that organization, that role and whether the user owns it. No organization is listed
  twice, and they come in order of creation, ties by id.
\<close>

theorem access_is_exactly_the_active_memberships:
  assumes "consistent lower db" "ActiveOrganizationAccessByUser fault db user = Inr access"
  shows "(entry \<in> set access \<longleftrightarrow>
     (\<exists>m\<in>set (organization_memberships db). \<exists>p\<in>set (organizations db). \<exists>r\<in>set (organization_roles db).
        m_user m = user \<and> m_org m = o_id p \<and> m_role m = r_id r \<and> r_org r = o_id p \<and>
        m_status m = ''active'' \<and> \<not> Valid (m_removed m) \<and> \<not> Valid (o_deleted p) \<and> \<not> Valid (o_suspended p) \<and>
        \<not> Valid (r_deleted r) \<and>
        entry = \<lparr>Access_OrganizationID = o_id p, Access_OrganizationName = o_name p, Access_Owner = (o_owner p = user),
                 Access_RoleID = r_id r, Access_RoleName = r_name r, Access_RoleSystemKey = roleSystemKey (r_key r)\<rparr>)) \<and>
     distinct (map Access_OrganizationID access) \<and>
     (\<exists>rows. set rows \<subseteq> set (organizations db) \<and> map o_id rows = map Access_OrganizationID access \<and>
       sorted (map (\<lambda>p. (Time (o_created p), uint (o_id p))) rows))"
proof (intro conjI)
  have access: "access = map access_of (ListActiveOrganizationAccessByUser_statement db user)"
    using assms(2) by (simp add: ActiveOrganizationAccessByUser_Inr)
  show "entry \<in> set access \<longleftrightarrow>
     (\<exists>m\<in>set (organization_memberships db). \<exists>p\<in>set (organizations db). \<exists>r\<in>set (organization_roles db).
        m_user m = user \<and> m_org m = o_id p \<and> m_role m = r_id r \<and> r_org r = o_id p \<and>
        m_status m = ''active'' \<and> \<not> Valid (m_removed m) \<and> \<not> Valid (o_deleted p) \<and> \<not> Valid (o_suspended p) \<and>
        \<not> Valid (r_deleted r) \<and>
        entry = \<lparr>Access_OrganizationID = o_id p, Access_OrganizationName = o_name p, Access_Owner = (o_owner p = user),
                 Access_RoleID = r_id r, Access_RoleName = r_name r, Access_RoleSystemKey = roleSystemKey (r_key r)\<rparr>)"
    unfolding access ListActiveOrganizationAccessByUser_statement_def set_map set_sort access_of_def access_join_def
      access_condition_def by (auto simp: image_iff) (metis, metis)
  have ids: "map Access_OrganizationID access = map (\<lambda>(m, o', r). o_id o') (ListActiveOrganizationAccessByUser_statement db user)"
    by (simp add: access Access_OrganizationID_access_of)
  show "distinct (map Access_OrganizationID access)"
    using access_join_distinct [OF assms(1), of user] unfolding ids ListActiveOrganizationAccessByUser_statement_def
    by (simp add: distinct_map)
  let ?rows = "map (\<lambda>(m, o', r). o') (ListActiveOrganizationAccessByUser_statement db user)"
  have "set ?rows \<subseteq> set (organizations db)"
    by (auto simp: ListActiveOrganizationAccessByUser_statement_def access_join_def)
  moreover have "map o_id ?rows = map Access_OrganizationID access" by (simp add: ids prod.case_distrib o_def)
  moreover have "sorted (map (\<lambda>p. (Time (o_created p), uint (o_id p))) ?rows)"
    using sorted_sort_key [of "\<lambda>(m, o', r). (Time (o_created o'), uint (o_id o'))" "access_join db user"]
    by (simp add: ListActiveOrganizationAccessByUser_statement_def o_def case_prod_unfold)
  ultimately show "\<exists>rows. set rows \<subseteq> set (organizations db) \<and> map o_id rows = map Access_OrganizationID access \<and>
       sorted (map (\<lambda>p. (Time (o_created p), uint (o_id p))) rows)" by blast
qed

text \<open>
  The rows of a fresh organization join with nothing that was there: each earlier membership keeps
  exactly the rows it joined with.
\<close>

lemma access_join_concat:
  "access_join db user =
   concat (map (\<lambda>m. map (Pair m) (concat (map (\<lambda>p. map (Pair p)
     (filter (access_condition user m p) (organization_roles db))) (organizations db)))) (organization_memberships db))"
  by (simp add: access_join_def filter_product)

lemma access_join_added:
  assumes fresh: "\<forall>m\<in>set (organization_memberships db). m_org m \<noteq> o_id p"
      "\<forall>r\<in>set roles. r_org r = o_id p" "m_org new = o_id p" "\<forall>q\<in>set (organizations db). o_id q \<noteq> o_id p"
      "\<forall>r\<in>set (organization_roles db). r_org r \<noteq> o_id p"
  defines "db' \<equiv> db\<lparr>organizations := organizations db @ [p], organization_roles := organization_roles db @ roles,
      organization_memberships := organization_memberships db @ [new]\<rparr>"
  shows "access_join db' user = access_join db user @ map (\<lambda>r. (new, p, r)) (filter (access_condition user new p) roles)"
proof -
  let ?inner = "\<lambda>ps rs m. concat (map (\<lambda>p. map (Pair p) (filter (access_condition user m p) rs)) ps)"
  have none: "filter (access_condition user m q) (organization_roles db @ roles) = filter (access_condition user m q) (organization_roles db)"
    if "m_org m \<noteq> o_id p" for m q
    using that fresh(2) by (auto simp: access_condition_def filter_empty_conv)
  have old: "?inner (organizations db @ [p]) (organization_roles db @ roles) m = ?inner (organizations db) (organization_roles db) m"
    if "m \<in> set (organization_memberships db)" for m
  proof -
    have other: "m_org m \<noteq> o_id p" using that fresh(1) by blast
    then have "filter (access_condition user m p) (organization_roles db) = []"
      by (auto simp: access_condition_def filter_empty_conv)
    then show ?thesis by (simp only: map_append concat_append none [OF other] list.map concat.simps append_Nil2)
  qed
  have "filter (access_condition user new q) (organization_roles db @ roles) = []" if "q \<in> set (organizations db)" for q
    using that fresh(3,4) by (auto simp: access_condition_def filter_empty_conv)
  then have "concat (map (\<lambda>q. map (Pair q) (filter (access_condition user new q) (organization_roles db @ roles))) (organizations db)) = []"
    by (simp del: filter_append)
  moreover have "filter (access_condition user new p) (organization_roles db) = []"
    using fresh(3,5) by (auto simp: access_condition_def filter_empty_conv)
  ultimately have new: "?inner (organizations db @ [p]) (organization_roles db @ roles) new = map (Pair p) (filter (access_condition user new p) roles)"
    by simp
  have kept: "map (\<lambda>m. map (Pair m) (?inner (organizations db @ [p]) (organization_roles db @ roles) m)) (organization_memberships db)
      = map (\<lambda>m. map (Pair m) (?inner (organizations db) (organization_roles db) m)) (organization_memberships db)"
    by (intro map_cong refl arg_cong2 [where f = map] old)
  have fields: "organizations db' = organizations db @ [p]" "organization_roles db' = organization_roles db @ roles"
      "organization_memberships db' = organization_memberships db @ [new]" by (simp_all add: db'_def)
  have "access_join db' user = concat (map (\<lambda>m. map (Pair m) (?inner (organizations db @ [p]) (organization_roles db @ roles) m))
      (organization_memberships db)) @ map (Pair new) (?inner (organizations db @ [p]) (organization_roles db @ roles) new)"
    by (simp only: access_join_concat fields map_append [of _ "organization_memberships db"] concat_append list.map
        concat.simps append_Nil2)
  then show ?thesis unfolding kept new by (simp add: access_join_concat o_def)
qed

lemma created_organization:
  assumes "CreateOrganization (NewOrganizationManagementService (CreateOrganizationWithOwner lower env)) new_ids db name owner = (db', Inr (organization, membership))"
  obtains adminID developerID where
    "db' = added (tx_now env) db (new_organization (Org_ID organization) owner (TrimSpace name))
       [admin_of adminID (Org_ID organization), developer_of developerID (Org_ID organization)]
       (new_membership (Org_ID organization) owner adminID)"
    "Membership_RoleID membership = adminID" "Org_ID organization \<notin> o_id ` set (organizations db)"
    "consistent lower db \<Longrightarrow> consistent lower db'"
proof (cases rule: CreateOrganization_cases [of "CreateOrganizationWithOwner lower env" new_ids db name owner])
  case (refused e)
  with assms show ?thesis by simp
next
  case (planned a b c)
  then have "CreateOrganizationWithOwner lower env db (new_organization a owner (TrimSpace name))
      [admin_of b a, developer_of c a] (new_membership a owner b) = (db', Inr (organization, membership))"
    using assms by (simp add: organization_parts_def)
  then show ?thesis
  proof (cases rule: CreateOrganizationWithOwner_cases)
    case created
    then have "Org_ID organization = a" "Membership_RoleID membership = b"
      by (simp_all add: mapOrganization_def mapOrganizationMembership_def new_row_defs)
    with created show ?thesis
      by (intro that [of b c]) (simp_all add: organization_ok_def organization_row_def new_organization_def)
  qed simp_all
qed

definition sample_tenant :: tables where
  "sample_tenant = with_parts 5 sample_tables (organization_parts 1 2 3 ''Acme'' 7)"

lemma sample_tenant_consistent: "consistent (\<lambda>s. s) sample_tenant"
  by code_simp

lemma access_is_exactly_the_active_memberships_witness:
  "(\<exists>access. ActiveOrganizationAccessByUser None sample_tenant 7 = Inr access \<and> distinct (map Access_OrganizationID access) \<and>
    length access = 1)"
proof -
  obtain access where list: "ActiveOrganizationAccessByUser None sample_tenant 7 = Inr access"
    by (simp add: ActiveOrganizationAccessByUser_Inr)
  have "length (access_join sample_tenant 7) = 1" by code_simp
  then have "length access = 1"
    using list by (simp add: ActiveOrganizationAccessByUser_Inr ListActiveOrganizationAccessByUser_statement_def)
  with access_is_exactly_the_active_memberships [OF sample_tenant_consistent list] list show ?thesis by blast
qed

text \<open>
  C23. After an organization was created, its owner's access list is the earlier list with one more
  entry: the new organization, owned, under its trimmed name, with the Admin role and the system
  key \<open>admin\<close>. Nobody else's list changes.
\<close>

theorem creation_gives_the_owner_access:
  assumes "consistent lower db"
    and "CreateOrganization (NewOrganizationManagementService (CreateOrganizationWithOwner lower env)) new_ids db name owner = (db', Inr (organization, membership))"
    and "ActiveOrganizationAccessByUser None db user = Inr before"
    and "ActiveOrganizationAccessByUser None db' user = Inr after"
  shows "(user \<noteq> owner \<longrightarrow> after = before) \<and>
    (user = owner \<longrightarrow> length after = Suc (length before) \<and>
       set after = insert
         \<lparr>Access_OrganizationID = Org_ID organization, Access_OrganizationName = TrimSpace name, Access_Owner = True,
          Access_RoleID = Membership_RoleID membership, Access_RoleName = ''Admin'',
          Access_RoleSystemKey = Some OrganizationRoleSystemKeyAdmin\<rparr> (set before))"
proof (rule conjI)
  from created_organization [OF assms(2)] obtain a d where
    db': "db' = added (tx_now env) db (new_organization (Org_ID organization) owner (TrimSpace name))
       [admin_of a (Org_ID organization), developer_of d (Org_ID organization)] (new_membership (Org_ID organization) owner a)"
    and role: "Membership_RoleID membership = a" and fresh: "Org_ID organization \<notin> o_id ` set (organizations db)"
    and "consistent lower db \<Longrightarrow> consistent lower db'" by blast
  with assms(1) have "distinct (map r_id (organization_roles db'))" by (simp add: consistent_def)
  then have ids: "a \<noteq> d" by (simp add: db' added_def new_row_defs)
  have others: "\<forall>q\<in>set (organizations db). o_id q \<noteq> Org_ID organization" using fresh by (metis image_eqI)
  let ?p = "organization_row (tx_now env) (new_organization (Org_ID organization) owner (TrimSpace name))"
  let ?admin = "role_row (tx_now env) (admin_of a (Org_ID organization))"
  let ?new = "membership_row (tx_now env) (new_membership (Org_ID organization) owner a)"
  have join: "access_join db' user = access_join db user @ (if user = owner then [(?new, ?p, ?admin)] else [])"
    unfolding db' added_def
    by (subst access_join_added)
      (use ids others fresh_organization_unmentioned [OF assms(1) fresh] in
       \<open>auto simp: new_row_defs access_condition_def null_timestamp_def\<close>)
  have entry: "access_of (?new, ?p, ?admin) = \<lparr>Access_OrganizationID = Org_ID organization,
      Access_OrganizationName = TrimSpace name, Access_Owner = True, Access_RoleID = Membership_RoleID membership,
      Access_RoleName = ''Admin'', Access_RoleSystemKey = Some OrganizationRoleSystemKeyAdmin\<rparr>"
    by (simp add: access_of_def new_row_defs role roleSystemKey_def)
  note lists = assms(3,4) [unfolded ActiveOrganizationAccessByUser_Inr ListActiveOrganizationAccessByUser_statement_def]
  show "user \<noteq> owner \<longrightarrow> after = before" using lists join by simp
  show "user = owner \<longrightarrow> length after = Suc (length before) \<and>
       set after = insert
         \<lparr>Access_OrganizationID = Org_ID organization, Access_OrganizationName = TrimSpace name, Access_Owner = True,
          Access_RoleID = Membership_RoleID membership, Access_RoleName = ''Admin'',
          Access_RoleSystemKey = Some OrganizationRoleSystemKeyAdmin\<rparr> (set before)"
    unfolding entry [symmetric] using lists join by simp
qed

lemma creation_gives_the_owner_access_witness:
  "\<exists>db' organization membership before after.
    CreateOrganization (NewOrganizationManagementService (CreateOrganizationWithOwner (\<lambda>s. s) (sample_tx Answered))) (Inr 1, Inr 2, Inr 3)
      sample_tables ''Acme'' 7 = (db', Inr (organization, membership)) \<and>
    ActiveOrganizationAccessByUser None sample_tables 7 = Inr before \<and>
    ActiveOrganizationAccessByUser None db' 7 = Inr after \<and> length after = Suc (length before)"
proof -
  have "(case CreateOrganization (NewOrganizationManagementService (CreateOrganizationWithOwner (\<lambda>s. s) (sample_tx Answered))) (Inr 1, Inr 2, Inr 3)
      sample_tables ''Acme'' 7 of (db', res) \<Rightarrow> (case res of Inl e \<Rightarrow> False | Inr _ \<Rightarrow> True))"
    by code_simp
  then obtain db' organization membership where
    run: "CreateOrganization (NewOrganizationManagementService (CreateOrganizationWithOwner (\<lambda>s. s) (sample_tx Answered))) (Inr 1, Inr 2, Inr 3)
      sample_tables ''Acme'' 7 = (db', Inr (organization, membership))"
    by (auto split: prod.splits sum.splits)
  obtain before after where lists: "ActiveOrganizationAccessByUser None sample_tables 7 = Inr before"
      "ActiveOrganizationAccessByUser None db' 7 = Inr after"
    by (simp add: ActiveOrganizationAccessByUser_Inr)
  from creation_gives_the_owner_access [OF sample_tables_consistent run lists] run lists show ?thesis by blast
qed

end
