(* ===== verification/Projects.thy ===== *)
theory Projects
  imports Tenancy_Tables
begin

text \<open>
  Projects: \<open>internal/projects\<close>. Creating a project stores it with its sandbox environment,
  active at once, and its live environment, inactive, in one transaction.
\<close>

section \<open>Models\<close>

datatype ProjectEnvironmentName = Environment_name string

primrec environment_string :: "ProjectEnvironmentName \<Rightarrow> string" where
  "environment_string (Environment_name s) = s"

definition ProjectEnvironmentSandbox :: ProjectEnvironmentName where
  "ProjectEnvironmentSandbox = Environment_name ''sandbox''"

definition ProjectEnvironmentLive :: ProjectEnvironmentName where
  "ProjectEnvironmentLive = Environment_name ''live''"

record ProjectEnvironment =
  Environment_ID :: uuid
  Environment_ProjectID :: uuid
  Environment_Name :: ProjectEnvironmentName
  Environment_ActivatedAt :: "instant option"
  Environment_CreatedAt :: instant

record Project =
  Project_ID :: uuid
  Project_OrganizationID :: uuid
  Project_Name :: string
  Project_CreatedAt :: instant
  Project_UpdatedAt :: instant
  Project_Environments :: "ProjectEnvironment list"

section \<open>Repository\<close>

definition timestamp :: "instant option \<Rightarrow> timestamptz" where
  "timestamp v = (case v of None \<Rightarrow> null_timestamp | Some t \<Rightarrow> \<lparr>Time = t, Valid = True\<rparr>)"

definition projectEnvironmentActivation :: "environments_row \<Rightarrow> instant option" where
  "projectEnvironmentActivation row = (if \<not> Valid (e_activated row) then None else Some (Time (e_activated row)))"

definition mapProjectEnvironment :: "environments_row \<Rightarrow> ProjectEnvironment" where
  "mapProjectEnvironment row =
     \<lparr>Environment_ID = e_id row, Environment_ProjectID = e_project row,
      Environment_Name = Environment_name (e_name row), Environment_ActivatedAt = projectEnvironmentActivation row,
      Environment_CreatedAt = Time (e_created row)\<rparr>"

definition createProjectEnvironment ::
  "tx_env \<Rightarrow> nat \<Rightarrow> tables \<Rightarrow> ProjectEnvironment \<Rightarrow> (tables \<times> ProjectEnvironment) result" where
  "createProjectEnvironment env n db environment =
     (case or_error (statement_error env n)
             (CreateProjectEnvironment_statement (tx_now env) db (Environment_ID environment)
                (Environment_ProjectID environment) (environment_string (Environment_Name environment))
                (timestamp (Environment_ActivatedAt environment))) of
        Inl err \<Rightarrow> Inl (Wrap (''create '' @ environment_string (Environment_Name environment) @ '' environment'') err)
      | Inr (db', created) \<Rightarrow> Inr (db', mapProjectEnvironment created))"

fun create_environments ::
  "tx_env \<Rightarrow> nat \<Rightarrow> tables \<Rightarrow> ProjectEnvironment list \<Rightarrow> ProjectEnvironment list \<Rightarrow>
   (tables \<times> ProjectEnvironment list) result" where
  "create_environments env n db createdEnvironments [] = Inr (db, createdEnvironments)"
| "create_environments env n db createdEnvironments (environment # environments) =
     (case createProjectEnvironment env n db environment of
        Inl err \<Rightarrow> Inl err
      | Inr (db', createdEnvironment) \<Rightarrow>
          create_environments env (Suc n) db' (createdEnvironments @ [createdEnvironment]) environments)"

text \<open>The statements of the transaction: the tables to commit and what is returned then.\<close>

definition create_project_rows ::
  "tx_env \<Rightarrow> tables \<Rightarrow> Project \<Rightarrow> ProjectEnvironment list \<Rightarrow>
   (tables \<times> projects_row \<times> ProjectEnvironment list) result" where
  "create_project_rows env db project environments =
     (case or_error (statement_error env 0)
             (CreateProject_statement (tx_now env) db (Project_ID project) (Project_OrganizationID project)
                (Project_Name project)) of
        Inl err \<Rightarrow> Inl (Wrap ''create project'' err)
      | Inr (db1, createdProject) \<Rightarrow>
          (case create_environments env 1 db1 [] environments of
             Inl err \<Rightarrow> Inl err
           | Inr (db2, createdEnvironments) \<Rightarrow> Inr (db2, createdProject, createdEnvironments)))"

definition CreateProjectWithEnvironments ::
  "tx_env \<Rightarrow> tables \<Rightarrow> Project \<Rightarrow> ProjectEnvironment list \<Rightarrow> tables \<times> Project result" where
  "CreateProjectWithEnvironments env db project environments =
     (case begin_error env of
        Some err \<Rightarrow> (db, Inl (Wrap ''begin transaction'' err))
      | None \<Rightarrow>
          (case create_project_rows env db project environments of
             Inl err \<Rightarrow> (db, Inl err)
           | Inr (db', createdProject, createdEnvironments) \<Rightarrow>
               (case Eval (commit_link env) (\<lambda>_. (db', ())) db of
                  (final, Inl err) \<Rightarrow> (final, Inl (Wrap ''commit transaction'' err))
                | (final, Inr _) \<Rightarrow>
                    (final, Inr \<lparr>Project_ID = p_id createdProject, Project_OrganizationID = p_org createdProject,
                                 Project_Name = p_name createdProject,
                                 Project_CreatedAt = Time (p_created createdProject),
                                 Project_UpdatedAt = Time (p_updated createdProject),
                                 Project_Environments = createdEnvironments\<rparr>))))"

definition ProjectEnvironments ::
  "(string \<Rightarrow> int) \<Rightarrow> go_error option \<Rightarrow> tables \<Rightarrow> uuid \<Rightarrow> ProjectEnvironment list result" where
  "ProjectEnvironments rank fault db projectID =
     (case or_error fault (Inr (ListProjectEnvironments_statement rank db projectID)) of
        Inl err \<Rightarrow> Inl (Wrap ''list project environments'' err)
      | Inr environments \<Rightarrow> Inr (map mapProjectEnvironment environments))"

section \<open>Service\<close>

definition ErrOrganizationIDRequired :: string where
  "ErrOrganizationIDRequired = ''projects.ErrOrganizationIDRequired''"

definition ErrProjectNameRequired :: string where
  "ErrProjectNameRequired = ''projects.ErrProjectNameRequired''"

definition new_project :: "uuid \<Rightarrow> uuid \<Rightarrow> string \<Rightarrow> Project" where
  "new_project projectID organizationID name =
     \<lparr>Project_ID = projectID, Project_OrganizationID = organizationID, Project_Name = name,
      Project_CreatedAt = zero_time, Project_UpdatedAt = zero_time, Project_Environments = []\<rparr>"

definition new_environment :: "uuid \<Rightarrow> uuid \<Rightarrow> ProjectEnvironmentName \<Rightarrow> instant option \<Rightarrow> ProjectEnvironment" where
  "new_environment environmentID projectID name activatedAt =
     \<lparr>Environment_ID = environmentID, Environment_ProjectID = projectID, Environment_Name = name,
      Environment_ActivatedAt = activatedAt, Environment_CreatedAt = zero_time\<rparr>"

text \<open>
  The service over any repository; the three ids are the outcomes of generating them, in order,
  and \<open>now\<close> is the clock read after them.
\<close>

type_synonym 's ProjectRepository = "'s \<Rightarrow> Project \<Rightarrow> ProjectEnvironment list \<Rightarrow> 's \<times> Project result"

record 's ProjectManagementService =
  Project_repository :: "'s ProjectRepository"

definition NewProjectManagementService :: "'s ProjectRepository \<Rightarrow> 's ProjectManagementService" where
  "NewProjectManagementService repository = \<lparr>Project_repository = repository\<rparr>"

definition CreateProject ::
  "'s ProjectManagementService \<Rightarrow> uuid result \<times> uuid result \<times> uuid result \<Rightarrow> instant \<Rightarrow> 's \<Rightarrow> uuid \<Rightarrow> string \<Rightarrow>
   's \<times> Project result" where
  "CreateProject service new_ids now s organizationID name =
     (if organizationID = uuid_nil then (s, Inl (Sentinel ErrOrganizationIDRequired))
      else
        (let name = TrimSpace name
         in if name = [] then (s, Inl (Sentinel ErrProjectNameRequired))
            else
              (case new_ids of (id1, id2, id3) \<Rightarrow>
                 (case ids_new id1 of
                    Inl err \<Rightarrow> (s, Inl (Wrap ''generate project ID'' err))
                  | Inr projectID \<Rightarrow>
                      (case ids_new id2 of
                         Inl err \<Rightarrow> (s, Inl (Wrap ''generate sandbox environment ID'' err))
                       | Inr sandboxID \<Rightarrow>
                           (case ids_new id3 of
                              Inl err \<Rightarrow> (s, Inl (Wrap ''generate live environment ID'' err))
                            | Inr liveID \<Rightarrow>
                                (let activatedAt = now
                                 in Project_repository service s (new_project projectID organizationID name)
                                      [new_environment sandboxID projectID ProjectEnvironmentSandbox (Some activatedAt),
                                       new_environment liveID projectID ProjectEnvironmentLive None])))))))"

lemma Project_repository_New [simp]: "Project_repository (NewProjectManagementService repository) = repository"
  by (simp add: NewProjectManagementService_def)

section \<open>The transaction\<close>

definition project_row :: "instant \<Rightarrow> Project \<Rightarrow> projects_row" where
  "project_row now p =
     \<lparr>p_id = Project_ID p, p_org = Project_OrganizationID p, p_name = Project_Name p,
      p_created = some_timestamp now, p_updated = some_timestamp now\<rparr>"

text \<open>PostgreSQL keeps microseconds.\<close>

definition microseconds :: "instant \<Rightarrow> instant" where
  "microseconds t = t div 1000 * 1000"

definition environment_row :: "instant \<Rightarrow> ProjectEnvironment \<Rightarrow> environments_row" where
  "environment_row now e =
     \<lparr>e_id = Environment_ID e, e_project = Environment_ProjectID e, e_name = environment_string (Environment_Name e),
      e_activated = (case Environment_ActivatedAt e of None \<Rightarrow> null_timestamp | Some t \<Rightarrow> some_timestamp (microseconds t)),
      e_created = some_timestamp now\<rparr>"

text \<open>The tables with a project and its environments added, and what the repository returns for it.\<close>

definition with_project :: "instant \<Rightarrow> tables \<Rightarrow> Project \<times> ProjectEnvironment list \<Rightarrow> tables" where
  "with_project now db parts =
     (case parts of (project, environments) \<Rightarrow>
        db\<lparr>projects := projects db @ [project_row now project],
           project_environments := project_environments db @ map (environment_row now) environments\<rparr>)"

definition created_project :: "instant \<Rightarrow> Project \<Rightarrow> ProjectEnvironment list \<Rightarrow> Project" where
  "created_project now project environments =
     \<lparr>Project_ID = Project_ID project, Project_OrganizationID = Project_OrganizationID project,
      Project_Name = Project_Name project, Project_CreatedAt = now, Project_UpdatedAt = now,
      Project_Environments = map (mapProjectEnvironment \<circ> environment_row now) environments\<rparr>"

lemma CreateProject_row:
  "CreateProject_statement now db (Project_ID p) (Project_OrganizationID p) (Project_Name p) = Inr (db', row) \<longleftrightarrow>
   project_ok db (project_row now p) \<and> row = project_row now p \<and> db' = db\<lparr>projects := projects db @ [row]\<rparr>"
  by (auto simp: CreateProject_statement_def project_row_def Let_def)

lemma CreateEnvironment_row:
  "CreateProjectEnvironment_statement now db (Environment_ID e) (Environment_ProjectID e)
     (environment_string (Environment_Name e)) (timestamp (Environment_ActivatedAt e)) = Inr (db', row) \<longleftrightarrow>
   environment_ok db (environment_row now e) \<and> row = environment_row now e \<and>
   db' = db\<lparr>project_environments := project_environments db @ [row]\<rparr>"
proof -
  have "\<lparr>e_id = Environment_ID e, e_project = Environment_ProjectID e, e_name = environment_string (Environment_Name e),
      e_activated = (if Valid (timestamp (Environment_ActivatedAt e))
        then some_timestamp (Time (timestamp (Environment_ActivatedAt e)) div 1000 * 1000) else null_timestamp),
      e_created = some_timestamp now\<rparr> = environment_row now e"
    by (cases "Environment_ActivatedAt e") (simp_all add: environment_row_def timestamp_def null_timestamp_def microseconds_def)
  then show ?thesis by (auto simp: CreateProjectEnvironment_statement_def Let_def)
qed

lemma create_environments_rows:
  "create_environments env n db done_envs es = Inr (db', created) \<Longrightarrow>
   db' = db\<lparr>project_environments := project_environments db @ map (environment_row (tx_now env)) es\<rparr> \<and>
   created = done_envs @ map (mapProjectEnvironment \<circ> environment_row (tx_now env)) es \<and>
   (consistent lower db \<longrightarrow> consistent lower db')"
proof (induction es arbitrary: n db done_envs)
  case (Cons e es)
  obtain db1 row where step: "CreateProjectEnvironment_statement (tx_now env) db (Environment_ID e) (Environment_ProjectID e)
      (environment_string (Environment_Name e)) (timestamp (Environment_ActivatedAt e)) = Inr (db1, row)"
    and rest: "create_environments env (Suc n) db1 (done_envs @ [mapProjectEnvironment row]) es = Inr (db', created)"
    using Cons.prems by (auto simp: createProjectEnvironment_def or_error_Inr split: sum.splits)
  then have ok: "environment_ok db (environment_row (tx_now env) e)" "row = environment_row (tx_now env) e"
      "db1 = db\<lparr>project_environments := project_environments db @ [environment_row (tx_now env) e]\<rparr>"
    by (simp_all add: CreateEnvironment_row)
  have kept: "consistent lower db \<longrightarrow> consistent lower db1" using consistent_environment [OF _ ok(1)] ok(3) by blast
  have "db' = db\<lparr>project_environments := project_environments db @ map (environment_row (tx_now env)) (e # es)\<rparr>"
    "created = done_envs @ map (mapProjectEnvironment \<circ> environment_row (tx_now env)) (e # es)"
    using Cons.IH [OF rest] by (simp_all add: ok)
  with Cons.IH [OF rest] kept show ?case by blast
qed simp

lemma create_project_rows_added:
  assumes "create_project_rows env db project es = Inr (db', row, created)"
  shows "db' = with_project (tx_now env) db (project, es)" "row = project_row (tx_now env) project"
    "created = map (mapProjectEnvironment \<circ> environment_row (tx_now env)) es"
    "consistent lower db \<Longrightarrow> consistent lower db'" "project_ok db (project_row (tx_now env) project)"
proof -
  obtain db1 where project: "CreateProject_statement (tx_now env) db (Project_ID project) (Project_OrganizationID project)
      (Project_Name project) = Inr (db1, row)"
    and envs: "create_environments env 1 db1 [] es = Inr (db', created)"
    using assms by (auto simp: create_project_rows_def or_error_Inr split: sum.splits)
  note project = project [unfolded CreateProject_row] and envs = create_environments_rows [OF envs]
  show "db' = with_project (tx_now env) db (project, es)" "row = project_row (tx_now env) project"
    "created = map (mapProjectEnvironment \<circ> environment_row (tx_now env)) es" "project_ok db (project_row (tx_now env) project)"
    using project envs [of lower] by (simp_all add: with_project_def)
  show "consistent lower db'" if "consistent lower db"
    using that project envs [of lower] consistent_project by metis
qed

lemma CreateProjectWithEnvironments_cases:
  assumes "CreateProjectWithEnvironments env db project es = (db', res)"
  obtains (failed) e where "db' = db" "res = Inl e"
  | (lost) e where "db' = with_project (tx_now env) db (project, es)" "res = Inl e"
      "consistent lower db \<Longrightarrow> consistent lower db'"
  | (created) "db' = with_project (tx_now env) db (project, es)"
      "res = Inr (created_project (tx_now env) project es)"
      "consistent lower db \<Longrightarrow> consistent lower db'" "project_ok db (project_row (tx_now env) project)"
proof (cases "begin_error env")
  case (Some e)
  with assms show ?thesis by (intro failed) (auto simp: CreateProjectWithEnvironments_def)
next
  case None
  show ?thesis
  proof (cases "create_project_rows env db project es")
    case (Inl e)
    with assms None show ?thesis by (intro failed) (auto simp: CreateProjectWithEnvironments_def)
  next
    case (Inr rows)
    obtain db1 row created_envs where rows: "rows = (db1, row, created_envs)" by (metis prod.exhaust)
    note added = create_project_rows_added [OF Inr [unfolded rows]]
    have res: "(db', res) = (case Eval (commit_link env) (\<lambda>_. (db1, ())) db of
        (final, Inl err) \<Rightarrow> (final, Inl (Wrap ''commit transaction'' err))
      | (final, Inr _) \<Rightarrow> (final, Inr (created_project (tx_now env) project es)))"
      using assms None Inr rows added(2,3)
      by (simp add: CreateProjectWithEnvironments_def created_project_def project_row_def some_timestamp_def
          split: prod.splits sum.splits)
    show ?thesis
    proof (cases "commit_link env")
      case Answered
      with res added show ?thesis by (intro created) (auto simp: Eval_def)
    next
      case (Lost_before e)
      with res show ?thesis by (intro failed) (auto simp: Eval_def)
    next
      case (Lost_after e)
      with res added show ?thesis by (intro lost) (auto simp: Eval_def)
    qed
  qed
qed

section \<open>The service over an atomic repository\<close>

definition project_parts :: "uuid \<Rightarrow> uuid \<Rightarrow> uuid \<Rightarrow> instant \<Rightarrow> uuid \<Rightarrow> string \<Rightarrow> Project \<times> ProjectEnvironment list" where
  "project_parts projectID sandboxID liveID now organizationID name =
     (new_project projectID organizationID name,
      [new_environment sandboxID projectID ProjectEnvironmentSandbox (Some now),
       new_environment liveID projectID ProjectEnvironmentLive None])"

lemma CreateProject_cases:
  obtains (refused) e where "CreateProject (NewProjectManagementService repository) new_ids now s organizationID name = (s, Inl e)"
  | (planned) projectID sandboxID liveID where
      "new_ids = (Inr projectID, Inr sandboxID, Inr liveID)" "TrimSpace name \<noteq> []" "organizationID \<noteq> uuid_nil"
      "CreateProject (NewProjectManagementService repository) new_ids now s organizationID name =
         (case project_parts projectID sandboxID liveID now organizationID (TrimSpace name) of
            (p, es) \<Rightarrow> repository s p es)"
proof -
  obtain id1 id2 id3 where ids: "new_ids = (id1, id2, id3)" by (rule prod_cases3)
  note defs = CreateProject_def ids_new_def Let_def project_parts_def ids
  have "(\<exists>e. CreateProject (NewProjectManagementService repository) new_ids now s organizationID name = (s, Inl e)) \<or>
    (TrimSpace name \<noteq> [] \<and> organizationID \<noteq> uuid_nil \<and> (\<exists>a b c. id1 = Inr a \<and> id2 = Inr b \<and> id3 = Inr c))"
    by (cases id1; cases id2; cases id3) (auto simp: defs)
  then show ?thesis
  proof (elim disjE exE conjE)
    fix a b c
    assume "TrimSpace name \<noteq> []" "organizationID \<noteq> uuid_nil" "id1 = Inr a" "id2 = Inr b" "id3 = Inr c"
    then show ?thesis by (intro planned [of a b c]) (simp_all add: defs)
  qed (rule refused)
qed

locale project_repository =
  atomic_repository store whole ok
  for store :: "'s \<Rightarrow> Project \<times> ProjectEnvironment list \<Rightarrow> 's \<times> Project result"
    and whole :: "'s \<Rightarrow> Project \<times> ProjectEnvironment list \<Rightarrow> 's"
    and ok :: "'s \<Rightarrow> bool"
begin

lemma creation_whole:
  assumes "CreateProject (NewProjectManagementService (\<lambda>s p es. store s (p, es))) new_ids now s organizationID name = (s', res)"
  shows "s' = s \<and> (\<exists>e. res = Inl e) \<or>
    (\<exists>projectID sandboxID liveID. new_ids = (Inr projectID, Inr sandboxID, Inr liveID) \<and>
       TrimSpace name \<noteq> [] \<and> organizationID \<noteq> uuid_nil \<and>
       s' = whole s (project_parts projectID sandboxID liveID now organizationID (TrimSpace name)))"
proof (cases rule: CreateProject_cases [of "\<lambda>s p es. store s (p, es)" new_ids now s organizationID name])
  case (refused e)
  with assms show ?thesis by auto
next
  case (planned a b c)
  then have "store s (project_parts a b c now organizationID (TrimSpace name)) = (s', res)"
    using assms by (simp split: prod.splits)
  from all_or_nothing [OF this] planned show ?thesis by blast
qed

lemma creation_keeps:
  assumes "CreateProject (NewProjectManagementService (\<lambda>s p es. store s (p, es))) new_ids now s organizationID name = (s', res)" "ok s"
  shows "ok s'"
proof (cases rule: CreateProject_cases [of "\<lambda>s p es. store s (p, es)" new_ids now s organizationID name])
  case (refused e)
  with assms show ?thesis by simp
next
  case (planned a b c)
  then have "store s (project_parts a b c now organizationID (TrimSpace name)) = (s', res)"
    using assms(1) by (simp split: prod.splits)
  with assms(2) show ?thesis by (rule keeps)
qed

end

definition store_project :: "tx_env \<Rightarrow> tables \<Rightarrow> Project \<times> ProjectEnvironment list \<Rightarrow> tables \<times> Project result" where
  "store_project env db parts = (case parts of (project, es) \<Rightarrow> CreateProjectWithEnvironments env db project es)"

interpretation environment_repository:
  project_repository "store_project env" "with_project (tx_now env)" "consistent lower"
proof
  fix db db' :: tables and res and parts :: "Project \<times> ProjectEnvironment list"
  obtain project es where parts: "parts = (project, es)" by (rule prod.exhaust)
  show "store_project env db parts = (db', Inl e) \<Longrightarrow> db' = db \<or> db' = with_project (tx_now env) db parts" for e
    unfolding parts store_project_def prod.case by (erule CreateProjectWithEnvironments_cases) auto
  show "store_project env db parts = (db', Inr y) \<Longrightarrow> db' = with_project (tx_now env) db parts" for y
    unfolding parts store_project_def prod.case by (erule CreateProjectWithEnvironments_cases) auto
  show "consistent lower db \<Longrightarrow> store_project env db parts = (db', res) \<Longrightarrow> consistent lower db'"
    unfolding parts store_project_def prod.case
    by (erule CreateProjectWithEnvironments_cases [where lower = lower]) auto
qed

lemma store_project_service:
  "CreateProject (NewProjectManagementService (CreateProjectWithEnvironments env)) = CreateProject (NewProjectManagementService (\<lambda>s p es. store_project env s (p, es)))"
  by (simp add: store_project_def)

section \<open>Creation\<close>

lemmas new_project_defs = project_row_def environment_row_def new_project_def new_environment_def
  ProjectEnvironmentSandbox_def ProjectEnvironmentLive_def microseconds_def

abbreviation sandbox_of :: "uuid \<Rightarrow> uuid \<Rightarrow> instant \<Rightarrow> ProjectEnvironment" where
  "sandbox_of sandboxID projectID now \<equiv> new_environment sandboxID projectID ProjectEnvironmentSandbox (Some now)"

abbreviation live_of :: "uuid \<Rightarrow> uuid \<Rightarrow> ProjectEnvironment" where
  "live_of liveID projectID \<equiv> new_environment liveID projectID ProjectEnvironmentLive None"

text \<open>
  C24. Creating a project is all or nothing. Whatever fails, and whether or not the commit's answer
  arrives, either the tables are untouched and the caller gets an error, or they have the project
  under its trimmed name with its sandbox and its live environment, and nothing else has changed;
  every constraint of the tables still holds.
\<close>

theorem project_creation_is_atomic:
  assumes "CreateProject (NewProjectManagementService (CreateProjectWithEnvironments env)) new_ids now db organizationID name = (db', res)"
  shows "(db' = db \<and> (\<exists>e. res = Inl e) \<or>
     (\<exists>projectID sandboxID liveID. new_ids = (Inr projectID, Inr sandboxID, Inr liveID) \<and>
        TrimSpace name \<noteq> [] \<and> organizationID \<noteq> uuid_nil \<and>
        db' = db\<lparr>projects := projects db @
                   [project_row (tx_now env) (new_project projectID organizationID (TrimSpace name))],
                 project_environments := project_environments db @
                   [environment_row (tx_now env) (new_environment sandboxID projectID ProjectEnvironmentSandbox (Some now)),
                    environment_row (tx_now env) (new_environment liveID projectID ProjectEnvironmentLive None)]\<rparr>)) \<and>
     (consistent lower db \<longrightarrow> consistent lower db')"
proof (rule conjI)
  note run = assms [unfolded store_project_service]
  show "consistent lower db \<longrightarrow> consistent lower db'" using environment_repository.creation_keeps [OF run] by blast
  show "db' = db \<and> (\<exists>e. res = Inl e) \<or>
     (\<exists>projectID sandboxID liveID. new_ids = (Inr projectID, Inr sandboxID, Inr liveID) \<and>
        TrimSpace name \<noteq> [] \<and> organizationID \<noteq> uuid_nil \<and>
        db' = db\<lparr>projects := projects db @
                   [project_row (tx_now env) (new_project projectID organizationID (TrimSpace name))],
                 project_environments := project_environments db @
                   [environment_row (tx_now env) (sandbox_of sandboxID projectID now),
                    environment_row (tx_now env) (live_of liveID projectID)]\<rparr>)"
    using environment_repository.creation_whole [OF run] by (simp add: with_project_def project_parts_def)
qed

lemma consistent_environment_project:
  "consistent lower db \<Longrightarrow> e \<in> set (project_environments db) \<Longrightarrow> e_project e \<in> p_id ` set (projects db)"
  by (simp add: consistent_def)

lemma new_project_accepted:
  fixes db now organizationID name projectID sandboxID liveID activatedAt
  assumes consistent: "consistent lower db"
    and name: "TrimSpace name \<noteq> []" and organization: "organizationID \<in> o_id ` set (organizations db)"
    and fresh: "projectID \<notin> p_id ` set (projects db)" "sandboxID \<notin> e_id ` set (project_environments db)"
      "liveID \<notin> e_id ` set (project_environments db)" "sandboxID \<noteq> liveID"
  defines "db1 \<equiv> db\<lparr>projects := projects db @ [project_row now (new_project projectID organizationID (TrimSpace name))]\<rparr>"
    and "sandbox \<equiv> environment_row now (sandbox_of sandboxID projectID activatedAt)"
    and "live \<equiv> environment_row now (live_of liveID projectID)"
  shows "project_ok db (project_row now (new_project projectID organizationID (TrimSpace name)))"
    "environment_ok db1 sandbox"
    "environment_ok (db1\<lparr>project_environments := project_environments db @ [sandbox]\<rparr>) live"
proof -
  have other: "e_project e \<noteq> projectID" if "e \<in> set (project_environments db)" for e
    using consistent_environment_project [OF consistent that] fresh(1) by metis
  show "project_ok db (project_row now (new_project projectID organizationID (TrimSpace name)))"
    using organization fresh by (simp add: project_ok_def new_project_defs not_blank_TrimSpace name)
  show "environment_ok db1 sandbox"
    using fresh other
    by (auto simp: environment_ok_def environment_clash_def new_project_defs db1_def sandbox_def some_timestamp_def)
  show "environment_ok (db1\<lparr>project_environments := project_environments db @ [sandbox]\<rparr>) live"
    using fresh other
    by (auto simp: environment_ok_def environment_clash_def new_project_defs db1_def sandbox_def live_def)
qed

lemma createProjectEnvironment_accepted:
  assumes "\<And>n. statement_error env n = None" "environment_ok db (environment_row (tx_now env) e)"
  shows "createProjectEnvironment env n db e =
    Inr (db\<lparr>project_environments := project_environments db @ [environment_row (tx_now env) e]\<rparr>,
         mapProjectEnvironment (environment_row (tx_now env) e))"
proof -
  have "CreateProjectEnvironment_statement (tx_now env) db (Environment_ID e) (Environment_ProjectID e)
      (environment_string (Environment_Name e)) (timestamp (Environment_ActivatedAt e)) =
    Inr (db\<lparr>project_environments := project_environments db @ [environment_row (tx_now env) e]\<rparr>, environment_row (tx_now env) e)"
    unfolding CreateEnvironment_row using assms(2) by simp
  with assms(1) show ?thesis by (simp add: createProjectEnvironment_def or_error_def)
qed

lemma create_environments_two:
  assumes "\<And>n. statement_error env n = None"
    and "environment_ok db (environment_row (tx_now env) a)"
    and "environment_ok (db\<lparr>project_environments := project_environments db @ [environment_row (tx_now env) a]\<rparr>)
      (environment_row (tx_now env) b)"
  shows "create_environments env n db [] [a, b] =
    Inr (db\<lparr>project_environments := project_environments db @
           [environment_row (tx_now env) a, environment_row (tx_now env) b]\<rparr>,
         [mapProjectEnvironment (environment_row (tx_now env) a), mapProjectEnvironment (environment_row (tx_now env) b)])"
  using createProjectEnvironment_accepted [OF assms(1,2)] createProjectEnvironment_accepted [OF assms(1,3)] by simp

lemma CreateProjectWithEnvironments_accepted:
  assumes env: "tx_fault_free env"
    and ok: "project_ok db (project_row (tx_now env) project)"
      "create_environments env 1 (db\<lparr>projects := projects db @ [project_row (tx_now env) project]\<rparr>) [] es = Inr (db2, created)"
  shows "CreateProjectWithEnvironments env db project es = (db2, Inr (created_project (tx_now env) project es))"
proof -
  have "CreateProject_statement (tx_now env) db (Project_ID project) (Project_OrganizationID project) (Project_Name project) =
      Inr (db\<lparr>projects := projects db @ [project_row (tx_now env) project]\<rparr>, project_row (tx_now env) project)"
    unfolding CreateProject_row using ok(1) by simp
  with ok(2) env have "create_project_rows env db project es = Inr (db2, project_row (tx_now env) project, created)"
    by (simp add: create_project_rows_def or_error_def tx_fault_free_def)
  moreover from this have "created = map (mapProjectEnvironment \<circ> environment_row (tx_now env)) es"
    by (rule create_project_rows_added(3))
  ultimately show ?thesis
    using env by (simp add: CreateProjectWithEnvironments_def tx_fault_free_def Eval_def created_project_def
        project_row_def some_timestamp_def)
qed

text \<open>
  Creation succeeds when nothing fails outside the program: with a name that is not blank, a
  known organization and fresh distinct ids, no constraint can refuse a statement. The caller gets
  the project with its sandbox active from the moment of the call, to the microsecond, and its
  live environment not activated.
\<close>

theorem project_creation_succeeds:
  assumes "consistent lower db" "tx_fault_free env" "TrimSpace name \<noteq> []"
    and "organizationID \<noteq> uuid_nil" "organizationID \<in> o_id ` set (organizations db)"
    and "projectID \<notin> p_id ` set (projects db)" "sandboxID \<notin> e_id ` set (project_environments db)"
      "liveID \<notin> e_id ` set (project_environments db)" "sandboxID \<noteq> liveID"
  shows "\<exists>db'. CreateProject (NewProjectManagementService (CreateProjectWithEnvironments env)) (Inr projectID, Inr sandboxID, Inr liveID) now
      db organizationID name =
    (db', Inr \<lparr>Project_ID = projectID, Project_OrganizationID = organizationID, Project_Name = TrimSpace name,
              Project_CreatedAt = tx_now env, Project_UpdatedAt = tx_now env,
              Project_Environments =
                [\<lparr>Environment_ID = sandboxID, Environment_ProjectID = projectID,
                  Environment_Name = ProjectEnvironmentSandbox,
                  Environment_ActivatedAt = Some (now div 1000 * 1000), Environment_CreatedAt = tx_now env\<rparr>,
                 \<lparr>Environment_ID = liveID, Environment_ProjectID = projectID, Environment_Name = ProjectEnvironmentLive,
                  Environment_ActivatedAt = None, Environment_CreatedAt = tx_now env\<rparr>]\<rparr>)"
proof -
  have none: "\<And>n. statement_error env n = None" using assms(2) by (simp add: tx_fault_free_def)
  let ?db1 = "db\<lparr>projects := projects db @ [project_row (tx_now env) (new_project projectID organizationID (TrimSpace name))]\<rparr>"
  note ok1 = new_project_accepted(1) [OF assms(1,3,5-9), of "tx_now env"]
    and ok = new_project_accepted(2,3) [OF assms(1,3,5-9), of "tx_now env" now]
  have "create_environments env 1 ?db1 [] [sandbox_of sandboxID projectID now, live_of liveID projectID] = Inr
      (?db1\<lparr>project_environments := project_environments ?db1 @
         [environment_row (tx_now env) (sandbox_of sandboxID projectID now), environment_row (tx_now env) (live_of liveID projectID)]\<rparr>,
       [mapProjectEnvironment (environment_row (tx_now env) (sandbox_of sandboxID projectID now)),
        mapProjectEnvironment (environment_row (tx_now env) (live_of liveID projectID))])"
    by (rule create_environments_two [OF none]) (use ok in simp_all)
  from CreateProjectWithEnvironments_accepted [OF assms(2) ok1 this] show ?thesis
    using assms(3,4)
    by (simp add: CreateProject_def Let_def ids_new_def created_project_def mapProjectEnvironment_def
        projectEnvironmentActivation_def new_project_defs some_timestamp_def null_timestamp_def)
qed

lemma created_project_parts:
  assumes "CreateProject (NewProjectManagementService (CreateProjectWithEnvironments env)) new_ids now db organizationID name = (db', Inr project)"
  obtains p sid lid where
    "db' = with_project (tx_now env) db (new_project p organizationID (TrimSpace name), [sandbox_of sid p now, live_of lid p])"
    "project = created_project (tx_now env) (new_project p organizationID (TrimSpace name)) [sandbox_of sid p now, live_of lid p]"
    "p \<notin> p_id ` set (projects db)"
proof (cases rule: CreateProject_cases [of "CreateProjectWithEnvironments env" new_ids now db organizationID name])
  case (refused e)
  with assms show ?thesis by simp
next
  case (planned a b c)
  then have "CreateProjectWithEnvironments env db (new_project a organizationID (TrimSpace name))
      [sandbox_of b a now, live_of c a] = (db', Inr project)"
    using assms by (simp add: project_parts_def)
  then show ?thesis
    by (rule CreateProjectWithEnvironments_cases)
      (use that [of a b c] in \<open>simp_all add: project_ok_def project_row_def new_project_def\<close>)
qed

text \<open>
  C25. The environments of a project just created, as the list operation returns them, are its live
  environment, inactive, and its sandbox, active, exactly these two; the environments of every
  other project are listed as before.
\<close>

theorem new_project_lists_its_two_environments:
  assumes "consistent lower db" "rank ''live'' < rank ''sandbox''"
    and "CreateProject (NewProjectManagementService (CreateProjectWithEnvironments env)) new_ids now db organizationID name = (db', Inr project)"
  shows "(ProjectEnvironments rank None db' (Project_ID project) = Inr (rev (Project_Environments project)) \<and>
     map Environment_Name (rev (Project_Environments project)) = [ProjectEnvironmentLive, ProjectEnvironmentSandbox] \<and>
     map (\<lambda>e. Environment_ActivatedAt e \<noteq> None) (rev (Project_Environments project)) = [False, True]) \<and>
     (other \<noteq> Project_ID project \<longrightarrow> ProjectEnvironments rank None db' other = ProjectEnvironments rank None db other)"
proof (rule conjI)
  obtain p s l where
    db': "db' = with_project (tx_now env) db (new_project p organizationID (TrimSpace name), [sandbox_of s p now, live_of l p])"
    and project: "project = created_project (tx_now env) (new_project p organizationID (TrimSpace name)) [sandbox_of s p now, live_of l p]"
    and fresh: "p \<notin> p_id ` set (projects db)" by (rule created_project_parts [OF assms(3)])
  have none: "filter (\<lambda>e. e_project e = p) (project_environments db) = []"
    using consistent_environment_project [OF assms(1)] fresh by (fastforce simp: filter_empty_conv)
  show "ProjectEnvironments rank None db' (Project_ID project) = Inr (rev (Project_Environments project)) \<and>
     map Environment_Name (rev (Project_Environments project)) = [ProjectEnvironmentLive, ProjectEnvironmentSandbox] \<and>
     map (\<lambda>e. Environment_ActivatedAt e \<noteq> None) (rev (Project_Environments project)) = [False, True]"
    using assms(2) none
    by (simp add: ProjectEnvironments_def or_error_def ListProjectEnvironments_statement_def db' project with_project_def
        created_project_def new_project_defs mapProjectEnvironment_def projectEnvironmentActivation_def
        some_timestamp_def null_timestamp_def)
  show "other \<noteq> Project_ID project \<longrightarrow> ProjectEnvironments rank None db' other = ProjectEnvironments rank None db other"
    by (simp add: ProjectEnvironments_def ListProjectEnvironments_statement_def db' project with_project_def
        created_project_def new_project_defs)
qed

text \<open>An organization to create projects in.\<close>

definition sample_organization :: tables where
  "sample_organization =
     \<lparr>users = [\<lparr>u_id = 7, u_subject = ''subject'', u_created = some_timestamp 0\<rparr>],
      organizations = [\<lparr>o_id = 1, o_owner = 7, o_name = ''Acme'', o_created = some_timestamp 0,
                        o_updated = some_timestamp 0, o_deleted = null_timestamp, o_suspended = null_timestamp\<rparr>],
      organization_roles = [], organization_memberships = [], projects = [], project_environments = []\<rparr>"

definition sample_commit :: "link \<Rightarrow> tx_env" where
  "sample_commit l = \<lparr>begin_error = None, statement_error = (\<lambda>_. None), commit_link = l, tx_now = 5\<rparr>"

definition sample_rank :: "string \<Rightarrow> int" where
  "sample_rank name = (if name = ''live'' then 0 else 1)"

lemma sample_organization_consistent: "consistent (\<lambda>s. s) sample_organization"
  by code_simp

lemma project_creation_is_atomic_witness:
  "\<exists>db' res. CreateProject (NewProjectManagementService (CreateProjectWithEnvironments (sample_commit (Lost_after (Errorf ''eof''))))) (Inr 4, Inr 5, Inr 6) 1234567
      sample_organization 1 '' Web '' = (db', res) \<and> (\<exists>e. res = Inl e) \<and>
    map e_name (project_environments db') = [''sandbox'', ''live''] \<and> consistent (\<lambda>s. s) db'"
proof -
  obtain db' res where run: "CreateProject (NewProjectManagementService (CreateProjectWithEnvironments (sample_commit (Lost_after (Errorf ''eof'')))))
      (Inr 4, Inr 5, Inr 6) 1234567 sample_organization 1 '' Web '' = (db', res)" by (rule prod.exhaust)
  have "consistent (\<lambda>s. s) db'" using project_creation_is_atomic [OF run] sample_organization_consistent by blast
  moreover have "(case CreateProject (NewProjectManagementService (CreateProjectWithEnvironments (sample_commit (Lost_after (Errorf ''eof'')))))
      (Inr 4, Inr 5, Inr 6) 1234567 sample_organization 1 '' Web '' of (db', res) \<Rightarrow>
      (case res of Inl e \<Rightarrow> True | Inr _ \<Rightarrow> False) \<and> map e_name (project_environments db') = [''sandbox'', ''live''])"
    by code_simp
  ultimately show ?thesis using run by (auto split: sum.splits)
qed

lemma project_creation_succeeds_witness:
  "\<exists>db'. CreateProject (NewProjectManagementService (CreateProjectWithEnvironments (sample_commit Answered))) (Inr 4, Inr 5, Inr 6) 1234567
      sample_organization 1 ''Web'' =
    (db', Inr \<lparr>Project_ID = 4, Project_OrganizationID = 1, Project_Name = TrimSpace ''Web'',
              Project_CreatedAt = tx_now (sample_commit Answered), Project_UpdatedAt = tx_now (sample_commit Answered),
              Project_Environments =
                [\<lparr>Environment_ID = 5, Environment_ProjectID = 4, Environment_Name = ProjectEnvironmentSandbox,
                  Environment_ActivatedAt = Some (1234567 div 1000 * 1000),
                  Environment_CreatedAt = tx_now (sample_commit Answered)\<rparr>,
                 \<lparr>Environment_ID = 6, Environment_ProjectID = 4, Environment_Name = ProjectEnvironmentLive,
                  Environment_ActivatedAt = None, Environment_CreatedAt = tx_now (sample_commit Answered)\<rparr>]\<rparr>)"
proof (rule project_creation_succeeds [OF sample_organization_consistent])
  show "TrimSpace ''Web'' \<noteq> []" by code_simp
qed (simp_all add: sample_organization_def uuid_nil_def tx_fault_free_def sample_commit_def)

lemma new_project_lists_its_two_environments_witness:
  "\<exists>db' project. CreateProject (NewProjectManagementService (CreateProjectWithEnvironments (sample_commit Answered))) (Inr 4, Inr 5, Inr 6) 1234567
      sample_organization 1 ''Web'' = (db', Inr project) \<and>
    ProjectEnvironments sample_rank None db' (Project_ID project) = Inr (rev (Project_Environments project))"
proof -
  have "(case CreateProject (NewProjectManagementService (CreateProjectWithEnvironments (sample_commit Answered))) (Inr 4, Inr 5, Inr 6) 1234567
      sample_organization 1 ''Web'' of (db', res) \<Rightarrow> (case res of Inl e \<Rightarrow> False | Inr _ \<Rightarrow> True))"
    by code_simp
  then obtain db' project where run: "CreateProject (NewProjectManagementService (CreateProjectWithEnvironments (sample_commit Answered)))
      (Inr 4, Inr 5, Inr 6) 1234567 sample_organization 1 ''Web'' = (db', Inr project)"
    by (auto split: prod.splits sum.splits)
  have "sample_rank ''live'' < sample_rank ''sandbox''" by (simp add: sample_rank_def)
  from new_project_lists_its_two_environments [OF sample_organization_consistent this run] run show ?thesis by blast
qed

end
