(* ===== verification/Migrations.thy ===== *)
theory Migrations
  imports Tenancy_Tables
begin

text \<open>
  The migrations of \<open>internal/infra/database/migrations\<close> with the rows they move: the tables of each
  version of the schema, each migration in both directions, and running them in order. A migration
  runs in a transaction, so one that fails changes nothing. Versions 3 and 4 differ in the name of
  one column only (\<open>clerk_user_id\<close> became \<open>authlier_subject_id\<close>, here \<open>u_subject\<close> throughout) and
  have the tables of \<open>Tenancy_Tables\<close>.
\<close>

section \<open>The earlier versions\<close>

record organizations_row1 =
  o1_id :: uuid
  o1_name :: string
  o1_created :: timestamptz
  o1_updated :: timestamptz

record memberships_row1 =
  m1_org :: uuid
  m1_user :: uuid
  m1_role :: string
  m1_status :: string
  m1_created :: timestamptz
  m1_updated :: timestamptz

record memberships_row2 = memberships_row1 +
  m2_removed :: timestamptz

record tables1 =
  users1 :: "users_row list"
  organizations1 :: "organizations_row1 list"
  memberships1 :: "memberships_row1 list"
  projects1 :: "projects_row list"
  environments1 :: "environments_row list"

record tables2 =
  users2 :: "users_row list"
  organizations2 :: "organizations_row list"
  memberships2 :: "memberships_row2 list"
  projects2 :: "projects_row list"
  environments2 :: "environments_row list"

definition roles_v1 :: "string list" where
  "roles_v1 = [''owner'', ''developer'', ''finance'', ''customer_support'']"

definition roles_v2 :: "string list" where
  "roles_v2 = [''admin'', ''developer'']"

section \<open>Version 1\<close>

definition tables_up :: tables1 where
  "tables_up = \<lparr>users1 = [], organizations1 = [], memberships1 = [], projects1 = [], environments1 = []\<rparr>"

section \<open>Version 2: the owner and the lifecycle\<close>

text \<open>
  \<open>UPDATE ... FROM\<close> with several matching rows uses one of them; which is not specified, so \<open>pick\<close>
  is a parameter.
\<close>

definition owner_members :: "tables1 \<Rightarrow> uuid \<Rightarrow> memberships_row1 list" where
  "owner_members db org = filter (\<lambda>m. m1_org m = org \<and> m1_role m = ''owner'') (memberships1 db)"

definition owned_organization ::
  "(memberships_row1 list \<Rightarrow> memberships_row1) \<Rightarrow> tables1 \<Rightarrow> organizations_row1 \<Rightarrow> organizations_row result" where
  "owned_organization pick db o' =
     (if owner_members db (o1_id o') = [] then Inl (violation ''organizations.owner_user_id'')
      else Inr \<lparr>o_id = o1_id o', o_owner = m1_user (pick (owner_members db (o1_id o'))), o_name = o1_name o',
        o_created = o1_created o', o_updated = o1_updated o', o_deleted = null_timestamp, o_suspended = null_timestamp\<rparr>)"

definition membership_up :: "memberships_row1 \<Rightarrow> memberships_row2" where
  "membership_up m =
     memberships_row1.extend (if m1_role m = ''owner'' then m\<lparr>m1_role := ''admin''\<rparr> else m)
       (memberships_row2.fields null_timestamp)"

definition lifecycle_up :: "(memberships_row1 list \<Rightarrow> memberships_row1) \<Rightarrow> tables1 \<Rightarrow> tables2 result" where
  "lifecycle_up pick db =
     (case collect (owned_organization pick db) (organizations1 db) of
        Inl err \<Rightarrow> Inl err
      | Inr owned \<Rightarrow>
          if \<not> list_all (\<lambda>o'. o_owner o' \<in> u_id ` set (users1 db)) owned
          then Inl (violation ''organizations_owner_user_id_fkey'')
          else (let members = map membership_up (memberships1 db)
                in if \<not> list_all (\<lambda>m. m1_role m \<in> set roles_v2) members
                   then Inl (violation ''organization_memberships_role_valid'')
                   else Inr \<lparr>users2 = users1 db, organizations2 = owned, memberships2 = members,
                          projects2 = projects1 db, environments2 = environments1 db\<rparr>))"

text \<open>Back: every admin becomes a developer, then the owner's membership gets its role again.\<close>

definition organization_down :: "organizations_row \<Rightarrow> organizations_row1" where
  "organization_down o' = \<lparr>o1_id = o_id o', o1_name = o_name o', o1_created = o_created o', o1_updated = o_updated o'\<rparr>"

definition membership_down :: "tables2 \<Rightarrow> memberships_row2 \<Rightarrow> memberships_row1" where
  "membership_down db m =
     (let m = memberships_row1.truncate m;
          m = (if m1_role m = ''admin'' then m\<lparr>m1_role := ''developer''\<rparr> else m)
      in if list_ex (\<lambda>o'. o_id o' = m1_org m \<and> o_owner o' = m1_user m) (organizations2 db)
         then m\<lparr>m1_role := ''owner''\<rparr> else m)"

definition lifecycle_down :: "tables2 \<Rightarrow> tables1 result" where
  "lifecycle_down db =
     (let members = map (membership_down db) (memberships2 db)
      in if \<not> list_all (\<lambda>m. m1_role m \<in> set roles_v1) members
         then Inl (violation ''organization_memberships_role_valid'')
         else Inr \<lparr>users1 = users2 db, organizations1 = map organization_down (organizations2 db), memberships1 = members,
                projects1 = projects2 db, environments1 = environments2 db\<rparr>)"

section \<open>Version 3: roles as rows\<close>

text \<open>The text of a UUID, \<open>md5(text)::uuid\<close>, \<open>lower(text)\<close> and the clock of the transaction are parameters.\<close>

record migration_env =
  pick_owner :: "memberships_row1 list \<Rightarrow> memberships_row1"
  pg_lower :: "string \<Rightarrow> string"
  pg_uuid_text :: "uuid \<Rightarrow> string"
  pg_md5_uuid :: "string \<Rightarrow> uuid"
  pg_now :: instant

definition seeded_role :: "migration_env \<Rightarrow> string \<Rightarrow> string \<Rightarrow> organizations_row \<Rightarrow> roles_row" where
  "seeded_role env name key o' =
     \<lparr>r_id = pg_md5_uuid env (pg_uuid_text env (o_id o') @ '':'' @ key), r_org = o_id o', r_name = name, r_key = Some key,
      r_created = some_timestamp (pg_now env), r_updated = some_timestamp (pg_now env), r_deleted = null_timestamp\<rparr>"

fun insert_seeds :: "(string \<Rightarrow> string) \<Rightarrow> tables \<Rightarrow> roles_row list \<Rightarrow> tables result" where
  "insert_seeds lower db [] = Inr db"
| "insert_seeds lower db (r # rs) =
     (if role_ok lower db r then insert_seeds lower (db\<lparr>organization_roles := organization_roles db @ [r]\<rparr>) rs
      else Inl (violation ''organization_roles''))"

definition with_role_id :: "roles_row list \<Rightarrow> memberships_row2 \<Rightarrow> memberships_row result" where
  "with_role_id rows m =
     (let key = (if m1_role m = ''admin'' then ''admin'' else ''developer'')
      in case find (\<lambda>r. r_org r = m1_org m \<and> r_key r = Some key) rows of
           None \<Rightarrow> Inl (violation ''organization_memberships.role_id'')
         | Some r \<Rightarrow> Inr \<lparr>m_org = m1_org m, m_user = m1_user m, m_role = r_id r, m_status = m1_status m,
                       m_created = m1_created m, m_updated = m1_updated m, m_removed = m2_removed m\<rparr>)"

definition roles_up :: "migration_env \<Rightarrow> tables2 \<Rightarrow> tables result" where
  "roles_up env db =
     (let db3 = \<lparr>users = users2 db, organizations = organizations2 db, organization_roles = [],
                 organization_memberships = [], projects = projects2 db, project_environments = environments2 db\<rparr>
      in case insert_seeds (pg_lower env) db3 (map (seeded_role env ''Admin'' ''admin'') (organizations2 db)) of
           Inl err \<Rightarrow> Inl err
         | Inr db3 \<Rightarrow>
             (case insert_seeds (pg_lower env) db3 (map (seeded_role env ''Developer'' ''developer'') (organizations2 db)) of
                Inl err \<Rightarrow> Inl err
              | Inr db3 \<Rightarrow>
                  (case collect (with_role_id (organization_roles db3)) (memberships2 db) of
                     Inl err \<Rightarrow> Inl err
                   | Inr members \<Rightarrow>
                       if \<not> list_all (\<lambda>m. (m_org m, m_role m) \<in> (\<lambda>r. (r_org r, r_id r)) ` set (organization_roles db3)) members
                       then Inl (violation ''organization_memberships_role_fkey'')
                       else Inr (db3\<lparr>organization_memberships := members\<rparr>))))"

definition with_role_text :: "roles_row list \<Rightarrow> memberships_row \<Rightarrow> memberships_row2 result" where
  "with_role_text rows m =
     (case find (\<lambda>r. r_id r = m_role m) rows of
        None \<Rightarrow> Inl (violation ''organization_memberships.role'')
      | Some r \<Rightarrow>
          (let role = (case r_key r of Some key \<Rightarrow> key | None \<Rightarrow> ''developer'')
           in if role \<notin> set roles_v2 then Inl (violation ''organization_memberships_role_valid'')
              else Inr \<lparr>m1_org = m_org m, m1_user = m_user m, m1_role = role, m1_status = m_status m,
                     m1_created = m_created m, m1_updated = m_updated m, m2_removed = m_removed m\<rparr>))"

definition roles_down :: "tables \<Rightarrow> tables2 result" where
  "roles_down db =
     (case collect (with_role_text (organization_roles db)) (organization_memberships db) of
        Inl err \<Rightarrow> Inl err
      | Inr members \<Rightarrow>
          Inr \<lparr>users2 = users db, organizations2 = organizations db, memberships2 = members,
            projects2 = projects db, environments2 = project_environments db\<rparr>)"

section \<open>Running the migrations\<close>

datatype schema = V0 | V1 tables1 | V2 tables2 | V3 tables | V4 tables

fun migrate_up :: "migration_env \<Rightarrow> schema \<Rightarrow> schema result" where
  "migrate_up env V0 = Inr (V1 tables_up)"
| "migrate_up env (V1 db) = (case lifecycle_up (pick_owner env) db of Inl err \<Rightarrow> Inl err | Inr db \<Rightarrow> Inr (V2 db))"
| "migrate_up env (V2 db) = (case roles_up env db of Inl err \<Rightarrow> Inl err | Inr db \<Rightarrow> Inr (V3 db))"
| "migrate_up env (V3 db) = Inr (V4 db)"
| "migrate_up env (V4 db) = Inr (V4 db)"

fun migrate_down :: "schema \<Rightarrow> schema result" where
  "migrate_down V0 = Inr V0"
| "migrate_down (V1 db) = Inr V0"
| "migrate_down (V2 db) = (case lifecycle_down db of Inl err \<Rightarrow> Inl err | Inr db \<Rightarrow> Inr (V1 db))"
| "migrate_down (V3 db) = (case roles_down db of Inl err \<Rightarrow> Inl err | Inr db \<Rightarrow> Inr (V2 db))"
| "migrate_down (V4 db) = Inr (V3 db)"

text \<open>The pending migrations in order; the first that fails ends the run and keeps what was done.\<close>

fun migrate :: "(schema \<Rightarrow> schema result) \<Rightarrow> nat \<Rightarrow> schema \<Rightarrow> schema \<times> go_error option" where
  "migrate one 0 s = (s, None)"
| "migrate one (Suc n) s = (case one s of Inl err \<Rightarrow> (s, Some err) | Inr s' \<Rightarrow> migrate one n s')"

section \<open>Valid rows of each version\<close>

definition members_valid :: "string list \<Rightarrow> uuid set \<Rightarrow> uuid set \<Rightarrow> 'm memberships_row1_scheme list \<Rightarrow> bool" where
  "members_valid roles user_ids org_ids members \<longleftrightarrow>
     distinct (map (\<lambda>m. (m1_org m, m1_user m)) members) \<and>
     (\<forall>m\<in>set members. m1_role m \<in> set roles \<and> (m1_status m = ''active'' \<or> m1_status m = ''suspended'') \<and>
        m1_org m \<in> org_ids \<and> m1_user m \<in> user_ids)"

definition projects_valid :: "uuid set \<Rightarrow> projects_row list \<Rightarrow> environments_row list \<Rightarrow> bool" where
  "projects_valid org_ids ps es \<longleftrightarrow>
     distinct (map p_id ps) \<and> (\<forall>p\<in>set ps. not_blank (p_name p) \<and> p_org p \<in> org_ids) \<and>
     distinct (map e_id es) \<and>
     (\<forall>e\<in>set es. (e_name e = ''sandbox'' \<or> e_name e = ''live'') \<and> (e_name e = ''sandbox'' \<longrightarrow> Valid (e_activated e)) \<and>
        e_project e \<in> p_id ` set ps \<and> (\<forall>f\<in>set es. e \<noteq> f \<longrightarrow> \<not> environment_clash e f))"

definition valid1 :: "tables1 \<Rightarrow> bool" where
  "valid1 db \<longleftrightarrow>
     users_unique (users1 db) \<and>
     distinct (map o1_id (organizations1 db)) \<and> (\<forall>o'\<in>set (organizations1 db). not_blank (o1_name o')) \<and>
     members_valid roles_v1 (u_id ` set (users1 db)) (o1_id ` set (organizations1 db)) (memberships1 db) \<and>
     projects_valid (o1_id ` set (organizations1 db)) (projects1 db) (environments1 db)"

definition valid2 :: "tables2 \<Rightarrow> bool" where
  "valid2 db \<longleftrightarrow>
     users_unique (users2 db) \<and>
     distinct (map o_id (organizations2 db)) \<and>
     (\<forall>o'\<in>set (organizations2 db). not_blank (o_name o') \<and> o_owner o' \<in> u_id ` set (users2 db)) \<and>
     members_valid roles_v2 (u_id ` set (users2 db)) (o_id ` set (organizations2 db)) (memberships2 db) \<and>
     projects_valid (o_id ` set (organizations2 db)) (projects2 db) (environments2 db)"

lemma collect_map: "(\<And>x. x \<in> set xs \<Longrightarrow> f x = Inr (g x)) \<Longrightarrow> collect f xs = Inr (map g xs)"
  by (induction xs) auto

lemma collect_comp: "collect f (map g xs) = collect (\<lambda>x. f (g x)) xs"
  by (induction xs) (simp_all split: sum.split)

lemma find_member: "find P xs = Some x \<Longrightarrow> x \<in> set xs \<and> P x"
  by (auto simp: find_Some_iff)

section \<open>Version 2\<close>

definition owner_row ::
  "(memberships_row1 list \<Rightarrow> memberships_row1) \<Rightarrow> tables1 \<Rightarrow> organizations_row1 \<Rightarrow> organizations_row" where
  "owner_row pick db o' =
     \<lparr>o_id = o1_id o', o_owner = m1_user (pick (owner_members db (o1_id o'))), o_name = o1_name o',
      o_created = o1_created o', o_updated = o1_updated o', o_deleted = null_timestamp, o_suspended = null_timestamp\<rparr>"

definition every_owner :: "tables1 \<Rightarrow> bool" where
  "every_owner db \<longleftrightarrow> (\<forall>o'\<in>set (organizations1 db). owner_members db (o1_id o') \<noteq> [])"

definition current_roles :: "tables1 \<Rightarrow> bool" where
  "current_roles db \<longleftrightarrow> (\<forall>m\<in>set (memberships1 db). m1_role m = ''owner'' \<or> m1_role m = ''developer'')"

definition picks :: "(memberships_row1 list \<Rightarrow> memberships_row1) \<Rightarrow> bool" where
  "picks pick \<longleftrightarrow> (\<forall>ms. ms \<noteq> [] \<longrightarrow> pick ms \<in> set ms)"

definition upgraded :: "(memberships_row1 list \<Rightarrow> memberships_row1) \<Rightarrow> tables1 \<Rightarrow> tables2" where
  "upgraded pick db =
     \<lparr>users2 = users1 db, organizations2 = map (owner_row pick db) (organizations1 db),
      memberships2 = map membership_up (memberships1 db), projects2 = projects1 db, environments2 = environments1 db\<rparr>"

lemma membership_up_fields [simp]:
  "m1_org (membership_up m) = m1_org m" "m1_user (membership_up m) = m1_user m" "m1_status (membership_up m) = m1_status m"
  "m1_role (membership_up m) = (if m1_role m = ''owner'' then ''admin'' else m1_role m)"
  "m2_removed (membership_up m) = null_timestamp" "m1_created (membership_up m) = m1_created m"
  "m1_updated (membership_up m) = m1_updated m"
  by (simp_all add: membership_up_def memberships_row1.defs memberships_row2.defs)

lemma owner_row_fields [simp]:
  "o_id (owner_row pick db o') = o1_id o'" "o_name (owner_row pick db o') = o1_name o'"
  "o_deleted (owner_row pick db o') = null_timestamp" "o_suspended (owner_row pick db o') = null_timestamp"
  by (simp_all add: owner_row_def)

lemma owner_picked:
  assumes "picks pick" "owner_members db org \<noteq> []"
  shows "pick (owner_members db org) \<in> set (memberships1 db)" "m1_org (pick (owner_members db org)) = org"
    "m1_role (pick (owner_members db org)) = ''owner''"
proof -
  have "pick (owner_members db org) \<in> set (owner_members db org)" using assms by (simp add: picks_def)
  then show "pick (owner_members db org) \<in> set (memberships1 db)" "m1_org (pick (owner_members db org)) = org"
    "m1_role (pick (owner_members db org)) = ''owner''" by (auto simp: owner_members_def)
qed

lemma owners_are_users:
  assumes "valid1 db" "picks pick" "every_owner db" "o' \<in> set (organizations1 db)"
  shows "o_owner (owner_row pick db o') \<in> u_id ` set (users1 db)"
proof -
  have "owner_members db (o1_id o') \<noteq> []" using assms(3,4) by (simp add: every_owner_def)
  from owner_picked(1) [OF assms(2) this] assms(1) show ?thesis
    by (simp add: owner_row_def valid1_def members_valid_def)
qed

lemma lifecycle_up_result:
  assumes "valid1 db" "picks pick"
  shows "lifecycle_up pick db =
    (if \<not> every_owner db then Inl (violation ''organizations.owner_user_id'')
     else if \<not> current_roles db then Inl (violation ''organization_memberships_role_valid'')
     else Inr (upgraded pick db))"
proof (cases "every_owner db")
  case True
  then have "collect (owned_organization pick db) (organizations1 db) = Inr (map (owner_row pick db) (organizations1 db))"
    by (intro collect_map) (auto simp: every_owner_def owned_organization_def owner_row_def)
  moreover have "list_all (\<lambda>o'. o_owner o' \<in> u_id ` set (users1 db)) (map (owner_row pick db) (organizations1 db))"
    using owners_are_users [OF assms True] by (simp add: list_all_iff)
  moreover have "m1_role (membership_up m) \<in> set roles_v2 \<longleftrightarrow> m1_role m = ''owner'' \<or> m1_role m = ''developer''"
    if "m \<in> set (memberships1 db)" for m
    using assms(1) that by (auto simp: roles_v2_def valid1_def members_valid_def roles_v1_def)
  then have "list_all (\<lambda>m. m1_role m \<in> set roles_v2) (map membership_up (memberships1 db)) \<longleftrightarrow> current_roles db"
    by (simp add: list_all_iff current_roles_def)
  ultimately show ?thesis using True by (simp add: lifecycle_up_def Let_def upgraded_def del: list.pred_map)
next
  case False
  have "collect (owned_organization pick db) os = Inl (violation ''organizations.owner_user_id'')"
    if "\<exists>o'\<in>set os. owner_members db (o1_id o') = []" for os
    using that
  proof (induction os)
    case (Cons o' os)
    then show ?case by (cases "owner_members db (o1_id o') = []") (auto simp: owned_organization_def)
  qed simp
  with False show ?thesis by (simp add: lifecycle_up_def every_owner_def)
qed

lemma upgraded_valid:
  assumes "valid1 db" "picks pick" "every_owner db" "current_roles db"
  shows "valid2 (upgraded pick db)"
proof -
  have ids: "o_id ` set (map (owner_row pick db) (organizations1 db)) = o1_id ` set (organizations1 db)"
    by (simp add: image_image)
  have "members_valid roles_v2 (u_id ` set (users1 db)) (o1_id ` set (organizations1 db)) (map membership_up (memberships1 db))"
    using assms(1,4) by (auto simp: valid1_def members_valid_def current_roles_def roles_v2_def comp_def)
  with assms owners_are_users [OF assms(1-3)] show ?thesis
    by (simp add: valid2_def upgraded_def valid1_def comp_def image_image)
qed

definition one_owner :: "tables1 \<Rightarrow> bool" where
  "one_owner db \<longleftrightarrow> (\<forall>o'\<in>set (organizations1 db). length (owner_members db (o1_id o')) = 1)"

lemma one_owner_every: "one_owner db \<Longrightarrow> every_owner db"
  by (auto simp: one_owner_def every_owner_def)

lemma owner_iff_role:
  assumes "valid1 db" "picks pick" "one_owner db" "m \<in> set (memberships1 db)"
  shows "list_ex (\<lambda>o'. o_id o' = m1_org m \<and> o_owner o' = m1_user m) (map (owner_row pick db) (organizations1 db)) \<longleftrightarrow>
    m1_role m = ''owner''"
proof -
  have "m1_org m \<in> o1_id ` set (organizations1 db)" using assms(1,4) by (auto simp: valid1_def members_valid_def)
  then obtain o' where o': "o' \<in> set (organizations1 db)" "o1_id o' = m1_org m" by auto
  with assms(3) obtain w where w: "owner_members db (m1_org m) = [w]"
    by (auto simp: one_owner_def length_Suc_conv)
  with owner_picked [OF assms(2), of db "m1_org m"]
  have pick: "pick [w] = w" "w \<in> set (memberships1 db)" "m1_org w = m1_org m" "m1_role w = ''owner''"
    using assms(2) by (auto simp: picks_def dest!: spec [of _ "[w]"])
  have "list_ex (\<lambda>o'. o_id o' = m1_org m \<and> o_owner o' = m1_user m) (map (owner_row pick db) (organizations1 db)) \<longleftrightarrow>
      m1_user w = m1_user m"
    using o' w pick(1) by (auto simp: list_ex_iff owner_row_def)
  also have "\<dots> \<longleftrightarrow> w = m"
    using assms(1,4) pick(2,3) distinct_map_inj [of "\<lambda>m. (m1_org m, m1_user m)" "memberships1 db" w m]
    by (auto simp: valid1_def members_valid_def)
  also have "\<dots> \<longleftrightarrow> m1_role m = ''owner''"
  proof
    assume "m1_role m = ''owner''"
    with assms(4) have "m \<in> set (owner_members db (m1_org m))" by (simp add: owner_members_def)
    with w show "w = m" by simp
  qed (use pick(4) in simp)
  finally show ?thesis .
qed

lemma truncate_membership_up:
  "memberships_row1.truncate (membership_up m) = (if m1_role m = ''owner'' then m\<lparr>m1_role := ''admin''\<rparr> else m)"
  by (cases m) (simp add: membership_up_def memberships_row1.defs)

lemma lifecycle_round_trip:
  assumes "valid1 db" "picks pick" "one_owner db" "current_roles db"
  shows "lifecycle_down (upgraded pick db) = Inr db"
proof -
  have returns: "membership_down (upgraded pick db) (membership_up m) = m" if "m \<in> set (memberships1 db)" for m
    using owner_iff_role [OF assms(1-3) that] assms(4) that
    by (cases m) (auto simp: membership_down_def truncate_membership_up upgraded_def current_roles_def Let_def)
  have "map (membership_down (upgraded pick db)) (map membership_up (memberships1 db)) = memberships1 db"
    by (simp add: returns map_idI)
  moreover have "map organization_down (map (owner_row pick db) (organizations1 db)) = organizations1 db"
    by (simp add: organization_down_def owner_row_def map_idI)
  moreover have "list_all (\<lambda>m. m1_role m \<in> set roles_v1) (memberships1 db)"
    using assms(1) by (auto simp: valid1_def members_valid_def list_all_iff)
  ultimately show ?thesis
    by (simp add: lifecycle_down_def Let_def upgraded_def del: map_map list.map_comp list.pred_map)
qed

section \<open>Version 3\<close>

definition seeds :: "migration_env \<Rightarrow> organizations_row list \<Rightarrow> roles_row list" where
  "seeds env os = map (seeded_role env ''Admin'' ''admin'') os @ map (seeded_role env ''Developer'' ''developer'') os"

definition role_id :: "migration_env \<Rightarrow> uuid \<Rightarrow> string \<Rightarrow> uuid" where
  "role_id env org key = pg_md5_uuid env (pg_uuid_text env org @ '':'' @ key)"

definition role_key :: "string \<Rightarrow> string" where
  "role_key role = (if role = ''admin'' then ''admin'' else ''developer'')"

definition member_with_role :: "migration_env \<Rightarrow> memberships_row2 \<Rightarrow> memberships_row" where
  "member_with_role env m =
     \<lparr>m_org = m1_org m, m_user = m1_user m, m_role = role_id env (m1_org m) (role_key (m1_role m)), m_status = m1_status m,
      m_created = m1_created m, m_updated = m1_updated m, m_removed = m2_removed m\<rparr>"

definition with_roles :: "migration_env \<Rightarrow> tables2 \<Rightarrow> tables" where
  "with_roles env db =
     \<lparr>users = users2 db, organizations = organizations2 db, organization_roles = seeds env (organizations2 db),
      organization_memberships = map (member_with_role env) (memberships2 db), projects = projects2 db,
      project_environments = environments2 db\<rparr>"

text \<open>The role ids are distinct hashes, and the two names differ in lower case.\<close>

definition seeds_distinct :: "migration_env \<Rightarrow> organizations_row list \<Rightarrow> bool" where
  "seeds_distinct env os \<longleftrightarrow>
     distinct (map r_id (seeds env os)) \<and> pg_lower env ''Admin'' \<noteq> pg_lower env ''Developer''"

lemma seed_fields [simp]:
  "r_id (seeded_role env name key o') = role_id env (o_id o') key" "r_org (seeded_role env name key o') = o_id o'"
  "r_name (seeded_role env name key o') = name" "r_key (seeded_role env name key o') = Some key"
  "r_deleted (seeded_role env name key o') = null_timestamp"
  by (simp_all add: seeded_role_def role_id_def)

lemma seeds_clash:
  assumes "distinct (map o_id os)" "seeds_distinct env os"
    and "r \<in> set (seeds env os)" "q \<in> set (seeds env os)" "role_clash (pg_lower env) r q"
  shows "r = q"
proof -
  have org: "a = b" if "a \<in> set os" "b \<in> set os" "o_id a = o_id b" for a b
    using distinct_map_inj [OF assms(1) that] .
  have ids: "r = q" if "r_id r = r_id q"
    using distinct_map_inj [OF _ assms(3,4) that] assms(2) by (simp add: seeds_distinct_def)
  from assms(2-5) ids org show ?thesis
    by (auto simp: seeds_def role_clash_def seeds_distinct_def)
qed

lemma seeds_rows:
  assumes "r \<in> set (seeds env os)"
  shows "not_blank (r_name r)" "r_key r = Some ''admin'' \<or> r_key r = Some ''developer''" "r_org r \<in> o_id ` set os"
proof -
  have "not_blank ''Admin''" "not_blank ''Developer''" by code_simp+
  with assms show "not_blank (r_name r)" "r_key r = Some ''admin'' \<or> r_key r = Some ''developer''" "r_org r \<in> o_id ` set os"
    by (auto simp: seeds_def)
qed

lemma insert_seeds_ok:
  assumes "distinct (organization_roles db @ rs)"
    and "\<And>r q. r \<in> set (organization_roles db @ rs) \<Longrightarrow> q \<in> set (organization_roles db @ rs) \<Longrightarrow> role_clash lower r q \<Longrightarrow> r = q"
    and "\<And>r. r \<in> set rs \<Longrightarrow> not_blank (r_name r) \<and> (r_key r = Some ''admin'' \<or> r_key r = Some ''developer'') \<and>
      r_org r \<in> o_id ` set (organizations db)"
  shows "insert_seeds lower db rs = Inr (db\<lparr>organization_roles := organization_roles db @ rs\<rparr>)"
  using assms
proof (induction rs arbitrary: db)
  case (Cons r rs)
  have "\<not> role_clash lower r q" if "q \<in> set (organization_roles db)" for q
    using Cons.prems(1) Cons.prems(2) [of r q] that by auto
  with Cons.prems(3) [of r] have "role_ok lower db r" by (auto simp: role_ok_def)
  moreover have "insert_seeds lower (db\<lparr>organization_roles := organization_roles db @ [r]\<rparr>) rs =
      Inr (db\<lparr>organization_roles := (organization_roles db @ [r]) @ rs\<rparr>)"
    using Cons.IH [of "db\<lparr>organization_roles := organization_roles db @ [r]\<rparr>"] Cons.prems by simp
  ultimately show ?case by simp
qed simp

lemma find_seed:
  assumes "org \<in> o_id ` set os" "key = ''admin'' \<or> key = ''developer''"
  obtains r where "find (\<lambda>r. r_org r = org \<and> r_key r = Some key) (seeds env os) = Some r" "r \<in> set (seeds env os)"
    "r_id r = role_id env org key" "r_org r = org" "r_key r = Some key"
proof -
  from assms(1) obtain o' where "o' \<in> set os" "org = o_id o'" by auto
  with assms(2) have "\<exists>r\<in>set (seeds env os). r_org r = org \<and> r_key r = Some key"
    by (auto simp: seeds_def bex_Un)
  then obtain r where r: "find (\<lambda>r. r_org r = org \<and> r_key r = Some key) (seeds env os) = Some r"
    by (cases "find (\<lambda>r. r_org r = org \<and> r_key r = Some key) (seeds env os)") (auto simp: find_None_iff)
  from find_member [OF this] have in_seeds: "r \<in> set (seeds env os)" and "r_org r = org" "r_key r = Some key" by auto
  then have "r_id r = role_id env org key" by (auto simp: seeds_def)
  with r in_seeds \<open>r_org r = org\<close> \<open>r_key r = Some key\<close> that show thesis by blast
qed

lemma role_key_cases: "role_key role = ''admin'' \<or> role_key role = ''developer''"
  by (simp add: role_key_def)

lemma member_finds_role:
  assumes "m1_org m \<in> o_id ` set os"
  shows "with_role_id (seeds env os) m = Inr (member_with_role env m)"
proof -
  obtain r where "find (\<lambda>r. r_org r = m1_org m \<and> r_key r = Some (role_key (m1_role m))) (seeds env os) = Some r"
      "r_id r = role_id env (m1_org m) (role_key (m1_role m))"
    using find_seed [OF assms role_key_cases] by blast
  then show ?thesis by (simp add: with_role_id_def member_with_role_def Let_def role_key_def [symmetric])
qed

lemma member_has_role:
  assumes "m1_org m \<in> o_id ` set os"
  shows "(m1_org m, role_id env (m1_org m) (role_key (m1_role m))) \<in> (\<lambda>r. (r_org r, r_id r)) ` set (seeds env os)"
proof -
  obtain r where "r \<in> set (seeds env os)" "r_id r = role_id env (m1_org m) (role_key (m1_role m))" "r_org r = m1_org m"
    using find_seed [OF assms role_key_cases] by blast
  then show ?thesis by (metis (mono_tags, lifting) image_eqI)
qed

lemma roles_up_result:
  assumes "valid2 db" "seeds_distinct env (organizations2 db)"
  shows "roles_up env db = Inr (with_roles env db)"
proof -
  let ?os = "organizations2 db" and ?lower = "pg_lower env"
  define admins where "admins = map (seeded_role env ''Admin'' ''admin'') ?os"
  define devs where "devs = map (seeded_role env ''Developer'' ''developer'') ?os"
  have seeds: "seeds env ?os = admins @ devs" by (simp add: seeds_def admins_def devs_def)
  let ?db = "\<lparr>users = users2 db, organizations = ?os, organization_roles = [], organization_memberships = [],
    projects = projects2 db, project_environments = environments2 db\<rparr>"
  have os: "distinct (map o_id ?os)" using assms(1) by (simp add: valid2_def)
  have all: "distinct (admins @ devs)"
    using assms(2) unfolding seeds_distinct_def seeds by (metis distinct_map)
  have clash: "r = q" if "r \<in> set (admins @ devs)" "q \<in> set (admins @ devs)" "role_clash ?lower r q" for r q
    using seeds_clash [OF os assms(2), of r q] that by (simp add: seeds)
  have rows: "not_blank (r_name r) \<and> (r_key r = Some ''admin'' \<or> r_key r = Some ''developer'') \<and> r_org r \<in> o_id ` set ?os"
    if "r \<in> set (admins @ devs)" for r
    using seeds_rows [of r env ?os] that by (simp add: seeds)
  have first: "insert_seeds ?lower ?db admins = Inr (?db\<lparr>organization_roles := organization_roles ?db @ admins\<rparr>)"
    using all rows by (intro insert_seeds_ok clash) auto
  have second: "insert_seeds ?lower (?db\<lparr>organization_roles := admins\<rparr>) devs =
      Inr (?db\<lparr>organization_roles := admins, organization_roles := organization_roles (?db\<lparr>organization_roles := admins\<rparr>) @ devs\<rparr>)"
    using all rows by (intro insert_seeds_ok clash) auto
  have orgs: "m1_org m \<in> o_id ` set ?os" if "m \<in> set (memberships2 db)" for m
    using assms(1) that by (auto simp: valid2_def members_valid_def)
  have "with_role_id (seeds env ?os) m = Inr (member_with_role env m)" if "m \<in> set (memberships2 db)" for m
    using orgs [OF that] by (rule member_finds_role)
  then have third: "collect (with_role_id (seeds env ?os)) (memberships2 db) = Inr (map (member_with_role env) (memberships2 db))"
    by (rule collect_map)
  have "(m1_org m, role_id env (m1_org m) (role_key (m1_role m))) \<in> (\<lambda>r. (r_org r, r_id r)) ` set (seeds env ?os)"
    if "m \<in> set (memberships2 db)" for m
    using orgs [OF that] by (rule member_has_role)
  then have "list_all (\<lambda>m. (m_org m, m_role m) \<in> (\<lambda>r. (r_org r, r_id r)) ` set (seeds env ?os)) (map (member_with_role env) (memberships2 db))"
    by (simp add: list_all_iff member_with_role_def)
  then show ?thesis
    using first second third
    by (simp add: roles_up_def with_roles_def seeds admins_def [symmetric] devs_def [symmetric] del: list.pred_map)
qed

lemma with_roles_consistent:
  assumes "valid2 db" "seeds_distinct env (organizations2 db)"
  shows "consistent (pg_lower env) (with_roles env db)"
proof -
  let ?os = "organizations2 db"
  have os: "distinct (map o_id ?os)" using assms(1) by (simp add: valid2_def)
  have roles: "not_blank (r_name r) \<and> r_org r \<in> o_id ` set ?os \<and>
      (case r_key r of None \<Rightarrow> True | Some k \<Rightarrow> k = ''admin'' \<or> k = ''developer'') \<and>
      (\<forall>q\<in>set (seeds env ?os). r \<noteq> q \<longrightarrow> \<not> role_clash (pg_lower env) r q)" if "r \<in> set (seeds env ?os)" for r
    using seeds_rows [OF that] seeds_clash [OF os assms(2) that] by auto
  have "(m1_org m, role_id env (m1_org m) (role_key (m1_role m))) \<in> (\<lambda>r. (r_org r, r_id r)) ` set (seeds env ?os)"
    if "m1_org m \<in> o_id ` set ?os" for m :: memberships_row2
    using that by (rule member_has_role)
  then have members: "distinct (map (\<lambda>m. (m_org m, m_user m)) (map (member_with_role env) (memberships2 db)))"
    "\<forall>m\<in>set (map (member_with_role env) (memberships2 db)). (m_status m = ''active'' \<or> m_status m = ''suspended'') \<and>
        m_org m \<in> o_id ` set ?os \<and> m_user m \<in> u_id ` set (users2 db) \<and>
        (m_org m, m_role m) \<in> (\<lambda>r. (r_org r, r_id r)) ` set (seeds env ?os)"
    using assms(1) by (auto simp: valid2_def members_valid_def member_with_role_def comp_def)
  have "distinct (map r_id (seeds env ?os))" using assms(2) by (simp add: seeds_distinct_def)
  with assms(1) roles members show ?thesis
    unfolding consistent_def with_roles_def valid2_def projects_valid_def by simp
qed

lemma roles_round_trip:
  assumes "valid2 db" "seeds_distinct env (organizations2 db)"
  shows "roles_down (with_roles env db) = Inr db"
proof -
  let ?os = "organizations2 db"
  have "with_role_text (seeds env ?os) (member_with_role env m) = Inr m" if m: "m \<in> set (memberships2 db)" for m
  proof -
    have valid: "m1_org m \<in> o_id ` set ?os" "m1_role m \<in> set roles_v2"
      using assms(1) m by (auto simp: valid2_def members_valid_def)
    then have key: "role_key (m1_role m) = m1_role m" by (auto simp: roles_v2_def role_key_def)
    with valid(2) obtain o' where o': "o' \<in> set ?os" "o_id o' = m1_org m" using valid(1) by auto
    define r where "r = seeded_role env (if m1_role m = ''admin'' then ''Admin'' else ''Developer'') (m1_role m) o'"
    have r: "r \<in> set (seeds env ?os)" "r_id r = role_id env (m1_org m) (m1_role m)" "r_key r = Some (m1_role m)"
      using o' valid(2) by (auto simp: r_def seeds_def roles_v2_def)
    then obtain q where q: "find (\<lambda>r. r_id r = role_id env (m1_org m) (m1_role m)) (seeds env ?os) = Some q"
      by (cases "find (\<lambda>r. r_id r = role_id env (m1_org m) (m1_role m)) (seeds env ?os)") (auto simp: find_None_iff)
    from find_member [OF q] r assms(2) have "q = r"
      using distinct_map_inj [of r_id "seeds env ?os" q r] by (simp add: seeds_distinct_def)
    with q r(3) valid(2) have "with_role_text (seeds env ?os) (member_with_role env m) =
        Inr \<lparr>m1_org = m1_org m, m1_user = m1_user m, m1_role = m1_role m, m1_status = m1_status m,
          m1_created = m1_created m, m1_updated = m1_updated m, m2_removed = m2_removed m\<rparr>"
      by (simp add: with_role_text_def member_with_role_def key)
    also have "\<dots> = Inr m" by (cases m) simp
    finally show ?thesis .
  qed
  then have "collect (with_role_text (seeds env ?os)) (map (member_with_role env) (memberships2 db)) = Inr (memberships2 db)"
    using collect_map [of "memberships2 db" "\<lambda>m. with_role_text (seeds env ?os) (member_with_role env m)" "\<lambda>m. m"]
    by (simp add: collect_comp)
  then show ?thesis by (simp add: roles_down_def with_roles_def)
qed

section \<open>Access after the upgrade\<close>

text \<open>Organization, ownership and system role of every row of the active access query.\<close>

definition access_rows :: "tables \<Rightarrow> uuid \<Rightarrow> (uuid \<times> bool \<times> string option) list" where
  "access_rows db user =
     map (\<lambda>(m, o', r). (o_id o', o_owner o' = user, r_key r)) (ListActiveOrganizationAccessByUser_statement db user)"

lemma set_access_of:
  "set (access_rows db user) = {(o_id o', o_owner o' = user, r_key r) | m o' r. m \<in> set (organization_memberships db) \<and>
     o' \<in> set (organizations db) \<and> r \<in> set (organization_roles db) \<and> access_condition user m o' r}"
  by (auto simp: access_rows_def ListActiveOrganizationAccessByUser_statement_def access_join_def image_iff) force+

lemma role_of_id:
  assumes "seeds_distinct env os" "org \<in> o_id ` set os" "r \<in> set (seeds env os)"
    and "r_id r = role_id env org (role_key role)"
  shows "r_key r = Some (role_key role)"
proof -
  obtain q where q: "q \<in> set (seeds env os)" "r_id q = role_id env org (role_key role)" "r_key q = Some (role_key role)"
    using find_seed [OF assms(2) role_key_cases] by blast
  have "distinct (map r_id (seeds env os))" using assms(1) by (simp add: seeds_distinct_def)
  from distinct_map_inj [OF this assms(3) q(1)] assms(4) q(2,3) show ?thesis by simp
qed

definition access_of_member :: "memberships_row1 \<Rightarrow> uuid \<times> bool \<times> string option" where
  "access_of_member m =
     (m1_org m, m1_role m = ''owner'', Some (if m1_role m = ''owner'' then ''admin'' else ''developer''))"

lemma owner_flag:
  assumes "valid1 db" "picks pick" "one_owner db" "m \<in> set (memberships1 db)"
    and "o' \<in> set (organizations1 db)" "o1_id o' = m1_org m"
  shows "o_owner (owner_row pick db o') = m1_user m \<longleftrightarrow> m1_role m = ''owner''"
proof -
  have "distinct (map o1_id (organizations1 db))" using assms(1) by (simp add: valid1_def)
  then have "x = o'" if "x \<in> set (organizations1 db)" "o1_id x = m1_org m" for x
    using that assms(5,6) by (metis distinct_map_inj)
  then have "list_ex (\<lambda>o'. o_id o' = m1_org m \<and> o_owner o' = m1_user m) (map (owner_row pick db) (organizations1 db)) \<longleftrightarrow>
      o_owner (owner_row pick db o') = m1_user m"
    unfolding list_ex_iff set_map bex_simps owner_row_fields using assms(5,6) by blast
  with owner_iff_role [OF assms(1-4)] show ?thesis by simp
qed

lemma upgraded_access:
  assumes "valid1 db" "picks pick" "one_owner db" "current_roles db"
    and "seeds_distinct env (organizations2 (upgraded pick db))"
  shows "set (access_rows (with_roles env (upgraded pick db)) user) =
    access_of_member ` {m \<in> set (memberships1 db). m1_user m = user \<and> m1_status m = ''active''}"
proof -
  let ?os = "organizations2 (upgraded pick db)"
  let ?row = "\<lambda>m. member_with_role env (membership_up m)"
  have ids: "o_id ` set ?os = o1_id ` set (organizations1 db)" by (simp add: upgraded_def image_image)
  have key: "role_key (m1_role (membership_up m)) = (if m1_role m = ''owner'' then ''admin'' else ''developer'')"
    if "m \<in> set (memberships1 db)" for m
    using assms(4) that by (auto simp: current_roles_def role_key_def)
  have one: "{(o_id o', o_owner o' = user, r_key r) | o' r. o' \<in> set ?os \<and> r \<in> set (seeds env ?os) \<and>
      access_condition user (?row m) o' r} =
    (if m1_user m = user \<and> m1_status m = ''active'' then {access_of_member m} else {})"
    if m: "m \<in> set (memberships1 db)" for m
  proof -
    have org: "m1_org m \<in> o1_id ` set (organizations1 db)" using assms(1) m by (auto simp: valid1_def members_valid_def)
    then obtain o' where o': "o' \<in> set (organizations1 db)" "o1_id o' = m1_org m" by auto
    have org2: "m1_org (membership_up m) \<in> o_id ` set ?os" using org ids by simp
    then obtain r where r: "r \<in> set (seeds env ?os)" "r_id r = role_id env (m1_org m) (role_key (m1_role (membership_up m)))"
        "r_org r = m1_org m"
      using find_seed [OF org2 role_key_cases] by (metis membership_up_fields(1))
    have flag: "o_owner q = m1_user m \<longleftrightarrow> m1_role m = ''owner''" if "q \<in> set ?os" "o_id q = m1_org m" for q
      using that owner_flag [OF assms(1-3) m] by (auto simp: upgraded_def)
    have cond: "access_condition user (?row m) q s \<longleftrightarrow> o_id q = m1_org m \<and> r_org s = m1_org m \<and>
        r_id s = role_id env (m1_org m) (role_key (m1_role (membership_up m))) \<and> m1_user m = user \<and> m1_status m = ''active''"
      if "q \<in> set ?os" "s \<in> set (seeds env ?os)" for q s
      using that by (auto simp: access_condition_def member_with_role_def null_timestamp_def upgraded_def seeds_def)
    have role: "r_key s = Some (role_key (m1_role (membership_up m)))"
      if "s \<in> set (seeds env ?os)" "r_id s = role_id env (m1_org m) (role_key (m1_role (membership_up m)))" for s
      using role_of_id [OF assms(5) org2 that(1), of "m1_role (membership_up m)"] that(2) by simp
    have "owner_row pick db o' \<in> set ?os" "o_id (owner_row pick db o') = m1_org m"
      using o' by (simp_all add: upgraded_def)
    with r cond flag role key [OF m] show ?thesis
      by (auto simp: access_of_member_def intro!: exI [of _ "owner_row pick db o'"] exI [of _ r])
  qed
  have "set (access_rows (with_roles env (upgraded pick db)) user) =
      (\<Union>m\<in>set (memberships1 db). {(o_id o', o_owner o' = user, r_key r) | o' r. o' \<in> set ?os \<and> r \<in> set (seeds env ?os) \<and>
        access_condition user (?row m) o' r})"
    unfolding set_access_of by (fastforce simp: with_roles_def upgraded_def [of pick db])
  also have "\<dots> = (\<Union>m\<in>set (memberships1 db). if m1_user m = user \<and> m1_status m = ''active'' then {access_of_member m} else {})"
    using one by (intro SUP_cong refl)
  also have "\<dots> = access_of_member ` {m \<in> set (memberships1 db). m1_user m = user \<and> m1_status m = ''active''}"
    by auto
  finally show ?thesis .
qed

section \<open>The migrations' properties\<close>

lemma every_owner_iff:
  "every_owner db \<longleftrightarrow>
   (\<forall>o'\<in>set (organizations1 db). \<exists>m\<in>set (memberships1 db). m1_org m = o1_id o' \<and> m1_role m = ''owner'')"
  by (auto simp: every_owner_def owner_members_def filter_empty_conv)

text \<open>
  C36. The second migration succeeds exactly when every organization has an owner among its members
  and no member has the role \<open>finance\<close> or \<open>customer_support\<close>, roles the first version allows; when it
  fails the tables stay as they were.
\<close>

theorem lifecycle_migration_succeeds_iff:
  assumes "valid1 db" "picks (pick_owner env)"
  defines "migratable \<equiv>
    (\<forall>o'\<in>set (organizations1 db). \<exists>m\<in>set (memberships1 db). m1_org m = o1_id o' \<and> m1_role m = ''owner'') \<and>
    (\<forall>m\<in>set (memberships1 db). m1_role m \<noteq> ''finance'' \<and> m1_role m \<noteq> ''customer_support'')"
  shows "(snd (migrate (migrate_up env) 1 (V1 db)) = None \<longleftrightarrow> migratable) \<and>
    (\<not> migratable \<longrightarrow> fst (migrate (migrate_up env) 1 (V1 db)) = V1 db) \<and>
    (migratable \<longrightarrow> (\<exists>db2. fst (migrate (migrate_up env) 1 (V1 db)) = V2 db2 \<and> valid2 db2))"
proof -
  have "m1_role m = ''owner'' \<or> m1_role m = ''developer'' \<longleftrightarrow> m1_role m \<noteq> ''finance'' \<and> m1_role m \<noteq> ''customer_support''"
    if "m \<in> set (memberships1 db)" for m
    using assms(1) that by (auto simp: valid1_def members_valid_def roles_v1_def)
  then have "current_roles db \<longleftrightarrow> (\<forall>m\<in>set (memberships1 db). m1_role m \<noteq> ''finance'' \<and> m1_role m \<noteq> ''customer_support'')"
    by (simp add: current_roles_def)
  then have "migratable \<longleftrightarrow> every_owner db \<and> current_roles db"
    by (simp add: migratable_def every_owner_iff)
  with upgraded_valid [OF assms(1,2)] show ?thesis
    by (simp add: lifecycle_up_result [OF assms(1,2)])
qed

definition sample_v1 :: tables1 where
  "sample_v1 =
     \<lparr>users1 = [\<lparr>u_id = 1, u_subject = ''a'', u_created = some_timestamp 0\<rparr>, \<lparr>u_id = 2, u_subject = ''b'', u_created = some_timestamp 0\<rparr>],
      organizations1 = [\<lparr>o1_id = 7, o1_name = ''Acme'', o1_created = some_timestamp 0, o1_updated = some_timestamp 0\<rparr>],
      memberships1 =
        [\<lparr>m1_org = 7, m1_user = 1, m1_role = ''owner'', m1_status = ''active'', m1_created = some_timestamp 0, m1_updated = some_timestamp 0\<rparr>,
         \<lparr>m1_org = 7, m1_user = 2, m1_role = ''developer'', m1_status = ''active'', m1_created = some_timestamp 0, m1_updated = some_timestamp 0\<rparr>],
      projects1 = [], environments1 = []\<rparr>"

definition sample_migration :: migration_env where
  "sample_migration =
     \<lparr>pick_owner = hd, pg_lower = (\<lambda>s. s), pg_uuid_text = (\<lambda>u. ''7''),
      pg_md5_uuid = (\<lambda>s. if s = ''7:admin'' then 11 else 12), pg_now = 5\<rparr>"

lemma sample_v1_valid:
  "valid1 sample_v1" "picks (pick_owner sample_migration)" "one_owner sample_v1" "current_roles sample_v1"
  "seeds_distinct sample_migration (map (owner_row (pick_owner sample_migration) sample_v1) (organizations1 sample_v1))"
proof -
  have "not_blank ''a''" "not_blank ''b''" "not_blank ''Acme''" by code_simp+
  then show "valid1 sample_v1"
    by (simp add: valid1_def sample_v1_def users_unique_def members_valid_def projects_valid_def roles_v1_def)
  show "picks (pick_owner sample_migration)" by (simp add: picks_def sample_migration_def)
  show "one_owner sample_v1" "current_roles sample_v1"
    by (simp_all add: one_owner_def current_roles_def owner_members_def sample_v1_def)
  show "seeds_distinct sample_migration (map (owner_row (pick_owner sample_migration) sample_v1) (organizations1 sample_v1))"
    by (simp add: seeds_distinct_def seeds_def role_id_def sample_migration_def sample_v1_def)
qed

theorem lifecycle_migration_succeeds_iff_witness:
  "snd (migrate (migrate_up sample_migration) 1 (V1 sample_v1)) = None"
  using lifecycle_migration_succeeds_iff [OF sample_v1_valid(1,2)] by (simp add: sample_v1_def)

text \<open>
  C35. The upgrade from the first version to the last keeps who may do what. Without hash collisions
  among the new role ids, tables with one owner per organization and no retired role are upgraded
  without an error, the result meets every constraint, users, projects and environments stay, and
  each user has access to exactly the organizations of the active memberships: as their owner with
  the admin role where the membership was the owner's, with the developer role elsewhere.
\<close>

theorem upgrade_keeps_access:
  assumes "valid1 db" "picks (pick_owner env)" "one_owner db" "current_roles db"
    and "seeds_distinct env (map (owner_row (pick_owner env) db) (organizations1 db))"
  shows "\<exists>db4. migrate (migrate_up env) 3 (V1 db) = (V4 db4, None) \<and> consistent (pg_lower env) db4 \<and>
    users db4 = users1 db \<and> projects db4 = projects1 db \<and> project_environments db4 = environments1 db \<and>
    (\<forall>user. set (access_rows db4 user) =
       access_of_member ` {m \<in> set (memberships1 db). m1_user m = user \<and> m1_status m = ''active''})"
proof -
  let ?db2 = "upgraded (pick_owner env) db"
  have ids: "seeds_distinct env (organizations2 ?db2)" using assms(5) by (simp add: upgraded_def)
  have every: "every_owner db" using assms(3) by (rule one_owner_every)
  note valid = upgraded_valid [OF assms(1,2) every assms(4)]
  have "migrate (migrate_up env) 3 (V1 db) = (V4 (with_roles env ?db2), None)"
    using every assms(4) by (simp add: eval_nat_numeral lifecycle_up_result [OF assms(1,2)] roles_up_result [OF valid ids])
  moreover have "users (with_roles env ?db2) = users1 db \<and> projects (with_roles env ?db2) = projects1 db \<and>
      project_environments (with_roles env ?db2) = environments1 db"
    by (simp add: with_roles_def upgraded_def)
  ultimately show ?thesis
    using with_roles_consistent [OF valid ids] upgraded_access [OF assms(1-4) ids] by blast
qed

theorem upgrade_keeps_access_witness:
  "\<exists>db4. migrate (migrate_up sample_migration) 3 (V1 sample_v1) = (V4 db4, None) \<and>
     set (access_rows db4 1) = {(7, True, Some ''admin'')} \<and> set (access_rows db4 2) = {(7, False, Some ''developer'')}"
proof -
  have "access_of_member ` {m \<in> set (memberships1 sample_v1). m1_user m = 1 \<and> m1_status m = ''active''} = {(7, True, Some ''admin'')}"
    "access_of_member ` {m \<in> set (memberships1 sample_v1). m1_user m = 2 \<and> m1_status m = ''active''} = {(7, False, Some ''developer'')}"
    unfolding set_filter [symmetric] by (simp_all add: sample_v1_def access_of_member_def)
  with upgrade_keeps_access [OF sample_v1_valid] show ?thesis by metis
qed



end
