(* ===== verification/Http.thy ===== *)
theory Http
  imports Go_JSON
begin

text \<open>
  HTTP requests as the handlers see them: the request, the response written so far, the log
  records, the telemetry of the request and the data the handlers work on (\<open>more\<close> of the
  record). A gin middleware is a function from its continuation (\<open>context.Next\<close>) to a handler;
  one that aborts does not call it. Also \<open>internal/common/httpresponse\<close>.
\<close>

section \<open>JSON bodies and log records\<close>

text \<open>A body is the bytes that are sent; \<open>Json v\<close> is what an encoder writes for \<open>v\<close>.\<close>

definition Json :: "json \<Rightarrow> string" where
  "Json v = Marshal v @ [CHR 0x0A]"

lemma Encode_Json: "Encode v = (if encodable v then Inr (Json v) else Inl (Errorf ''json: error calling MarshalJSON for type time.Time''))"
  by (simp add: Encode_def Json_def)

datatype attr =
    AString string
  | AInt int
  | ABool bool
  | AMicroseconds int
  | AError go_error

type_synonym attrs = "(string \<times> attr) list"

datatype level = LevelInfo | LevelWarn | LevelError

record log_record =
  log_level :: level
  log_message :: string
  log_attrs :: attrs

section \<open>Requests and responses\<close>

record Completion =
  Event :: string
  Message :: string

record CompletionDetails =
  Success :: Completion
  Rejected :: Completion
  Failed :: Completion

record requestLogAttributes =
  operation :: string
  completions :: CompletionDetails
  attributes :: attrs

record request =
  req_method :: string
  req_path :: string
  req_route :: string
  req_header :: "string \<Rightarrow> string"
  req_ip :: string
  req_write_error :: "go_error option"

text \<open>
  \<open>ctx_id\<close>, \<open>ctx_span\<close> (trace and span ids, when valid) and \<open>ctx_log\<close> are what the request's
  context carries for telemetry. Header names are compared as the server writes them.
\<close>

record gin =
  req :: request
  headers :: "(string \<times> string) list"
  status :: int
  body :: "string option"
  ctx_id :: string
  ctx_span :: "(string \<times> string) option"
  ctx_log :: "requestLogAttributes option"
  logs :: "log_record list"

type_synonym 'd handler = "'d gin_scheme \<Rightarrow> 'd gin_scheme"
type_synonym 'd middleware = "'d handler \<Rightarrow> 'd handler"

definition header_of :: "'d gin_scheme \<Rightarrow> string \<Rightarrow> string" where
  "header_of c k = (case map_of (headers c) k of None \<Rightarrow> [] | Some v \<Rightarrow> v)"

definition set_header :: "string \<Rightarrow> string \<Rightarrow> 'd handler" where
  "set_header k v c = c\<lparr>headers := (k, v) # filter (\<lambda>h. fst h \<noteq> k) (headers c)\<rparr>"

text \<open>\<open>context.Header\<close> removes the header when the value is empty.\<close>

definition gin_header :: "string \<Rightarrow> string \<Rightarrow> 'd handler" where
  "gin_header k v c =
     (if v = [] then c\<lparr>headers := filter (\<lambda>h. fst h \<noteq> k) (headers c)\<rparr> else set_header k v c)"

text \<open>The status is fixed once a body was written.\<close>

definition write_status :: "int \<Rightarrow> 'd handler" where
  "write_status code c = (if body c = None then c\<lparr>status := code\<rparr> else c)"

text \<open>
  Every record passes the correlation handler (\<open>internal/infra/telemetry/logging.go\<close>), which
  adds the identifiers of the context it is logged with.
\<close>

definition Handle :: "string \<Rightarrow> (string \<times> string) option \<Rightarrow> log_record \<Rightarrow> log_record" where
  "Handle requestID spanContext record =
     (let record = (if requestID \<noteq> [] then record\<lparr>log_attrs := log_attrs record @ [(''request_id'', AString requestID)]\<rparr>
                    else record)
      in case spanContext of
           None \<Rightarrow> record
         | Some (trace, span) \<Rightarrow>
             record\<lparr>log_attrs := log_attrs record @ [(''trace_id'', AString trace), (''span_id'', AString span)]\<rparr>)"

definition log_to :: "log_record \<Rightarrow> 'd handler" where
  "log_to record c = c\<lparr>logs := logs c @ [Handle (ctx_id c) (ctx_span c) record]\<rparr>"

section \<open>Writing a response\<close>

definition error_json :: "string \<Rightarrow> string \<Rightarrow> json" where
  "error_json code message =
     JObject [(''error'', JObject [(''code'', JString code), (''message'', JString message)])]"

text \<open>
  The header and the status are written before the body is encoded; a body that cannot be
  encoded leaves the response without one.
\<close>

definition WriteJSON :: "'d gin_scheme \<Rightarrow> int \<Rightarrow> json \<Rightarrow> 'd gin_scheme \<times> go_error option" where
  "WriteJSON c code value_to_send =
     (let c = set_header ''Content-Type'' ''application/json'' c;
          c = write_status code c
      in case Encode value_to_send of
           Inl err \<Rightarrow> (c, Some err)
         | Inr bytes \<Rightarrow> (c\<lparr>body := Some bytes\<rparr>, req_write_error (req c)))"

lemma WriteJSON_unfold:
  "WriteJSON c code v =
     (let c = write_status code (set_header ''Content-Type'' ''application/json'' c)
      in if encodable v then (c\<lparr>body := Some (Json v)\<rparr>, req_write_error (req c))
         else (c, Some (Errorf ''json: error calling MarshalJSON for type time.Time'')))"
  by (simp add: WriteJSON_def Encode_Json Let_def)

definition WriteError :: "'d gin_scheme \<Rightarrow> int \<Rightarrow> string \<Rightarrow> string \<Rightarrow> 'd gin_scheme \<times> go_error option" where
  "WriteError c code error_code message = WriteJSON c code (error_json error_code message)"

text \<open>\<open>context.Data\<close> of gin; the content type is kept when one was set before.\<close>

definition gin_data :: "int \<Rightarrow> string \<Rightarrow> string \<Rightarrow> 'd handler" where
  "gin_data code content_type data c =
     (let c = write_status code c;
          c = (if header_of c ''Content-Type'' = [] then set_header ''Content-Type'' content_type c else c)
      in c\<lparr>body := Some data\<rparr>)"

lemma map_of_other: "map_of (filter (\<lambda>h. fst h \<noteq> k) hs) k' = (if k' = k then None else map_of hs k')"
  by (induction hs) auto

lemma header_of_set [simp]: "header_of (set_header k v c) k' = (if k' = k then v else header_of c k')"
  by (simp add: header_of_def set_header_def map_of_other)

lemma header_of_gin [simp]: "header_of (gin_header k v c) k' = (if k' = k then v else header_of c k')"
  by (simp add: gin_header_def) (simp add: header_of_def map_of_other)

lemma header_of_update [simp]:
  "header_of (c\<lparr>status := n\<rparr>) k = header_of c k" "header_of (c\<lparr>body := b\<rparr>) k = header_of c k"
  "header_of (c\<lparr>logs := ls\<rparr>) k = header_of c k" "header_of (c\<lparr>ctx_id := i\<rparr>) k = header_of c k"
  "header_of (c\<lparr>ctx_log := l\<rparr>) k = header_of c k" "header_of (write_status code c) k = header_of c k"
  "header_of (c\<lparr>ctx_span := sp\<rparr>) k = header_of c k"
  by (simp_all add: header_of_def write_status_def)

lemma set_header_fields [simp]:
  "req (set_header k v c) = req c" "ctx_span (set_header k v c) = ctx_span c" "status (set_header k v c) = status c" "body (set_header k v c) = body c"
  "ctx_id (set_header k v c) = ctx_id c" "ctx_log (set_header k v c) = ctx_log c" "logs (set_header k v c) = logs c"
  "gin.more (set_header k v c) = gin.more c"
  by (simp_all add: set_header_def)

lemma gin_header_fields [simp]:
  "req (gin_header k v c) = req c" "ctx_span (gin_header k v c) = ctx_span c" "status (gin_header k v c) = status c" "body (gin_header k v c) = body c"
  "ctx_id (gin_header k v c) = ctx_id c" "ctx_log (gin_header k v c) = ctx_log c" "logs (gin_header k v c) = logs c"
  "gin.more (gin_header k v c) = gin.more c"
  by (simp_all add: gin_header_def)

lemma error_json_encodable [simp]: "encodable (error_json code message)"
  by (simp add: error_json_def)

lemma WriteError_fields:
  assumes "body c = None"
  shows "status (fst (WriteError c code e m)) = code" "body (fst (WriteError c code e m)) = Some (Json (error_json e m))"
    "header_of (fst (WriteError c code e m)) k = (if k = ''Content-Type'' then ''application/json'' else header_of c k)"
    "logs (fst (WriteError c code e m)) = logs c" "ctx_log (fst (WriteError c code e m)) = ctx_log c"
    "req (fst (WriteError c code e m)) = req c" "ctx_id (fst (WriteError c code e m)) = ctx_id c"
    "ctx_span (fst (WriteError c code e m)) = ctx_span c"
    "gin.more (fst (WriteError c code e m)) = gin.more c"
  using assms by (simp_all add: WriteError_def WriteJSON_unfold write_status_def)

end
