(* ===== verification/Logging.thy ===== *)
theory Logging
  imports Http
begin

text \<open>
  The handler chain of the process logger: \<open>correlationHandler\<close> of
  \<open>internal/infra/telemetry/logging.go\<close> over the JSON output and the OpenTelemetry bridge that
  \<open>internal/infra/telemetry/telemetry.go\<close> puts together, with the logger's fixed attributes.
\<close>

section \<open>Handlers\<close>

text \<open>
  An output writes its own attributes and the record's, each with the groups that were open when it
  was added; it drops records below its level and may fail to write. The library's multi-handler
  hands a record to every handler that is enabled for it.
\<close>

type_synonym grouped_attrs = "(string list \<times> string \<times> attr) list"

record line =
  written_by :: string
  line_level :: level
  line_message :: string
  line_attrs :: grouped_attrs

record log_output =
  output_name :: string
  output_level :: level
  output_error :: "go_error option"
  output_attrs :: grouped_attrs
  output_groups :: "string list"

datatype slog_handler =
    Output log_output
  | MultiHandler "slog_handler list"
  | correlationHandler slog_handler

primrec severity :: "level \<Rightarrow> int" where
  "severity LevelInfo = 0"
| "severity LevelWarn = 4"
| "severity LevelError = 8"

fun Enabled :: "slog_handler \<Rightarrow> level \<Rightarrow> bool" where
  "Enabled (Output out) l \<longleftrightarrow> severity (output_level out) \<le> severity l"
| "Enabled (MultiHandler hs) l \<longleftrightarrow> list_ex (\<lambda>h. Enabled h l) hs"
| "Enabled (correlationHandler next) l \<longleftrightarrow> Enabled next l"

definition in_groups :: "string list \<Rightarrow> attrs \<Rightarrow> grouped_attrs" where
  "in_groups gs as = map (\<lambda>(k, v). (gs, k, v)) as"

definition output_line :: "log_output \<Rightarrow> log_record \<Rightarrow> line" where
  "output_line out record =
     \<lparr>written_by = output_name out, line_level = log_level record, line_message = log_message record,
      line_attrs = output_attrs out @ in_groups (output_groups out) (log_attrs record)\<rparr>"

text \<open>What is written, and the errors that are joined. A handler gets its own copy of the record.\<close>

fun slog_Handle :: "string \<Rightarrow> (string \<times> string) option \<Rightarrow> log_record \<Rightarrow> slog_handler \<Rightarrow> line list \<times> go_error list" where
  "slog_Handle requestID spanContext record (Output out) =
     (case output_error out of Some err \<Rightarrow> ([], [err]) | None \<Rightarrow> ([output_line out record], []))"
| "slog_Handle requestID spanContext record (MultiHandler hs) =
     (let results = map (slog_Handle requestID spanContext record) (filter (\<lambda>h. Enabled h (log_level record)) hs)
      in (concat (map fst results), concat (map snd results)))"
| "slog_Handle requestID spanContext record (correlationHandler next) =
     slog_Handle requestID spanContext (Handle requestID spanContext record) next"

fun WithAttrs :: "attrs \<Rightarrow> slog_handler \<Rightarrow> slog_handler" where
  "WithAttrs as (Output out) = Output (out\<lparr>output_attrs := output_attrs out @ in_groups (output_groups out) as\<rparr>)"
| "WithAttrs as (MultiHandler hs) = MultiHandler (map (WithAttrs as) hs)"
| "WithAttrs as (correlationHandler next) = correlationHandler (WithAttrs as next)"

fun WithGroup :: "string \<Rightarrow> slog_handler \<Rightarrow> slog_handler" where
  "WithGroup name (Output out) = Output (if name = [] then out else out\<lparr>output_groups := output_groups out @ [name]\<rparr>)"
| "WithGroup name (MultiHandler hs) = MultiHandler (map (WithGroup name) hs)"
| "WithGroup name (correlationHandler next) = correlationHandler (WithGroup name next)"

definition newCorrelationHandler :: "slog_handler \<Rightarrow> slog_handler" where
  "newCorrelationHandler next = correlationHandler next"

section \<open>The process logger\<close>

text \<open>Logging drops a record no handler is enabled for, and ignores the handler's error.\<close>

definition slog_log :: "slog_handler \<Rightarrow> string \<Rightarrow> (string \<times> string) option \<Rightarrow> log_record \<Rightarrow> line list" where
  "slog_log h requestID spanContext record =
     (if Enabled h (log_level record) then fst (slog_Handle requestID spanContext record h) else [])"

definition serviceName :: string where
  "serviceName = ''consumel-api''"

definition service_attrs :: "string \<Rightarrow> string \<Rightarrow> attrs" where
  "service_attrs instanceID environment =
     [(''service.name'', AString serviceName), (''service.instance.id'', AString instanceID),
      (''deployment.environment.name'', AString environment)]"

text \<open>
  The outputs: JSON on the standard output, and the bridge to the OpenTelemetry exporter. The bridge
  is a library and a parameter: an output as the interface \<open>slog.Handler\<close> describes it.
\<close>

definition stdout_output :: "go_error option \<Rightarrow> log_output" where
  "stdout_output err =
     \<lparr>output_name = ''stdout'', output_level = LevelInfo, output_error = err, output_attrs = [], output_groups = []\<rparr>"

definition runtime_logger :: "go_error option \<Rightarrow> log_output \<Rightarrow> string \<Rightarrow> string \<Rightarrow> slog_handler" where
  "runtime_logger stdout_error otelHandler instanceID environment =
     WithAttrs (service_attrs instanceID environment)
       (newCorrelationHandler (MultiHandler [Output (stdout_output stdout_error), Output otelHandler]))"

text \<open>Loggers derived from it by \<open>With\<close> and \<open>WithGroup\<close>.\<close>

datatype derivation = With attrs | Group string

fun derive :: "derivation list \<Rightarrow> slog_handler \<Rightarrow> slog_handler" where
  "derive [] h = h"
| "derive (With as # ds) h = derive ds (WithAttrs as h)"
| "derive (Group name # ds) h = derive ds (WithGroup name h)"

fun open_groups :: "derivation list \<Rightarrow> string list" where
  "open_groups [] = []"
| "open_groups (With as # ds) = open_groups ds"
| "open_groups (Group name # ds) = (if name = [] then [] else [name]) @ open_groups ds"

lemma derive_outputs:
  "\<exists>added_stdout added_otel. derive ds (correlationHandler (MultiHandler [Output s, Output t])) =
     correlationHandler (MultiHandler
       [Output (s\<lparr>output_attrs := output_attrs s @ added_stdout, output_groups := output_groups s @ open_groups ds\<rparr>),
        Output (t\<lparr>output_attrs := output_attrs t @ added_otel, output_groups := output_groups t @ open_groups ds\<rparr>)])"
proof (induction ds arbitrary: s t)
  case Nil
  show ?case by (intro exI [of _ "[]"]) simp
next
  case (Cons d ds)
  show ?case
  proof (cases d)
    case (With as)
    show ?thesis
      using Cons [of "s\<lparr>output_attrs := output_attrs s @ in_groups (output_groups s) as\<rparr>"
          "t\<lparr>output_attrs := output_attrs t @ in_groups (output_groups t) as\<rparr>"]
      by (fastforce simp: With)
  next
    case (Group name)
    show ?thesis
      using Cons [of "if name = [] then s else s\<lparr>output_groups := output_groups s @ [name]\<rparr>"
          "if name = [] then t else t\<lparr>output_groups := output_groups t @ [name]\<rparr>"]
      by (cases "name = []") (fastforce simp: Group)+
  qed
qed

definition correlation_attrs :: "string \<Rightarrow> (string \<times> string) option \<Rightarrow> attrs" where
  "correlation_attrs requestID spanContext =
     (if requestID \<noteq> [] then [(''request_id'', AString requestID)] else []) @
     (case spanContext of None \<Rightarrow> [] | Some (trace, span) \<Rightarrow> [(''trace_id'', AString trace), (''span_id'', AString span)])"

lemma Handle_adds: "Handle requestID spanContext r = r\<lparr>log_attrs := log_attrs r @ correlation_attrs requestID spanContext\<rparr>"
  by (cases r) (simp add: Handle_def correlation_attrs_def Let_def split: option.split)

text \<open>
  C38. Whatever logger is derived from the process logger, a record is written once on the standard
  output unless writing fails there, and once by the bridge unless the bridge drops the level or
  fails, whatever the other one does; always at its own level and with its own message, with the
  attributes of the service first, and with its own attributes and the ids of the request and the
  span in the groups that are open.
\<close>

theorem records_reach_both_outputs:
  "let ls = slog_log (derive ds (runtime_logger stdout_error otelHandler instanceID environment)) requestID spanContext r;
       passed = output_error otelHandler = None \<and> severity (output_level otelHandler) \<le> severity (log_level r)
   in map written_by ls =
        (if stdout_error = None then [''stdout''] else []) @ (if passed then [output_name otelHandler] else []) \<and>
      (\<forall>l\<in>set ls. line_level l = log_level r \<and> line_message l = log_message r \<and>
         (\<exists>held gs. (held, gs) \<in> {([], []), (output_attrs otelHandler, output_groups otelHandler)} \<and>
            (\<exists>more. line_attrs l = held @ in_groups gs (service_attrs instanceID environment) @ more @
               in_groups (gs @ open_groups ds) (log_attrs r @ correlation_attrs requestID spanContext))))"
proof -
  have level: "0 \<le> severity (log_level r)" by (cases "log_level r") simp_all
  let ?s = "(stdout_output stdout_error)\<lparr>output_attrs := in_groups [] (service_attrs instanceID environment)\<rparr>"
  let ?t = "otelHandler\<lparr>output_attrs := output_attrs otelHandler @
    in_groups (output_groups otelHandler) (service_attrs instanceID environment)\<rparr>"
  have "runtime_logger stdout_error otelHandler instanceID environment = correlationHandler (MultiHandler [Output ?s, Output ?t])"
    by (simp add: runtime_logger_def newCorrelationHandler_def stdout_output_def)
  with derive_outputs [of ds ?s ?t] obtain a b where
    derived: "derive ds (runtime_logger stdout_error otelHandler instanceID environment) =
      correlationHandler (MultiHandler
        [Output (?s\<lparr>output_attrs := output_attrs ?s @ a, output_groups := output_groups ?s @ open_groups ds\<rparr>),
         Output (?t\<lparr>output_attrs := output_attrs ?t @ b, output_groups := output_groups ?t @ open_groups ds\<rparr>)])"
    by metis
  let ?own = "log_attrs r @ correlation_attrs requestID spanContext" and ?service = "in_groups [] (service_attrs instanceID environment)"
  have lines: "\<exists>held gs. (held = [] \<and> gs = [] \<or> held = output_attrs otelHandler \<and> gs = output_groups otelHandler) \<and>
      (\<exists>more. ?service @ a @ in_groups (open_groups ds) ?own =
         held @ in_groups gs (service_attrs instanceID environment) @ more @ in_groups (gs @ open_groups ds) ?own)"
    "\<exists>held gs. (held = [] \<and> gs = [] \<or> held = output_attrs otelHandler \<and> gs = output_groups otelHandler) \<and>
      (\<exists>more. output_attrs otelHandler @ in_groups (output_groups otelHandler) (service_attrs instanceID environment) @ b @
         in_groups (output_groups otelHandler @ open_groups ds) ?own =
         held @ in_groups gs (service_attrs instanceID environment) @ more @ in_groups (gs @ open_groups ds) ?own)"
    by (rule exI [of _ "[]"], rule exI [of _ "[]"], simp)
      (rule exI [of _ "output_attrs otelHandler"], rule exI [of _ "output_groups otelHandler"], simp)
  show ?thesis
    unfolding derived slog_log_def using level lines
    by (cases stdout_error; cases "output_error otelHandler")
      (simp_all add: Handle_adds output_line_def stdout_output_def Let_def)
qed

text \<open>A record of one request, with one output failing.\<close>

definition sample_bridge :: log_output where
  "sample_bridge = \<lparr>output_name = ''otel'', output_level = LevelInfo, output_error = None, output_attrs = [], output_groups = []\<rparr>"

theorem records_reach_both_outputs_witness:
  "map written_by (slog_log (derive [Group ''db''] (runtime_logger (Some (Errorf ''closed'')) sample_bridge ''i'' ''test'')) ''r1'' None
      \<lparr>log_level = LevelInfo, log_message = ''m'', log_attrs = [(''k'', AInt 1)]\<rparr>) = [''otel'']"
  using records_reach_both_outputs [of "[Group ''db'']" "Some (Errorf ''closed'')" sample_bridge "''i''" "''test''" "''r1''" None
      "\<lparr>log_level = LevelInfo, log_message = ''m'', log_attrs = [(''k'', AInt 1)]\<rparr>"]
  unfolding Let_def by (elim conjE) (simp add: sample_bridge_def)

end
