(* ===== verification/Emails.thy ===== *)
theory Emails
  imports Go_Numbers Lua_Numbers
begin

text \<open>
  Authentication emails: \<open>internal/authentication/templates\<close> and \<open>internal/infra/clients/resend.go\<close>.
  Parsing a URL or a sender and the Resend service are parameters; executing a template and the
  calendar year of an instant are arguments here and functions in \<open>Email_Templates\<close>. \<open>rnd\<close> rounds to a 64-bit float.
\<close>

section \<open>The remaining time\<close>

text \<open>
  \<open>Duration.Minutes\<close> and \<open>Duration.Hours\<close>: the whole units plus the rest as a fraction. An \<open>int\<close>
  of their ceiling is exact here, since a duration has fewer than \<open>2 ^ 53\<close> minutes.
\<close>

definition in_units :: "(rat \<Rightarrow> rat) \<Rightarrow> duration \<Rightarrow> duration \<Rightarrow> rat" where
  "in_units rnd u d = rnd (of_int (trunc_div d u) + rnd (of_int (d - trunc_div d u * u) / of_int u))"

definition unit_text :: "string \<Rightarrow> int \<Rightarrow> string" where
  "unit_text u n = (if n = 1 then ''1 '' @ u else Itoa n @ '' '' @ u @ ''s'')"

section \<open>Rendering\<close>

record email =
  Subject :: string
  email_Text :: string
  HTML :: string

record template_data =
  Title :: string
  Preview :: string
  Secret :: string
  ExpiresIn :: string
  Year :: int

definition newline :: string where
  "newline = [CHR 0x0A]"

definition RenderVerificationEmail ::
  "(rat \<Rightarrow> rat) \<Rightarrow> (template_data \<Rightarrow> string result) \<Rightarrow> (instant \<Rightarrow> int) \<Rightarrow> string \<Rightarrow> instant \<Rightarrow> instant \<Rightarrow> email result" where
  "RenderVerificationEmail rnd execute year_of code expiresAt now =
     (let code = TrimSpace code
      in if code = [] then Inl (Errorf ''verification code is required'')
         else
           (let remaining = time_sub expiresAt now
            in if remaining \<le> 0 then Inl (Errorf ''verification code expiry must be in the future'')
               else
                 (let minutes = \<lceil>in_units rnd minute remaining\<rceil>;
                      expiresIn = unit_text ''minute'' minutes
                  in case execute \<lparr>Title = ''Verify your Consumel account'',
                         Preview = ''Use this code to verify your Consumel account.'', Secret = code, ExpiresIn = expiresIn,
                         Year = year_of now\<rparr> of
                       Inl err \<Rightarrow> Inl (Wrap ''render verification email'' err)
                     | Inr rendered \<Rightarrow>
                         Inr \<lparr>Subject = ''Verify your Consumel account'',
                              email_Text = ''Your Consumel verification code is '' @ code @ ''.'' @ newline @ newline @
                                ''This code expires in '' @ expiresIn @
                                ''. If you didn't request it, you can safely ignore this email.'',
                              HTML = rendered\<rparr>)))"

record parsed_url =
  Scheme :: string
  Userinfo :: bool
  Host :: string
  url_Path :: string
  RawQuery :: string
  Fragment :: string

definition RenderPasswordResetEmail ::
  "(rat \<Rightarrow> rat) \<Rightarrow> (template_data \<Rightarrow> string result) \<Rightarrow> (instant \<Rightarrow> int) \<Rightarrow> (string \<Rightarrow> parsed_url result) \<Rightarrow>
   string \<Rightarrow> instant \<Rightarrow> instant \<Rightarrow> email result" where
  "RenderPasswordResetEmail rnd execute year_of url_Parse resetURL expiresAt now =
     (let resetURL = TrimSpace resetURL
      in if (case url_Parse resetURL of Inl err \<Rightarrow> True
             | Inr parsedURL \<Rightarrow> Host parsedURL = [] \<or> Scheme parsedURL \<noteq> ''http'' \<and> Scheme parsedURL \<noteq> ''https'')
         then Inl (Errorf ''password reset URL must be an HTTP or HTTPS URL'')
         else
           (let remaining = time_sub expiresAt now
            in if remaining \<le> 0 then Inl (Errorf ''password reset expiry must be in the future'')
               else
                 (let hours = \<lceil>in_units rnd hour remaining\<rceil>;
                      expiresIn = unit_text ''hour'' hours
                  in case execute \<lparr>Title = ''Reset your Consumel password'',
                         Preview = ''Choose a new password for your Consumel account.'', Secret = resetURL,
                         ExpiresIn = expiresIn, Year = year_of now\<rparr> of
                       Inl err \<Rightarrow> Inl (Wrap ''render password reset email'' err)
                     | Inr rendered \<Rightarrow>
                         Inr \<lparr>Subject = ''Reset your Consumel password'',
                              email_Text = ''Reset your Consumel password using this secure link: '' @ resetURL @ newline @ newline @
                                ''This link expires in '' @ expiresIn @
                                '' and can be used once. If you didn't request it, you can safely ignore this email.'',
                              HTML = rendered\<rparr>)))"

section \<open>Sending\<close>

record SendEmailRequest =
  From :: string
  To :: "string list"
  Send_Subject :: string
  Send_Text :: string
  Html :: string

text \<open>\<open>emails\<close> is the Resend service; a send changes its state.\<close>

record 'm ResendAuthenticationEmailSender =
  emails :: "'m \<Rightarrow> SendEmailRequest \<Rightarrow> 'm \<times> go_error option"
  sender_from :: string

definition NewResendAuthenticationEmailSender ::
  "(string \<Rightarrow> unit result) \<Rightarrow> ('m \<Rightarrow> SendEmailRequest \<Rightarrow> 'm \<times> go_error option) option \<Rightarrow> string \<Rightarrow>
   'm ResendAuthenticationEmailSender result" where
  "NewResendAuthenticationEmailSender mail_ParseAddress service from_address =
     (case service of
        None \<Rightarrow> Inl (Errorf ''Resend email service is required'')
      | Some send \<Rightarrow>
          (let from_address = TrimSpace from_address
           in case mail_ParseAddress from_address of
                Inl err \<Rightarrow> Inl (Wrap ''parse Resend sender'' err)
              | Inr _ \<Rightarrow> Inr \<lparr>emails = send, sender_from = from_address\<rparr>))"

definition send_rendered ::
  "'m ResendAuthenticationEmailSender \<Rightarrow> 'm \<Rightarrow> string \<Rightarrow> email result \<Rightarrow> 'm \<times> go_error option" where
  "send_rendered sender m recipient rendered =
     (case rendered of
        Inl err \<Rightarrow> (m, Some err)
      | Inr message \<Rightarrow>
          (case emails sender m \<lparr>From = sender_from sender, To = [recipient], Send_Subject = Subject message,
                  Send_Text = email_Text message, Html = HTML message\<rparr> of
             (m, Some err) \<Rightarrow> (m, Some (Wrap ''send authentication email through Resend'' err))
           | (m, None) \<Rightarrow> (m, None)))"

definition SendVerification ::
  "(string \<Rightarrow> instant \<Rightarrow> instant \<Rightarrow> email result) \<Rightarrow> 'm ResendAuthenticationEmailSender \<Rightarrow> 'm \<Rightarrow> instant \<Rightarrow> string \<Rightarrow> string \<Rightarrow>
   instant \<Rightarrow> 'm \<times> go_error option" where
  "SendVerification render sender m now recipient code expiresAt = send_rendered sender m recipient (render code expiresAt now)"

definition SendPasswordReset ::
  "(string \<Rightarrow> instant \<Rightarrow> instant \<Rightarrow> email result) \<Rightarrow> 'm ResendAuthenticationEmailSender \<Rightarrow> 'm \<Rightarrow> instant \<Rightarrow> string \<Rightarrow> string \<Rightarrow>
   instant \<Rightarrow> 'm \<times> go_error option" where
  "SendPasswordReset render sender m now recipient resetURL expiresAt = send_rendered sender m recipient (render resetURL expiresAt now)"

section \<open>What the text says\<close>

text \<open>
  The number in the text is at least one and never less than the whole units left, and at most one
  more; what a nearly whole number is rounded to can only make it smaller by one.
\<close>

context lua_arith
begin

lemma in_units_bounds:
  assumes "0 < d" "in_int64 d" "second \<le> u"
  shows "1 \<le> \<lceil>in_units rnd u d\<rceil>" "d div u \<le> \<lceil>in_units rnd u d\<rceil>" "\<lceil>in_units rnd u d\<rceil> \<le> d div u + 1"
proof -
  let ?q = "d div u" and ?f = "rnd (of_int (d mod u) / of_int u)"
  have u: "0 < u" using assms(3) by (simp add: second_def)
  have q: "0 \<le> ?q" using assms(1) u by (simp add: pos_imp_zdiv_nonneg_iff)
  have "?q \<le> d div 1000000" using assms u by (intro zdiv_mono2) (simp_all add: second_def)
  also have "\<dots> \<le> 2 ^ 63 div 1000000" using assms(2) by (intro zdiv_mono1) (simp_all add: in_int64_def)
  also have "\<dots> < 2 ^ 53 - 1" by simp
  finally have small: "\<bar>?q\<bar> \<le> 2 ^ 53" "\<bar>?q + 1\<bar> \<le> 2 ^ 53" using q by auto
  have units: "in_units rnd u d = rnd (of_int ?q + ?f)"
    using assms(1) u by (simp add: in_units_def trunc_div_pos minus_div_mult_eq_mod)
  have "0 \<le> (of_int (d mod u) / of_int u :: rat)" "(of_int (d mod u) / of_int u :: rat) \<le> of_int 1"
    using u less_imp_le [OF pos_mod_bound [OF u, of d]] by (simp_all only: divide_le_eq of_int_1 of_int_0_le_iff zero_le_divide_iff
      pos_mod_sign of_int_0_less_iff if_True mult_1 of_int_le_iff less_imp_le simp_thms)
  then have f: "0 \<le> ?f" "?f \<le> 1" using rnd_nonneg rnd_le_int [of _ 1] by auto
  then have low: "of_int ?q \<le> in_units rnd u d" and high: "in_units rnd u d \<le> of_int (?q + 1)"
    unfolding units using small by (intro rnd_ge_int rnd_le_int; simp)+
  from low show "?q \<le> \<lceil>in_units rnd u d\<rceil>" by (metis ceiling_mono ceiling_of_int)
  from high show "\<lceil>in_units rnd u d\<rceil> \<le> ?q + 1" by (simp only: ceiling_le_iff)
  have "0 < in_units rnd u d"
  proof (cases "?q = 0")
    case True
    then have "0 < d mod u" using assms(1) mult_div_mod_eq [of u d] by simp
    then show ?thesis unfolding units True using u by (intro rnd_pos) (simp add: rnd_pos)
  next
    case False
    with q have "(0 :: rat) < of_int ?q" by simp
    with low show ?thesis by linarith
  qed
  then show "1 \<le> \<lceil>in_units rnd u d\<rceil>" by linarith
qed

end

text \<open>
  The number in an email is at least one, never less than the whole minutes (hours) left and at
  most one more.
\<close>

theorem email_expiry_text:
  assumes "lua_arith rnd" "RenderVerificationEmail rnd execute year_of code expiresAt now = Inr message"
  shows "\<exists>n. (\<exists>before after. email_Text message = before @ unit_text ''minute'' n @ after) \<and> 1 \<le> n \<and>
    time_sub expiresAt now div minute \<le> n \<and> n \<le> time_sub expiresAt now div minute + 1"
proof -
  let ?d = "time_sub expiresAt now"
  let ?n = "\<lceil>in_units rnd minute ?d\<rceil>"
  have d: "0 < ?d" and wording: "email_Text message =
      (''Your Consumel verification code is '' @ TrimSpace code @ ''.'' @ newline @ newline @ ''This code expires in '') @
      unit_text ''minute'' ?n @ ''. If you didn't request it, you can safely ignore this email.''"
    using assms(2) by (auto simp: RenderVerificationEmail_def Let_def split: if_splits sum.splits)
  have "in_int64 ?d" "second \<le> minute" by (simp_all add: time_sub_def in_int64_def second_def minute_def)
  note bounds = lua_arith.in_units_bounds [OF assms(1) d this]
  show ?thesis
    by (rule exI [of _ ?n]) (intro conjI bounds exI, rule wording)
qed

end
