(* ===== verification/Config.thy ===== *)
theory Config
  imports Emails Email_Verification Rate_Limit
begin

text \<open>
  The server's configuration: \<open>internal/config/config.go\<close>. The koanf library and the parsers of the
  standard library (URLs, mail addresses, base64) are parameters.
\<close>

section \<open>Settings\<close>

record HTTP_config =
  HTTP_Port :: int

record Database_config =
  Database_Host :: string
  Database_Port :: int
  Database_Name :: string
  Database_User :: string
  Database_Password :: string
  SSLMode :: string

record Auth_config =
  BaseURL :: string
  ClientBaseURL :: string
  TrustedOrigins :: "string list"
  TrustedProxies :: "string list"
  OTPHMACSecret :: string
  GoogleClientID :: string
  GoogleClientSecret :: string

record Resend_config =
  APIKey :: string
  NoReplyFrom :: string
  HelloFrom :: string

record Config =
  Environment :: string
  HTTP :: HTTP_config
  Database :: Database_config
  Redis_URL :: string
  Auth :: Auth_config
  Resend :: Resend_config

definition environmentPrefix :: string where "environmentPrefix = ''CONSUMEL_''"
definition defaultHTTPPort :: int where "defaultHTTPPort = 8080"
definition defaultPostgresPort :: int where "defaultPostgresPort = 5432"
definition EnvironmentDevelopment :: string where "EnvironmentDevelopment = ''development''"
definition EnvironmentProduction :: string where "EnvironmentProduction = ''production''"

text \<open>
  \<open>koanf file environment\<close> is the lookup of a koanf instance after loading the transformed entries of
  the \<open>.env\<close> file and then those of the environment.
\<close>

record sources =
  koanf :: "(string \<times> string) list \<Rightarrow> (string \<times> string) list \<Rightarrow> string \<Rightarrow> string option"
  dotenv_file :: "(string \<times> string) list result"
  environment :: "(string \<times> string) list result"
  url_Parse :: "string \<Rightarrow> parsed_url result"
  url_ParseRequestURI :: "string \<Rightarrow> parsed_url result"
  mail_ParseAddress :: "string \<Rightarrow> unit result"
  base64_DecodeString :: "string \<Rightarrow> string result"

definition fs_ErrNotExist :: string where
  "fs_ErrNotExist = ''fs.ErrNotExist''"

definition transform :: "string \<times> string \<Rightarrow> string \<times> string" where
  "transform entry =
     (let (key, val) = entry;
          key = ToLower (TrimPrefix key environmentPrefix);
          (prefix_part, setting, grouped) = Cut key CHR ''_'';
          key = (if grouped then prefix_part @ ''.'' @ setting else key)
      in (key, val))"

definition commaSeparated :: "string \<Rightarrow> string list" where
  "commaSeparated v = filter (\<lambda>part. part \<noteq> []) (map TrimSpace (Split v CHR '',''))"

section \<open>Validation\<close>

text \<open>\<open>not_an_origin\<close> is the check shared by the two base URLs.\<close>

definition not_an_origin :: "parsed_url result \<Rightarrow> bool" where
  "not_an_origin parsed =
     (case parsed of
        Inl err \<Rightarrow> True
      | Inr url \<Rightarrow>
          Host url = [] \<or> Scheme url \<noteq> ''http'' \<and> Scheme url \<noteq> ''https'' \<or> Userinfo url \<or> url_Path url \<noteq> [] \<or>
          RawQuery url \<noteq> [] \<or> Fragment url \<noteq> [])"

definition ssl_modes :: "string list" where
  "ssl_modes = [''disable'', ''allow'', ''prefer'', ''require'', ''verify-ca'', ''verify-full'']"

definition Validate :: "'x sources_scheme \<Rightarrow> Config \<Rightarrow> go_error option" where
  "Validate src cfg =
     (if Environment cfg \<noteq> EnvironmentDevelopment \<and> Environment cfg \<noteq> EnvironmentProduction
      then Some (Errorf ''CONSUMEL_ENVIRONMENT must be development or production'')
      else if HTTP_Port (HTTP cfg) < 1 \<or> 65535 < HTTP_Port (HTTP cfg)
      then Some (Errorf ''CONSUMEL_HTTP_PORT must be between 1 and 65535'')
      else if Database_Host (Database cfg) = []
      then Some (Errorf ''CONSUMEL_DATABASE_HOST is required'')
      else if Database_Port (Database cfg) < 1 \<or> 65535 < Database_Port (Database cfg)
      then Some (Errorf ''CONSUMEL_DATABASE_PORT must be between 1 and 65535'')
      else if Database_Name (Database cfg) = []
      then Some (Errorf ''CONSUMEL_DATABASE_NAME is required'')
      else if Database_User (Database cfg) = []
      then Some (Errorf ''CONSUMEL_DATABASE_USER is required'')
      else if Database_Password (Database cfg) = []
      then Some (Errorf ''CONSUMEL_DATABASE_PASSWORD is required'')
      else if SSLMode (Database cfg) \<notin> set ssl_modes
      then Some (Errorf ''CONSUMEL_DATABASE_SSL_MODE must be a supported PostgreSQL SSL mode'')
      else if TrimSpace (Redis_URL cfg) = []
      then Some (Errorf ''CONSUMEL_REDIS_URL is required'')
      else
        (case url_ParseRequestURI src (Redis_URL cfg) of
           Inl err \<Rightarrow> Some (Wrap ''CONSUMEL_REDIS_URL must be a valid URL'' err)
         | Inr _ \<Rightarrow>
             if not_an_origin (url_Parse src (TrimSpace (BaseURL (Auth cfg))))
             then Some (Errorf ''CONSUMEL_AUTH_BASE_URL must be an HTTP or HTTPS origin without a path'')
             else if not_an_origin (url_Parse src (TrimSpace (ClientBaseURL (Auth cfg))))
             then Some (Errorf ''CONSUMEL_AUTH_CLIENT_BASE_URL must be an HTTP or HTTPS origin without a path'')
             else if length (OTPHMACSecret (Auth cfg)) < 32
             then Some (Errorf ''CONSUMEL_AUTH_OTP_HMAC_SECRET must decode to at least 32 bytes'')
             else if (GoogleClientID (Auth cfg) = []) \<noteq> (GoogleClientSecret (Auth cfg) = [])
             then Some (Errorf
               ''CONSUMEL_AUTH_GOOGLE_CLIENT_ID and CONSUMEL_AUTH_GOOGLE_CLIENT_SECRET must be configured together'')
             else if TrimSpace (APIKey (Resend cfg)) = []
             then Some (Errorf ''CONSUMEL_RESEND_API_KEY is required'')
             else
               (case mail_ParseAddress src (TrimSpace (NoReplyFrom (Resend cfg))) of
                  Inl err \<Rightarrow> Some (Wrap ''CONSUMEL_RESEND_NOREPLY_FROM must be a valid email sender'' err)
                | Inr _ \<Rightarrow>
                    (case mail_ParseAddress src (TrimSpace (HelloFrom (Resend cfg))) of
                       Inl err \<Rightarrow> Some (Wrap ''CONSUMEL_RESEND_HELLO_FROM must be a valid email sender'' err)
                     | Inr _ \<Rightarrow> None))))"

section \<open>Loading\<close>

text \<open>\<open>get\<close> is \<open>k.String\<close>: the empty string for a key that was not set. \<open>read_port\<close> reads one of the two ports.\<close>

definition get :: "(string \<Rightarrow> string option) \<Rightarrow> string \<Rightarrow> string" where
  "get k key = (case k key of None \<Rightarrow> [] | Some v \<Rightarrow> v)"

definition read_port :: "(string \<Rightarrow> string option) \<Rightarrow> string \<Rightarrow> int \<Rightarrow> string \<Rightarrow> int result" where
  "read_port k key fallback message =
     (case k key of
        None \<Rightarrow> Inr fallback
      | Some v \<Rightarrow> (case Atoi v of Inl err \<Rightarrow> Inl (Wrap message err) | Inr port \<Rightarrow> Inr port))"

definition load_sources :: "'x sources_scheme \<Rightarrow> (string \<Rightarrow> string option) result" where
  "load_sources src =
     (case dotenv_file src of
        Inl err \<Rightarrow>
          if \<not> errors_is err fs_ErrNotExist then Inl (Wrap ''load .env'' err)
          else (case environment src of
                  Inl err \<Rightarrow> Inl (Wrap ''load environment'' err)
                | Inr env \<Rightarrow> Inr (koanf src [] (map transform env)))
      | Inr file \<Rightarrow>
          (case environment src of
             Inl err \<Rightarrow> Inl (Wrap ''load environment'' err)
           | Inr env \<Rightarrow> Inr (koanf src (map transform file) (map transform env))))"

definition read_config :: "'x sources_scheme \<Rightarrow> (string \<Rightarrow> string option) \<Rightarrow> Config result" where
  "read_config src k =
     (case read_port k ''http.port'' defaultHTTPPort ''CONSUMEL_HTTP_PORT must be an integer'' of
        Inl err \<Rightarrow> Inl err
      | Inr http_port \<Rightarrow>
     (case read_port k ''database.port'' defaultPostgresPort ''CONSUMEL_DATABASE_PORT must be an integer'' of
        Inl err \<Rightarrow> Inl err
      | Inr database_port \<Rightarrow>
     (let encodedSecret = TrimSpace (get k ''auth.otp_hmac_secret'')
      in case (if encodedSecret = [] then Inr [] else base64_DecodeString src encodedSecret) of
           Inl err \<Rightarrow> Inl (Wrap ''CONSUMEL_AUTH_OTP_HMAC_SECRET must be base64 encoded'' err)
         | Inr decoded \<Rightarrow>
             Inr \<lparr>Environment = (case k ''environment'' of None \<Rightarrow> EnvironmentDevelopment | Some v \<Rightarrow> v),
                  HTTP = \<lparr>HTTP_Port = http_port\<rparr>,
                  Database =
                    \<lparr>Database_Host = TrimSpace (get k ''database.host''), Database_Port = database_port,
                     Database_Name = TrimSpace (get k ''database.name''), Database_User = TrimSpace (get k ''database.user''),
                     Database_Password = get k ''database.password'',
                     SSLMode = (case k ''database.ssl_mode'' of None \<Rightarrow> ''disable'' | Some v \<Rightarrow> TrimSpace v)\<rparr>,
                  Redis_URL = get k ''redis.url'',
                  Auth =
                    \<lparr>BaseURL = get k ''auth.base_url'', ClientBaseURL = get k ''auth.client_base_url'',
                     TrustedOrigins = commaSeparated (get k ''auth.trusted_origins''),
                     TrustedProxies = commaSeparated (get k ''auth.trusted_proxies''), OTPHMACSecret = decoded,
                     GoogleClientID = TrimSpace (get k ''auth.google_client_id''),
                     GoogleClientSecret = TrimSpace (get k ''auth.google_client_secret'')\<rparr>,
                  Resend =
                    \<lparr>APIKey = get k ''resend.api_key'', NoReplyFrom = get k ''resend.noreply_from'',
                     HelloFrom = get k ''resend.hello_from''\<rparr>\<rparr>)))"

definition Load :: "'x sources_scheme \<Rightarrow> Config result" where
  "Load src =
     (case load_sources src of
        Inl err \<Rightarrow> Inl err
      | Inr k \<Rightarrow>
          (case read_config src k of
             Inl err \<Rightarrow> Inl err
           | Inr cfg \<Rightarrow> (case Validate src cfg of Some err \<Rightarrow> Inl err | None \<Rightarrow> Inr cfg)))"

section \<open>Derived settings\<close>

definition PasswordResetURL :: "Auth_config \<Rightarrow> string" where
  "PasswordResetURL cfg = TrimRight (ClientBaseURL cfg) CHR ''/'' @ ''/reset-password''"

definition GoogleSuccessURL :: "Auth_config \<Rightarrow> string" where
  "GoogleSuccessURL cfg = TrimRight (ClientBaseURL cfg) CHR ''/'' @ ''/auth/complete''"

definition GoogleEnabled :: "Auth_config \<Rightarrow> bool" where
  "GoogleEnabled cfg \<longleftrightarrow> GoogleClientID cfg \<noteq> [] \<and> GoogleClientSecret cfg \<noteq> []"

definition Address :: "HTTP_config \<Rightarrow> string" where
  "Address cfg = '':'' @ Itoa (HTTP_Port cfg)"

text \<open>\<open>url_String\<close> assembles a URL from scheme, user, password, host, path and the query's parameters.\<close>

definition JoinHostPort :: "string \<Rightarrow> string \<Rightarrow> string" where
  "JoinHostPort host port = (if CHR '':'' \<in> set host then ''['' @ host @ '']:'' @ port else host @ '':'' @ port)"

definition ConnectionString ::
  "(string \<Rightarrow> string \<Rightarrow> string \<Rightarrow> string \<Rightarrow> string \<Rightarrow> (string \<times> string) list \<Rightarrow> string) \<Rightarrow> Database_config \<Rightarrow> string" where
  "ConnectionString url_String cfg =
     url_String ''postgres'' (Database_User cfg) (Database_Password cfg)
       (JoinHostPort (Database_Host cfg) (Itoa (Database_Port cfg))) (Database_Name cfg) [(''sslmode'', SSLMode cfg)]"

section \<open>A loaded configuration is usable\<close>

lemma Load_Inr:
  assumes "Load src = Inr cfg"
  obtains k where "load_sources src = Inr k" "read_config src k = Inr cfg" "Validate src cfg = None"
  using assms by (auto simp: Load_def split: sum.splits option.splits)

lemma Validate_None:
  assumes "Validate src cfg = None"
  shows "Environment cfg = EnvironmentDevelopment \<or> Environment cfg = EnvironmentProduction"
    and "1 \<le> HTTP_Port (HTTP cfg)" "HTTP_Port (HTTP cfg) \<le> 65535"
    and "Database_Host (Database cfg) \<noteq> []" "Database_Name (Database cfg) \<noteq> []" "Database_User (Database cfg) \<noteq> []"
    and "1 \<le> Database_Port (Database cfg)" "Database_Port (Database cfg) \<le> 65535"
    and "SSLMode (Database cfg) \<in> set ssl_modes" "32 \<le> length (OTPHMACSecret (Auth cfg))"
    and "GoogleClientID (Auth cfg) = [] \<longleftrightarrow> GoogleClientSecret (Auth cfg) = []"
    and "mail_ParseAddress src (TrimSpace (NoReplyFrom (Resend cfg))) = Inr ()"
  using assms by (auto simp: Validate_def split: if_splits sum.splits)

lemma commaSeparated_parts:
  "part \<in> set (commaSeparated v) \<Longrightarrow> part \<noteq> [] \<and> trimmed part"
  by (auto simp: commaSeparated_def TrimSpace_trimmed)

lemma read_config_Inr:
  assumes "read_config src k = Inr cfg"
  shows "TrustedOrigins (Auth cfg) = commaSeparated (get k ''auth.trusted_origins'')"
    and "TrustedProxies (Auth cfg) = commaSeparated (get k ''auth.trusted_proxies'')"
    and "read_port k ''http.port'' defaultHTTPPort ''CONSUMEL_HTTP_PORT must be an integer'' = Inr (HTTP_Port (HTTP cfg))"
    and "trimmed (Database_Host (Database cfg))" "trimmed (Database_Name (Database cfg))" "trimmed (Database_User (Database cfg))"
  using assms by (auto simp: read_config_def Let_def TrimSpace_trimmed split: sum.splits)


text \<open>
  The two base URLs are checked without the space around them but kept with it, so a setting with
  a leading blank passes the check and is then compared with origins that never have one.
\<close>

lemma Validate_ignores_space:
  assumes "TrimSpace url = TrimSpace (BaseURL (Auth cfg))"
  shows "Validate src (cfg\<lparr>Auth := (Auth cfg)\<lparr>BaseURL := url\<rparr>\<rparr>) = Validate src cfg"
  using assms by (simp add: Validate_def cong: sum.case_cong)

section \<open>Names of settings\<close>

text \<open>The environment variable of a key, as the README and the error messages write it.\<close>

definition variable_of :: "string \<Rightarrow> string" where
  "variable_of key = environmentPrefix @ ToUpper (map (\<lambda>c. if c = CHR ''.'' then CHR ''_'' else c) key)"

definition lower_name :: "string \<Rightarrow> bool" where
  "lower_name s \<longleftrightarrow> set s \<subseteq> set (CHR ''_'' # lower_letters)"

lemma lower_characters:
  "list_all (\<lambda>c. translate upper_letters lower_letters (translate lower_letters upper_letters c) = c \<and> c \<noteq> CHR ''.'')
    (CHR ''_'' # lower_letters)"
  by code_simp

lemma lower_nameD:
  assumes "lower_name s" "c \<in> set s"
  shows "translate upper_letters lower_letters (translate lower_letters upper_letters c) = c" "c \<noteq> CHR ''.''"
proof -
  have "c \<in> set (CHR ''_'' # lower_letters)" using assms unfolding lower_name_def by blast
  with lower_characters show "translate upper_letters lower_letters (translate lower_letters upper_letters c) = c" "c \<noteq> CHR ''.''"
    unfolding list_all_iff by blast+
qed

lemma ToLower_ToUpper: "lower_name s \<Longrightarrow> ToLower (ToUpper s) = s"
  by (simp add: ToLower_def ToUpper_def map_idI lower_nameD)

lemma lower_name_dot: "lower_name s \<Longrightarrow> map (\<lambda>c. if c = CHR ''.'' then CHR ''_'' else c) s = s"
  by (rule map_idI) (simp add: lower_nameD)

lemma Cut_first: "c \<notin> set s \<Longrightarrow> Cut (s @ c # r) c = (s, r, True)"
  by (induction s) auto

lemma transform_snd: "snd (transform entry) = snd entry"
  by (simp add: transform_def Let_def split: prod.split)

lemma transform_variable:
  assumes "lower_name prefix_part" "CHR ''_'' \<notin> set prefix_part" "lower_name setting"
  shows "transform (variable_of (prefix_part @ ''.'' @ setting), v) = (prefix_part @ ''.'' @ setting, v)"
proof -
  have "TrimPrefix (variable_of (prefix_part @ ''.'' @ setting)) environmentPrefix = ToUpper (prefix_part @ ''_'' @ setting)"
    using assms(1,3) by (simp add: variable_of_def TrimPrefix_def starts_with_def lower_name_dot)
  moreover have "ToLower (ToUpper (prefix_part @ ''_'' @ setting)) = prefix_part @ ''_'' @ setting"
    using assms by (intro ToLower_ToUpper) (auto simp: lower_name_def)
  ultimately show ?thesis
    using Cut_first [OF assms(2), of setting] by (simp add: transform_def Let_def)
qed

text \<open>
  Settings round trip. The variable name of a key is taken back to that key, for every group
  and setting in lower case; and a port written in decimal under the variable of the HTTP port,
  with no other entry of the environment or the file for that key, is the port the loaded
  configuration has, and the one in the address the server listens on.
\<close>

theorem settings_round_trip:
  assumes "Load src = Inr cfg" "environment src = Inr env" "(variable_of ''http.port'', Itoa p) \<in> set env" "in_int64 p"
    and "\<forall>(name, v)\<in>set env. fst (transform (name, v)) = ''http.port'' \<longrightarrow> v = Itoa p"
    and "\<forall>file env k. koanf src file env k =
      (case map_of (rev env) k of Some v \<Rightarrow> Some v | None \<Rightarrow> map_of (rev file) k)"
    and "lower_name prefix_part" "CHR ''_'' \<notin> set prefix_part" "lower_name setting"
  shows "transform (variable_of (prefix_part @ ''.'' @ setting), v) = (prefix_part @ ''.'' @ setting, v) \<and>
    HTTP_Port (HTTP cfg) = p \<and> Address (HTTP cfg) = '':'' @ Itoa p"
proof -
  obtain k where k: "load_sources src = Inr k" "read_config src k = Inr cfg" using assms(1) by (rule Load_Inr)
  obtain entries where lookup: "k = koanf src entries (map transform env)"
    using k(1) assms(2) by (auto simp: load_sources_def split: sum.splits if_splits)
  have "transform (variable_of ''http.port'', Itoa p) = (''http.port'', Itoa p)"
    using transform_variable [of "''http''" "''port''"] by (simp add: lower_name_def lower_letters_def)
  with assms(3) have mem: "(''http.port'', Itoa p) \<in> set (map transform env)" unfolding set_map by (metis image_eqI)
  obtain w where w: "map_of (rev (map transform env)) ''http.port'' = Some w"
    using mem by (metis not_Some_eq map_of_eq_None_iff set_rev image_eqI fst_conv)
  have "(''http.port'', w) \<in> transform ` set env" using map_of_SomeD [OF w] by simp
  then obtain e where e: "(''http.port'', w) = transform e" "e \<in> set env" by (rule imageE)
  have "fst (transform e) = ''http.port''" "snd e = w"
    using arg_cong [OF e(1), of fst] arg_cong [OF e(1), of snd] transform_snd [of e] by simp_all
  with bspec [OF assms(5) e(2)] have "w = Itoa p" by (cases e) simp
  then have "k ''http.port'' = Some (Itoa p)" using assms(6) w by (simp add: lookup)
  then have "HTTP_Port (HTTP cfg) = p"
    using read_config_Inr(3) [OF k(2)] Atoi_Itoa [OF assms(4)] by (simp add: read_port_def)
  with transform_variable [OF assms(7-9)] show ?thesis by (simp add: Address_def)
qed

section \<open>A sample environment\<close>

definition latest_wins :: "(string \<times> string) list \<Rightarrow> (string \<times> string) list \<Rightarrow> string \<Rightarrow> string option" where
  "latest_wins entries env k = (case map_of (rev env) k of Some v \<Rightarrow> Some v | None \<Rightarrow> map_of (rev entries) k)"

definition sample_environment :: "(string \<times> string) list" where
  "sample_environment =
     [(variable_of ''http.port'', Itoa 80), (''CONSUMEL_DATABASE_HOST'', '' db ''), (''CONSUMEL_DATABASE_NAME'', ''consumel''),
      (''CONSUMEL_DATABASE_USER'', ''consumel''), (''CONSUMEL_DATABASE_PASSWORD'', ''secret''),
      (''CONSUMEL_REDIS_URL'', ''redis://cache''), (''CONSUMEL_AUTH_BASE_URL'', ''https://api.example''),
      (''CONSUMEL_AUTH_CLIENT_BASE_URL'', ''https://app.example''), (''CONSUMEL_AUTH_TRUSTED_ORIGINS'', ''https://a, ,https://b''),
      (''CONSUMEL_AUTH_OTP_HMAC_SECRET'', ''encoded''), (''CONSUMEL_RESEND_API_KEY'', ''key'')]"

definition sample_sources :: sources where
  "sample_sources =
     \<lparr>koanf = latest_wins, dotenv_file = Inl (Sentinel fs_ErrNotExist), environment = Inr sample_environment,
      url_Parse = (\<lambda>_. Inr \<lparr>Scheme = ''https'', Userinfo = False, Host = ''host'', url_Path = [], RawQuery = [], Fragment = []\<rparr>),
      url_ParseRequestURI =
        (\<lambda>_. Inr \<lparr>Scheme = ''redis'', Userinfo = False, Host = ''cache'', url_Path = [], RawQuery = [], Fragment = []\<rparr>),
      mail_ParseAddress = (\<lambda>_. Inr ()), base64_DecodeString = (\<lambda>_. Inr (replicate 32 CHR ''k''))\<rparr>"

lemma sample_loads: "\<exists>cfg. Load sample_sources = Inr cfg"
proof -
  have "(case Load sample_sources of Inl err \<Rightarrow> False | Inr cfg \<Rightarrow> True)" by code_simp
  then show ?thesis by (cases "Load sample_sources") simp_all
qed


lemma settings_round_trip_witness:
  "\<exists>cfg. Load sample_sources = Inr cfg \<and> HTTP_Port (HTTP cfg) = 80 \<and> Address (HTTP cfg) = '':'' @ Itoa 80"
proof -
  obtain cfg where cfg: "Load sample_sources = Inr cfg" using sample_loads by blast
  have env: "environment sample_sources = Inr sample_environment" by (simp add: sample_sources_def)
  have mem: "(variable_of ''http.port'', Itoa 80) \<in> set sample_environment" by (simp add: sample_environment_def)
  have "list_all (\<lambda>(name, v). fst (transform (name, v)) = ''http.port'' \<longrightarrow> v = Itoa 80) sample_environment" by code_simp
  then have only: "\<forall>(name, v)\<in>set sample_environment. fst (transform (name, v)) = ''http.port'' \<longrightarrow> v = Itoa 80"
    by (simp add: list_all_iff)
  have wins: "\<forall>entries env k. koanf sample_sources entries env k =
      (case map_of (rev env) k of Some v \<Rightarrow> Some v | None \<Rightarrow> map_of (rev entries) k)"
    by (simp add: sample_sources_def latest_wins_def)
  have "lower_name ''database''" "CHR ''_'' \<notin> set ''database''" "lower_name ''ssl_mode''" "in_int64 80" by code_simp+
  from settings_round_trip [OF cfg env mem this(4) only wins this(1-3)] cfg show ?thesis by blast
qed

end
