(* ===== verification/Email_Templates.thy ===== *)
theory Email_Templates
  imports Config Go_JSON
begin

text \<open>
  The HTML of the authentication emails: the files of \<open>internal/authentication/templates\<close> as
  \<open>html/template\<close> executes them. The fixed text is copied; a value in text is escaped for HTML, and
  the link in \<open>href\<close> is filtered by its protocol, normalized as a URL and then escaped.
\<close>

section \<open>Escaping\<close>

definition html_replacement :: "char \<Rightarrow> string" where
  "html_replacement c =
     (if c = CHR 0x00 then replacement
      else if c = quote_char then ''&#34;''
      else if c = CHR ''&'' then ''&amp;''
      else if c = CHR 0x27 then ''&#39;''
      else if c = CHR ''+'' then ''&#43;''
      else if c = CHR ''<'' then ''&lt;''
      else if c = CHR ''>'' then ''&gt;''
      else [c])"

definition html_escape :: "string \<Rightarrow> string" where
  "html_escape s = concat (map html_replacement s)"

text \<open>
  \<open>strings.EqualFold\<close> with ASCII text on one side: besides the capitals, the long s and the Kelvin
  sign fold to a letter.
\<close>

definition fold_rune :: "nat \<Rightarrow> nat" where
  "fold_rune r = (if 65 \<le> r \<and> r \<le> 90 then r + 32 else if r = 0x17F then 115 else if r = 0x212A then 107 else r)"

definition EqualFold :: "string \<Rightarrow> string \<Rightarrow> bool" where
  "EqualFold s t \<longleftrightarrow> map fold_rune (runes s) = map fold_rune (runes t)"

definition isSafeURL :: "string \<Rightarrow> bool" where
  "isSafeURL s =
     (case Cut s CHR '':'' of
        (protocol, _, found) \<Rightarrow>
          found \<and> CHR ''/'' \<notin> set protocol \<longrightarrow>
          EqualFold protocol ''http'' \<or> EqualFold protocol ''https'' \<or> EqualFold protocol ''mailto'')"

definition url_filter :: "string \<Rightarrow> string" where
  "url_filter s = (if isSafeURL s then s else ''#ZgotmplZ'')"

definition url_kept :: "char \<Rightarrow> bool" where
  "url_kept c \<longleftrightarrow> c \<in> set (upper_letters @ lower_letters @ ''0123456789!#$&*+,/:;=?@[]-._~'')"

definition is_hex :: "char \<Rightarrow> bool" where
  "is_hex c \<longleftrightarrow> c \<in> set ''0123456789abcdefABCDEF''"

fun url_normalize :: "string \<Rightarrow> string" where
  "url_normalize [] = []"
| "url_normalize (c # cs) =
     (if url_kept c \<or> c = CHR ''%'' \<and> (case cs of a # b # _ \<Rightarrow> is_hex a \<and> is_hex b | _ \<Rightarrow> False)
      then [c] else CHR ''%'' # hex_byte (of_char c)) @ url_normalize cs"

definition href :: "string \<Rightarrow> string" where
  "href url = html_escape (url_normalize (url_filter url))"

section \<open>The templates\<close>

definition text_lines :: "string list \<Rightarrow> string" where
  "text_lines ls = join newline ls"

definition apostrophe :: string where "apostrophe = [CHR 0xE2, CHR 0x80, CHR 0x99]"
definition copyright :: string where "copyright = [CHR 0xC2, CHR 0xA9]"

definition layout_head :: string where
  \<open>layout_head = text_lines
    [''<!doctype html>'',
     ''<html lang="en">'',
     ''  <head>'',
     ''    <meta charset="utf-8" />'',
     ''    <meta name="viewport" content="width=device-width, initial-scale=1" />'',
     ''    <meta name="x-apple-disable-message-reformatting" />'',
     ''    <title>'']\<close>

definition layout_preview :: string where
  \<open>layout_preview = text_lines
    [''</title>'',
     ''    <style>'',
     ''      @media only screen and (max-width: 620px) {'',
     ''        .email-outer { padding: 20px 12px !important; }'',
     ''        .email-brand { padding: 15px 20px !important; }'',
     ''        .email-content { padding: 24px 20px 28px !important; }'',
     ''        .email-footer { padding: 18px 20px !important; }'',
     ''      }'',
     ''    </style>'',
     ''  </head>'',
     ''  <body style="margin:0;padding:0;background:#ffffff;color:#071018;font-family:-apple-system,BlinkMacSystemFont,'Segoe UI',Roboto,Helvetica,Arial,sans-serif;-webkit-text-size-adjust:100%;-ms-text-size-adjust:100%;">'',
     ''    <div style="display:none;max-height:0;overflow:hidden;opacity:0;color:transparent;">'']\<close>

definition layout_content :: string where
  \<open>layout_content = text_lines
    [''&#847;&zwnj;&nbsp;&#8199;&#65279;&#847;&zwnj;&nbsp;&#8199;&#65279;</div>'',
     ''    <table role="presentation" width="100%" cellspacing="0" cellpadding="0" border="0" bgcolor="#ffffff" style="width:100%;background:#ffffff;border-collapse:collapse;">'',
     ''      <tr>'',
     ''        <td class="email-outer" align="center" style="padding:32px 16px;">'',
     ''          <table role="presentation" width="100%" cellspacing="0" cellpadding="0" border="0" bgcolor="#ffffff" style="width:100%;max-width:600px;background:#ffffff;border:1px solid #e3e9ed;border-radius:12px;border-collapse:separate;border-spacing:0;overflow:hidden;">'',
     ''            <tr>'',
     ''              <td class="email-brand" bgcolor="#087cec" style="padding:17px 28px;background:#087cec;">'',
     ''                <table role="presentation" cellspacing="0" cellpadding="0" border="0" style="border-collapse:collapse;">'',
     ''                  <tr>'',
     ''                    <td width="32" valign="middle" style="width:32px;padding:0 4px 0 0;">'',
     ''                      <img src="https://consumel.com/assets/logo.png" alt="" width="32" height="32" style="display:block;width:32px;height:32px;border:0;outline:none;text-decoration:none;object-fit:contain;" />'',
     ''                    </td>'',
     ''                    <td valign="middle" style="padding:0;font-size:19px;line-height:24px;font-weight:700;letter-spacing:-0.3px;color:#ffffff;">Consumel</td>'',
     ''                  </tr>'',
     ''                </table>'',
     ''              </td>'',
     ''            </tr>'',
     ''            <tr>'',
     ''              <td class="email-content" style="padding:30px 32px 34px;color:#071018;font-size:14px;line-height:22px;">'',
     ''                '']\<close>

definition layout_footer :: string where
  \<open>layout_footer = text_lines
    [[],
     ''              </td>'',
     ''            </tr>'',
     ''            <tr>'',
     ''              <td class="email-footer" style="padding:20px 32px;border-top:1px solid #e3e9ed;color:#71838f;font-size:12px;line-height:18px;text-align:center;">'',
     ''                <p style="margin:0;">This automated inbox does not accept replies.</p>'',
     ''                <p style="margin:7px 0 0;">'' @ copyright @ '' '']\<close>

definition layout_end :: string where
  \<open>layout_end = text_lines
    ['' Consumel</p>'',
     ''              </td>'',
     ''            </tr>'',
     ''          </table>'',
     ''        </td>'',
     ''      </tr>'',
     ''    </table>'',
     ''  </body>'',
     ''</html>'']\<close>

definition verification_head :: string where
  \<open>verification_head = text_lines
    [[],
     ''<h1 style="margin:0 0 10px;font-size:24px;line-height:30px;letter-spacing:-0.45px;color:#071018;font-weight:650;">Verify your email</h1>'',
     ''<p style="margin:0 0 24px;color:#536774;font-size:14px;line-height:22px;">Use the code below to verify your email address.</p>'',
     ''<table role="presentation" width="100%" cellspacing="0" cellpadding="0" border="0" style="width:100%;margin:0 0 22px;border-collapse:collapse;border-top:1px solid #dce3e8;border-bottom:1px solid #dce3e8;">'',
     ''  <tr>'',
     ''    <td align="center" style="padding:23px 16px;color:#071018;font-family:ui-monospace,SFMono-Regular,Menlo,Monaco,Consolas,monospace;font-size:30px;line-height:38px;letter-spacing:7px;font-weight:700;">'']\<close>

definition verification_expiry :: string where
  \<open>verification_expiry = text_lines
    [''</td>'',
     ''  </tr>'',
     ''</table>'',
     ''<p style="margin:0;color:#6b7882;font-size:13px;line-height:20px;">This code expires in '']\<close>

definition verification_end :: string where
  \<open>verification_end = text_lines
    [''. If you didn'' @ apostrophe @ ''t request it, you can safely ignore this email.</p>'',
     []]\<close>

definition reset_head :: string where
  \<open>reset_head = text_lines
    [[],
     ''<h1 style="margin:0 0 10px;font-size:24px;line-height:30px;letter-spacing:-0.45px;color:#071018;font-weight:650;">Reset your password</h1>'',
     ''<p style="margin:0 0 24px;color:#536774;font-size:14px;line-height:22px;">Use the secure link below to choose a new password for your Consumel account.</p>'',
     ''<table role="presentation" cellspacing="0" cellpadding="0" border="0" style="margin:0 0 22px;border-collapse:collapse;">'',
     ''  <tr>'',
     ''    <td bgcolor="#087cec" style="border-radius:8px;background:#087cec;">'',
     ''      <a href="'']\<close>

definition reset_expiry :: string where
  \<open>reset_expiry = text_lines
    [''" style="display:inline-block;padding:12px 18px;color:#ffffff;font-size:14px;line-height:20px;font-weight:650;text-decoration:none;">Reset password</a>'',
     ''    </td>'',
     ''  </tr>'',
     ''</table>'',
     ''<p style="margin:0;color:#6b7882;font-size:13px;line-height:20px;">This link expires in '']\<close>

definition reset_end :: string where
  \<open>reset_end = text_lines
    ['' and can be used once. If you didn'' @ apostrophe @ ''t request a password reset, you can safely ignore this email.</p>'',
     []]\<close>


definition email_layout :: "template_data \<Rightarrow> string \<Rightarrow> string" where
  "email_layout data content =
     layout_head @ html_escape (Title data) @ layout_preview @ html_escape (Preview data) @ layout_content @ content @
     layout_footer @ html_escape (Itoa (Year data)) @ layout_end"

definition verification_content :: "template_data \<Rightarrow> string" where
  "verification_content data =
     verification_head @ html_escape (Secret data) @ verification_expiry @ html_escape (ExpiresIn data) @ verification_end"

definition reset_content :: "template_data \<Rightarrow> string" where
  "reset_content data = reset_head @ href (Secret data) @ reset_expiry @ html_escape (ExpiresIn data) @ reset_end"

text \<open>Writing to a buffer does not fail.\<close>

definition verification_html :: "template_data \<Rightarrow> string result" where
  "verification_html data = Inr (email_layout data (verification_content data))"

definition reset_html :: "template_data \<Rightarrow> string result" where
  "reset_html data = Inr (email_layout data (reset_content data))"

text \<open>\<open>now.UTC().Year()\<close>.\<close>

definition utc_year :: "instant \<Rightarrow> int" where
  "utc_year t = fst (civil (t div second div 86400))"

section \<open>Reading the HTML\<close>

text \<open>The characters a mail reader shows for text with the references the escaper writes.\<close>

definition character_references :: "(string \<times> char) list" where
  "character_references =
     [(''amp;'', CHR ''&''), (''lt;'', CHR ''<''), (''gt;'', CHR ''>''), (''#34;'', quote_char), (''#39;'', CHR 0x27),
      (''#43;'', CHR ''+'')]"

function unescape :: "string \<Rightarrow> string" where
  "unescape [] = []"
| "unescape (c # cs) =
     (if c = CHR ''&''
      then (case find (\<lambda>(name, d). starts_with name cs) character_references of
              None \<Rightarrow> c # unescape cs
            | Some (name, d) \<Rightarrow> d # unescape (drop (length name) cs))
      else c # unescape cs)"
  by pat_completeness auto
termination
  by (relation "measure length") auto

text \<open>Text that opens no tag and ends no attribute.\<close>

definition inert :: "string \<Rightarrow> bool" where
  "inert s \<longleftrightarrow> set s \<inter> {CHR ''<'', CHR ''>'', quote_char, CHR 0x27} = {}"

lemma unescape_literal: "c \<noteq> CHR ''&'' \<Longrightarrow> unescape ([c] @ rest) = c # unescape rest"
  by simp

lemma unescape_reference:
  "unescape (''&#34;'' @ rest) = quote_char # unescape rest" "unescape (''&amp;'' @ rest) = CHR ''&'' # unescape rest"
  "unescape (''&#39;'' @ rest) = CHR 0x27 # unescape rest" "unescape (''&#43;'' @ rest) = CHR ''+'' # unescape rest"
  "unescape (''&lt;'' @ rest) = CHR ''<'' # unescape rest" "unescape (''&gt;'' @ rest) = CHR ''>'' # unescape rest"
  by (simp_all add: character_references_def starts_with_def)

lemma unescape_replacement: "c \<noteq> CHR 0x00 \<Longrightarrow> unescape (html_replacement c @ rest) = c # unescape rest"
  using unescape_reference [of rest] unescape_literal [of c rest]
  by (auto simp: html_replacement_def simp del: unescape.simps append_Cons)

lemma unescape_html: "CHR 0x00 \<notin> set s \<Longrightarrow> unescape (html_escape s) = s"
  by (induction s) (auto simp: html_escape_def unescape_replacement simp del: unescape.simps(2))

lemma inert_escape: "inert (html_escape s)"
proof -
  have "inert (html_replacement c)" for c
    by (auto simp: inert_def html_replacement_def replacement_def quote_char_def)
  then show ?thesis by (auto simp: inert_def html_escape_def)
qed

section \<open>Links\<close>

lemma fold_rune_lower:
  assumes "(of_char (translate upper_letters lower_letters c) :: nat) < 0x80"
  shows "(of_char c :: nat) < 0x80" "fold_rune (of_char c) = of_char (translate upper_letters lower_letters c)"
proof -
  have "(of_char c :: nat) < 0x80 \<and> fold_rune (of_char c) = of_char (translate upper_letters lower_letters c)"
  proof (cases "c \<in> set upper_letters")
    case True
    then show ?thesis
      by (auto simp: upper_letters_def lower_letters_def translate_def fold_rune_def)
  next
    case False
    then have same: "translate upper_letters lower_letters c = c"
      by (auto simp: translate_def upper_letters_def lower_letters_def split: option.split)
    have capitals: "\<forall>n\<in>set [65..<91]. char_of (n :: nat) \<in> set upper_letters" by code_simp
    have "char_of (of_char c :: nat) \<in> set upper_letters" if "65 \<le> (of_char c :: nat)" "(of_char c :: nat) \<le> 90"
    proof -
      have "(of_char c :: nat) \<in> set [65..<91]" using that unfolding set_upt atLeastLessThan_iff by linarith
      with capitals show ?thesis by (rule bspec)
    qed
    then have "\<not> (65 \<le> (of_char c :: nat) \<and> (of_char c :: nat) \<le> 90)"
      using False by auto
    with same assms show ?thesis by (simp add: fold_rune_def)
  qed
  then show "(of_char c :: nat) < 0x80" "fold_rune (of_char c) = of_char (translate upper_letters lower_letters c)" by auto
qed

lemma EqualFold_lower:
  assumes "ToLower s = t" "\<forall>c\<in>set t. (of_char c :: nat) < 0x80 \<and> fold_rune (of_char c) = of_char c"
  shows "EqualFold s t"
proof -
  have chars: "(of_char c :: nat) < 0x80 \<and> fold_rune (of_char c) = of_char (translate upper_letters lower_letters c)"
    if "c \<in> set s" for c
    using that assms fold_rune_lower [of c] by (auto simp: ToLower_def)
  then have "runes s = map of_char s" by (auto simp: runes_def runes_of_ascii)
  moreover have "runes t = map of_char t" using assms(2) by (auto simp: runes_def runes_of_ascii)
  moreover have "map fold_rune (map of_char t) = map of_char t" using assms(2) by (simp add: map_idI)
  ultimately show ?thesis using chars assms(1) by (auto simp: EqualFold_def ToLower_def)
qed

lemma web_url_is_safe:
  assumes "u = protocol @ CHR '':'' # rest" "ToLower protocol = ''http'' \<or> ToLower protocol = ''https''"
  shows "url_filter u = u"
proof -
  have colon: "translate upper_letters lower_letters CHR '':'' = CHR '':''" by code_simp
  have "CHR '':'' \<notin> set protocol"
  proof
    assume "CHR '':'' \<in> set protocol"
    with colon have "CHR '':'' \<in> set (ToLower protocol)" by (force simp: ToLower_def)
    with assms(2) show False by auto
  qed
  moreover have "EqualFold protocol ''http'' \<or> EqualFold protocol ''https''"
    using assms(2) by (elim disjE) (auto intro!: EqualFold_lower simp: fold_rune_def)
  ultimately show ?thesis by (auto simp: url_filter_def isSafeURL_def assms(1) Cut_first)
qed

lemma url_normalize_kept: "list_all url_kept u \<Longrightarrow> url_normalize u = u"
  by (induction u) simp_all

lemma url_normalize_no_nul: "CHR 0x00 \<notin> set (url_normalize u)"
proof -
  have kept: "\<not> url_kept CHR 0x00" by code_simp
  have "\<forall>n\<in>set [0..<16]. hex_digit n \<noteq> CHR 0x00" by code_simp
  then have digit: "hex_digit n \<noteq> CHR 0x00" if "n < 16" for n using that by auto
  have "unat b < 256" for b :: "8 word" using unsigned_less [of b, where 'a = nat] by simp
  then have "hex_digit (unat b div 16) \<noteq> CHR 0x00" "hex_digit (unat b mod 16) \<noteq> CHR 0x00" for b :: "8 word"
    by (simp_all add: digit less_mult_imp_div_less)
  then have "CHR 0x00 \<notin> set (hex_byte b)" for b by (auto simp: hex_byte_def eq_commute [of "CHR 0x00"])
  with kept show ?thesis by (induction u) auto
qed

lemma unescape_href: "url_filter u = u \<Longrightarrow> unescape (href u) = url_normalize u"
  by (simp add: href_def unescape_html url_normalize_no_nul)

lemma TrimSpace_subset: "set (TrimSpace s) \<subseteq> set s"
proof -
  obtain p where p: "s = p @ trim_left s" using strip_left_suffix by (metis trim_left_def)
  obtain r where "trim_left s = trim_right (trim_left s) @ r" using trim_right_prefix by blast
  then have "set (trim_right (trim_left s)) \<subseteq> set (trim_left s)" by (metis set_append Un_upper1)
  also have "\<dots> \<subseteq> set s" using p by (metis set_append Un_upper2)
  finally show ?thesis by (simp add: TrimSpace_def)
qed

section \<open>What the emails show\<close>

text \<open>Everything around the code or the link, which depends on the time only.\<close>

definition verification_before :: string where
  "verification_before = layout_head @ html_escape ''Verify your Consumel account'' @ layout_preview @
     html_escape ''Use this code to verify your Consumel account.'' @ layout_content @ verification_head"

definition verification_after :: "int \<Rightarrow> int \<Rightarrow> string" where
  "verification_after n year = verification_expiry @ html_escape (unit_text ''minute'' n) @ verification_end @
     layout_footer @ html_escape (Itoa year) @ layout_end"

definition reset_before :: string where
  "reset_before = layout_head @ html_escape ''Reset your Consumel password'' @ layout_preview @
     html_escape ''Choose a new password for your Consumel account.'' @ layout_content @ reset_head"

definition reset_after :: "int \<Rightarrow> int \<Rightarrow> string" where
  "reset_after n year = reset_expiry @ html_escape (unit_text ''hour'' n) @ reset_end @
     layout_footer @ html_escape (Itoa year) @ layout_end"

lemma text_lines_last: "xs \<noteq> [] \<Longrightarrow> last xs = l @ e \<Longrightarrow> \<exists>b. text_lines xs = b @ e"
proof (induction xs)
  case (Cons x xs)
  show ?case
  proof (cases xs)
    case (Cons y ys)
    with Cons.IH Cons.prems obtain b where "text_lines xs = b @ e" by auto
    then show ?thesis by (simp add: Cons text_lines_def)
  qed (use Cons.prems in \<open>simp add: text_lines_def\<close>)
qed simp

lemma link_is_quoted:
  \<open>\<exists>b. reset_before = b @ ''<a href="''\<close> "\<exists>a. reset_after n year = quote_char # a"
proof -
  have \<open>\<exists>b. reset_head = b @ ''<a href="''\<close>
    unfolding reset_head_def by (rule text_lines_last [where l = "''      ''"]) simp_all
  then obtain b where \<open>reset_head = b @ ''<a href="''\<close> ..
  then show \<open>\<exists>b. reset_before = b @ ''<a href="''\<close>
    unfolding reset_before_def by (intro exI [of _ "layout_head @ html_escape ''Reset your Consumel password'' @ layout_preview @
      html_escape ''Choose a new password for your Consumel account.'' @ layout_content @ b"]) simp
  show "\<exists>a. reset_after n year = quote_char # a"
    by (simp add: reset_after_def reset_expiry_def text_lines_def quote_char_def)
qed

lemma verification_email:
  assumes "RenderVerificationEmail rnd verification_html utc_year code expiresAt now = Inr m"
  shows "HTML m = verification_before @ html_escape (TrimSpace code) @
      verification_after \<lceil>in_units rnd minute (time_sub expiresAt now)\<rceil> (utc_year now)"
    "\<exists>before after. email_Text m = before @ TrimSpace code @ after"
proof -
  let ?rest = "''.'' @ newline @ newline @ ''This code expires in '' @
    unit_text ''minute'' \<lceil>in_units rnd minute (time_sub expiresAt now)\<rceil> @
    ''. If you didn't request it, you can safely ignore this email.''"
  have "HTML m = verification_before @ html_escape (TrimSpace code) @
      verification_after \<lceil>in_units rnd minute (time_sub expiresAt now)\<rceil> (utc_year now) \<and>
    email_Text m = ''Your Consumel verification code is '' @ TrimSpace code @ ?rest"
    using assms by (auto simp: RenderVerificationEmail_def verification_html_def email_layout_def verification_content_def
        verification_before_def verification_after_def Let_def split: if_splits)
  then show "HTML m = verification_before @ html_escape (TrimSpace code) @
      verification_after \<lceil>in_units rnd minute (time_sub expiresAt now)\<rceil> (utc_year now)"
    "\<exists>before after. email_Text m = before @ TrimSpace code @ after" by blast+
qed

lemma reset_email:
  assumes "RenderPasswordResetEmail rnd reset_html utc_year parse_url reset_link expiresAt now = Inr m"
  shows "HTML m = reset_before @ href (TrimSpace reset_link) @
      reset_after \<lceil>in_units rnd hour (time_sub expiresAt now)\<rceil> (utc_year now)"
    "\<exists>before after. email_Text m = before @ TrimSpace reset_link @ after"
    "\<exists>p. parse_url (TrimSpace reset_link) = Inr p \<and> (Scheme p = ''http'' \<or> Scheme p = ''https'')"
proof -
  let ?rest = "newline @ newline @ ''This link expires in '' @
    unit_text ''hour'' \<lceil>in_units rnd hour (time_sub expiresAt now)\<rceil> @
    '' and can be used once. If you didn't request it, you can safely ignore this email.''"
  have "HTML m = reset_before @ href (TrimSpace reset_link) @
      reset_after \<lceil>in_units rnd hour (time_sub expiresAt now)\<rceil> (utc_year now) \<and>
    email_Text m = ''Reset your Consumel password using this secure link: '' @ TrimSpace reset_link @ ?rest \<and>
    (\<exists>p. parse_url (TrimSpace reset_link) = Inr p \<and> (Scheme p = ''http'' \<or> Scheme p = ''https''))"
    using assms by (auto simp: RenderPasswordResetEmail_def reset_html_def email_layout_def reset_content_def
        reset_before_def reset_after_def Let_def split: if_splits sum.splits)
  then show "HTML m = reset_before @ href (TrimSpace reset_link) @
      reset_after \<lceil>in_units rnd hour (time_sub expiresAt now)\<rceil> (utc_year now)"
    "\<exists>before after. email_Text m = before @ TrimSpace reset_link @ after"
    "\<exists>p. parse_url (TrimSpace reset_link) = Inr p \<and> (Scheme p = ''http'' \<or> Scheme p = ''https'')" by blast+
qed

text \<open>
  C39. The emails show exactly what they carry. Whatever the code, what stands for it in the HTML
  opens no tag and ends no attribute, a mail reader shows the very code that is in the text part,
  and the rest of the HTML depends on the time only. The same holds for the link of a reset email,
  which is the whole value of the \<open>href\<close>: it leads to the link in the text part with the bytes escaped
  that have no place in a URL, so to that very link when it has none. (A link that was accepted
  starts with its scheme, of which the URL parser returns the lower case.)
\<close>

theorem emails_carry_their_secret:
  assumes "\<forall>u p. parse_url u = Inr p \<and> Scheme p \<noteq> [] \<longrightarrow>
    (\<exists>protocol rest. u = protocol @ CHR '':'' # rest \<and> ToLower protocol = Scheme p)"
  shows "(RenderVerificationEmail rnd verification_html utc_year code expiresAt now = Inr m \<and> CHR 0x00 \<notin> set code \<longrightarrow>
      (\<exists>shown n. HTML m = verification_before @ shown @ verification_after n (utc_year now) \<and>
         inert shown \<and> unescape shown = TrimSpace code \<and> (\<exists>before after. email_Text m = before @ TrimSpace code @ after))) \<and>
    (RenderPasswordResetEmail rnd reset_html utc_year parse_url reset_link expiresAt now = Inr m \<longrightarrow>
      (\<exists>shown n. HTML m = reset_before @ shown @ reset_after n (utc_year now) \<and>
         inert shown \<and> unescape shown = url_normalize (TrimSpace reset_link) \<and>
         (list_all url_kept (TrimSpace reset_link) \<longrightarrow> unescape shown = TrimSpace reset_link) \<and>
         (\<exists>before after. email_Text m = before @ TrimSpace reset_link @ after)))"
proof (intro conjI impI)
  assume run: "RenderVerificationEmail rnd verification_html utc_year code expiresAt now = Inr m \<and> CHR 0x00 \<notin> set code"
  then have "CHR 0x00 \<notin> set (TrimSpace code)" using TrimSpace_subset by blast
  with verification_email run inert_escape unescape_html
  show "\<exists>shown n. HTML m = verification_before @ shown @ verification_after n (utc_year now) \<and>
      inert shown \<and> unescape shown = TrimSpace code \<and> (\<exists>before after. email_Text m = before @ TrimSpace code @ after)"
    by blast
next
  let ?link = "TrimSpace reset_link"
  assume run: "RenderPasswordResetEmail rnd reset_html utc_year parse_url reset_link expiresAt now = Inr m"
  obtain p where "parse_url ?link = Inr p" "Scheme p = ''http'' \<or> Scheme p = ''https''" using reset_email(3) [OF run] by blast
  with assms have "url_filter ?link = ?link" by (metis list.discI web_url_is_safe)
  note shown = unescape_href [OF this] and normal = url_normalize_kept [of ?link]
  have "inert (href ?link)" by (simp add: href_def inert_escape)
  with shown normal reset_email(1,2) [OF run] show "\<exists>shown n. HTML m = reset_before @ shown @ reset_after n (utc_year now) \<and>
      inert shown \<and> unescape shown = url_normalize ?link \<and> (list_all url_kept ?link \<longrightarrow> unescape shown = ?link) \<and>
      (\<exists>before after. email_Text m = before @ ?link @ after)"
    by metis
qed

text \<open>A link with a query, which the HTML has to escape, and a parser that finds the scheme.\<close>

definition sample_parse :: "string \<Rightarrow> parsed_url result" where
  "sample_parse u =
     (case Cut u CHR '':'' of
        (protocol, rest, True) \<Rightarrow>
          Inr \<lparr>Scheme = ToLower protocol, Userinfo = False, Host = rest, url_Path = [], RawQuery = [], Fragment = []\<rparr>
      | _ \<Rightarrow> Inl (Errorf ''first path segment in URL cannot contain colon''))"

definition sample_link :: string where
  "sample_link = ''https://c.co/reset?id=1&t=a+b''"

lemma Cut_found: "Cut s c = (before, after, True) \<Longrightarrow> s = before @ c # after"
  by (induction s arbitrary: before) (auto split: if_splits prod.splits)

lemma sample_parse_scheme: "sample_parse u = Inr p \<Longrightarrow> \<exists>protocol rest. u = protocol @ CHR '':'' # rest \<and> ToLower protocol = Scheme p"
proof -
  assume run: "sample_parse u = Inr p"
  obtain before after found where cut: "Cut u CHR '':'' = (before, after, found)" by (metis prod.exhaust)
  with run have found: "found" "Scheme p = ToLower before" by (auto simp: sample_parse_def split: bool.splits)
  then have "u = before @ CHR '':'' # after" using Cut_found [of u "CHR '':''" before after] cut by simp
  with found(2) show ?thesis by (intro exI conjI) simp_all
qed

theorem emails_carry_their_secret_witness:
  "\<exists>m shown n. RenderPasswordResetEmail id reset_html utc_year sample_parse sample_link hour 0 = Inr m \<and>
     HTML m = reset_before @ shown @ reset_after n 1970 \<and> inert shown \<and> unescape shown = sample_link"
proof -
  have trim: "TrimSpace sample_link = sample_link" "list_all url_kept sample_link" by code_simp+
  have parsed: "\<exists>p. sample_parse sample_link = Inr p \<and> Host p \<noteq> [] \<and> Scheme p = ''https''"
    by (simp add: sample_parse_def sample_link_def ToLower_def translate_def upper_letters_def lower_letters_def)
  have "0 < time_sub hour 0" "utc_year 0 = 1970" by code_simp+
  with parsed trim(1) obtain m where m: "RenderPasswordResetEmail id reset_html utc_year sample_parse sample_link hour 0 = Inr m"
    by (auto simp: RenderPasswordResetEmail_def reset_html_def Let_def)
  moreover have "utc_year 0 = 1970" by code_simp
  moreover have "\<forall>u p. sample_parse u = Inr p \<and> Scheme p \<noteq> [] \<longrightarrow>
      (\<exists>protocol rest. u = protocol @ CHR '':'' # rest \<and> ToLower protocol = Scheme p)"
    using sample_parse_scheme by blast
  from emails_carry_their_secret [OF this, of id "[]" hour 0 m sample_link, THEN conjunct2, THEN mp, OF m] trim
  have "\<exists>shown n. HTML m = reset_before @ shown @ reset_after n (utc_year 0) \<and> inert shown \<and> unescape shown = sample_link"
    by auto
  ultimately show ?thesis by auto
qed

end
