(* ===== verification/Request_Telemetry.thy ===== *)
theory Request_Telemetry
  imports Http
begin

text \<open>
  Request telemetry: \<open>internal/infra/telemetry/http.go\<close> and \<open>logging.go\<close>, and the table of
  operations in \<open>internal/authentication/handlers/telemetry.go\<close>. The middleware gives a request
  its id, lets the handlers name the operation, and records one completion: a log record, the
  metrics and a span.
\<close>

section \<open>Request attributes\<close>

definition initial_attributes :: requestLogAttributes where
  "initial_attributes =
     \<lparr>operation = ''http.request'',
      completions =
        \<lparr>Success = \<lparr>Event = ''http.request.completed'', Message = ''API request completed''\<rparr>,
         Rejected = \<lparr>Event = ''http.request.rejected'', Message = ''API request rejected''\<rparr>,
         Failed = \<lparr>Event = ''http.request.failed'', Message = ''API request failed''\<rparr>\<rparr>,
      attributes = []\<rparr>"

definition contextWithRequestLogAttributes :: "'d handler" where
  "contextWithRequestLogAttributes c = c\<lparr>ctx_log := Some initial_attributes\<rparr>"

definition contextWithRequestID :: "string \<Rightarrow> 'd handler" where
  "contextWithRequestID requestID c = c\<lparr>ctx_id := requestID\<rparr>"

definition SetRequestOperation :: "string \<Rightarrow> CompletionDetails \<Rightarrow> 'd handler" where
  "SetRequestOperation new_operation new_completions c =
     (case ctx_log c of
        None \<Rightarrow> c
      | Some a \<Rightarrow> c\<lparr>ctx_log := Some (a\<lparr>operation := new_operation, completions := new_completions\<rparr>)\<rparr>)"

definition AddRequestLogAttributes :: "attrs \<Rightarrow> 'd handler" where
  "AddRequestLogAttributes more_attributes c =
     (case ctx_log c of
        None \<Rightarrow> c
      | Some a \<Rightarrow> c\<lparr>ctx_log := Some (a\<lparr>attributes := attributes a @ more_attributes\<rparr>)\<rparr>)"

definition snapshot :: "requestLogAttributes \<Rightarrow> string \<times> CompletionDetails \<times> attrs" where
  "snapshot a = (operation a, completions a, attributes a)"

section \<open>Classifying a request\<close>

definition requestIDHeader :: string where
  "requestIDHeader = ''X-Request-ID''"

definition request_id_rune :: "nat \<Rightarrow> bool" where
  "request_id_rune r \<longleftrightarrow>
     of_char CHR ''a'' \<le> r \<and> r \<le> of_char CHR ''z'' \<or>
     of_char CHR ''A'' \<le> r \<and> r \<le> of_char CHR ''Z'' \<or>
     of_char CHR ''0'' \<le> r \<and> r \<le> of_char CHR ''9'' \<or>
     r \<in> of_char ` set ''._:-''"

text \<open>\<open>generated\<close> is the text of a new UUID, \<open>now\<close> and \<open>sequence\<close> the fallback's clock and counter.\<close>

definition resolveRequestID :: "string result \<Rightarrow> int \<Rightarrow> int \<Rightarrow> string \<Rightarrow> string" where
  "resolveRequestID generated now sequence candidate =
     (let candidate = TrimSpace candidate
      in if 0 < length candidate \<and> length candidate \<le> 128 \<and> list_all request_id_rune (runes candidate)
         then candidate
         else (case generated of
                 Inr text \<Rightarrow> text
               | Inl err \<Rightarrow> ''fallback-'' @ Itoa now @ ''-'' @ Itoa sequence))"

definition healthOperation :: "string \<Rightarrow> string" where
  "healthOperation route = (if route = ''/health/ready'' then ''health.readiness'' else ''health.liveness'')"

definition classifyHTTPStatus :: "int \<Rightarrow> string \<times> string" where
  "classifyHTTPStatus code =
     (if code < 400 then (''success'', ''none'')
      else if code = 401 then (''rejected'', ''unauthenticated'')
      else if code = 403 then (''rejected'', ''forbidden'')
      else if code = 404 then (''rejected'', ''not_found'')
      else if code = 409 then (''rejected'', ''conflict'')
      else if code = 429 then (''rejected'', ''rate_limited'')
      else if code < 500 then (''rejected'', ''invalid_request'')
      else (''error'', ''server_error''))"

definition statusClass :: "int \<Rightarrow> string" where
  "statusClass code = Itoa (trunc_div code 100) @ ''xx''"

definition completionForOutcome :: "CompletionDetails \<Rightarrow> string \<Rightarrow> Completion" where
  "completionForOutcome details outcome =
     (if outcome = ''success'' then Success details
      else if outcome = ''rejected'' then Rejected details
      else Failed details)"

section \<open>Metrics and spans\<close>

record span =
  span_name :: string
  span_attrs :: attrs
  span_error :: "string option"

record metered = gin +
  active :: int
  requests :: "attrs list"
  durations :: "(duration \<times> attrs) list"
  errors :: "attrs list"
  spans :: "span list"

lemma metered_header [simp]:
  "active (gin_header k v c) = active c" "requests (gin_header k v c) = requests c"
  "durations (gin_header k v c) = durations c" "errors (gin_header k v c) = errors c" "spans (gin_header k v c) = spans c"
  by (simp_all add: gin_header_def set_header_def)

lemma header_of_metered [simp]:
  "header_of (c\<lparr>active := n\<rparr>) k = header_of c k" "header_of (c\<lparr>requests := rs\<rparr>) k = header_of c k"
  "header_of (c\<lparr>durations := ds\<rparr>) k = header_of c k" "header_of (c\<lparr>errors := es\<rparr>) k = header_of c k"
  "header_of (c\<lparr>spans := ss\<rparr>) k = header_of c k"
  by (simp_all add: header_of_def)

definition healthProbeAttribute :: string where
  "healthProbeAttribute = ''consumel.health_probe''"

text \<open>The sampler drops health probes and leaves every other decision to its delegate.\<close>

fun ShouldSample :: "bool \<Rightarrow> attrs \<Rightarrow> bool" where
  "ShouldSample delegate [] = delegate"
| "ShouldSample delegate ((key, v) # parameters) =
     (if key = healthProbeAttribute \<and> v = ABool True then False else ShouldSample delegate parameters)"

definition end_span :: "bool \<Rightarrow> span \<Rightarrow> 'd metered_scheme \<Rightarrow> 'd metered_scheme" where
  "end_span sampled s c = (if sampled then c\<lparr>spans := spans c @ [s]\<rparr> else c)"

section \<open>The middleware\<close>

text \<open>
  The outside of one request: the generated id and its fallback, the delegate's decision and the
  ids of the spans, and how long the handlers take.
\<close>

record telemetry_env =
  generated_id :: "string result"
  fallback_now :: int
  fallback_sequence :: int
  delegate_samples :: bool
  request_span :: "(string \<times> string) option"
  readiness_sampled :: bool
  readiness_span :: "(string \<times> string) option"
  elapsed :: duration

definition completion_attrs ::
  "string \<Rightarrow> string \<Rightarrow> string \<Rightarrow> int \<Rightarrow> duration \<Rightarrow> string \<Rightarrow> string \<Rightarrow> Completion \<Rightarrow> attrs \<Rightarrow> attrs" where
  "completion_attrs op method route code duration outcome errorCategory done requestAttributes =
     [(''event'', AString (Event done)), (''operation'', AString op), (''method'', AString method),
      (''route'', AString route), (''status'', AInt code),
      (''duration_ms'', AMicroseconds (trunc_div duration microsecond)), (''outcome'', AString outcome)] @
     (if errorCategory \<noteq> ''none'' then [(''error_category'', AString errorCategory)] else []) @ requestAttributes"

definition logRequestCompletion ::
  "string \<Rightarrow> (string \<times> string) option \<Rightarrow> string \<Rightarrow> string \<Rightarrow> string \<Rightarrow> int \<Rightarrow> duration \<Rightarrow> string \<Rightarrow> string \<Rightarrow>
   CompletionDetails \<Rightarrow> attrs \<Rightarrow> log_record" where
  "logRequestCompletion requestID spanContext op method route code duration outcome errorCategory details requestAttributes =
     (let done = completionForOutcome details outcome
      in Handle requestID spanContext
           \<lparr>log_level = (if 500 \<le> code then LevelError else LevelInfo), log_message = Message done,
            log_attrs = completion_attrs op method route code duration outcome errorCategory done requestAttributes\<rparr>)"

text \<open>The record of a readiness failure is logged with a context and a span of its own.\<close>

definition recordReadinessFailure :: "telemetry_env \<Rightarrow> int \<Rightarrow> string \<Rightarrow> 'd metered_scheme \<Rightarrow> 'd metered_scheme" where
  "recordReadinessFailure env code requestID c =
     (let record =
            \<lparr>log_level = LevelError, log_message = ''API is not ready'',
             log_attrs =
               [(''event'', AString ''health.readiness.failed''), (''operation'', AString ''health.readiness.check''),
                (''method'', AString ''GET''), (''route'', AString ''/health/ready''), (''status'', AInt code),
                (''duration_ms'', AMicroseconds (trunc_div (elapsed env) microsecond)), (''outcome'', AString ''error''),
                (''error_category'', AString ''dependency_unavailable'')]\<rparr>;
          c = c\<lparr>logs := logs c @ [Handle requestID (readiness_span env) record]\<rparr>
      in end_span (readiness_sampled env)
           \<lparr>span_name = ''health.readiness.check'',
            span_attrs =
              [(''http.request.method'', AString ''GET''), (''http.route'', AString ''/health/ready''),
               (''http.request_id'', AString requestID), (''http.response.status_code'', AInt code),
               (''consumel.operation'', AString ''health.readiness.check''), (''consumel.outcome'', AString ''error''),
               (''consumel.error_category'', AString ''dependency_unavailable'')],
            span_error = Some ''dependency_unavailable''\<rparr> c)"

definition request_route :: "request \<Rightarrow> string" where
  "request_route r = (if req_route r = [] then ''unmatched'' else req_route r)"

definition metric_labels :: "string \<Rightarrow> string \<Rightarrow> string \<Rightarrow> int \<Rightarrow> attrs" where
  "metric_labels op method route code =
     [(''operation'', AString op), (''method'', AString method), (''route'', AString route),
      (''status_class'', AString (statusClass code)), (''outcome'', AString (fst (classifyHTTPStatus code))),
      (''error_category'', AString (snd (classifyHTTPStatus code)))]"

text \<open>The context the handlers get: the id on the response, and the request in the gauge.\<close>

definition opened :: "telemetry_env \<Rightarrow> 'd metered_scheme \<Rightarrow> 'd metered_scheme" where
  "opened env c =
     (let requestID = resolveRequestID (generated_id env) (fallback_now env) (fallback_sequence env)
            (req_header (req c) requestIDHeader);
          c = contextWithRequestLogAttributes
                (contextWithRequestID requestID ((gin_header requestIDHeader requestID c)\<lparr>ctx_span := request_span env\<rparr>))
      in if starts_with ''/health/'' (request_route (req c)) then c else c\<lparr>active := active c + 1\<rparr>)"

definition HTTPMiddleware ::
  "telemetry_env \<Rightarrow> ('d metered_scheme \<Rightarrow> 'd metered_scheme) \<Rightarrow> 'd metered_scheme \<Rightarrow> 'd metered_scheme" where
  "HTTPMiddleware env next c =
     (let requestID = resolveRequestID (generated_id env) (fallback_now env) (fallback_sequence env)
            (req_header (req c) requestIDHeader);
          method = req_method (req c);
          route = request_route (req c);
          healthRequest = starts_with ''/health/'' route;
          op = (if healthRequest then healthOperation route else ''http.request'');
          traceAttributes =
            [(''http.request.method'', AString method), (''http.route'', AString route),
             (''http.request_id'', AString requestID), (''consumel.operation'', AString op),
             (healthProbeAttribute, ABool healthRequest)];
          sampled = ShouldSample (delegate_samples env) traceAttributes;
          c = next (opened env c);
          code = status c;
          (outcome, errorCategory) = classifyHTTPStatus code;
          (op, details, domainAttributes) =
            (if healthRequest then (op, completions initial_attributes, [])
             else snapshot (case ctx_log c of None \<Rightarrow> initial_attributes | Some a \<Rightarrow> a));
          c = end_span sampled
                \<lparr>span_name = op,
                 span_attrs = traceAttributes @
                   [(''http.response.status_code'', AInt code), (''consumel.operation'', AString op),
                    (''consumel.outcome'', AString outcome), (''consumel.error_category'', AString errorCategory)],
                 span_error = (if 500 \<le> code then Some errorCategory else None)\<rparr> c
      in if healthRequest
         then (if route = ''/health/ready'' \<and> 500 \<le> code then recordReadinessFailure env code requestID c else c)
         else
           (let labels = metric_labels op method route code;
                c = c\<lparr>active := active c - 1, requests := requests c @ [labels],
                      durations := durations c @ [(elapsed env, labels)],
                      errors := (if 500 \<le> code then errors c @ [labels] else errors c)\<rparr>
            in c\<lparr>logs := logs c @ [logRequestCompletion requestID (request_span env) op method route code (elapsed env)
                    outcome errorCategory details domainAttributes]\<rparr>))"

section \<open>Operations of the authentication routes\<close>

record requestTelemetry =
  details_operation :: string
  details_completions :: CompletionDetails

definition completion :: "string \<Rightarrow> string \<Rightarrow> Completion" where
  "completion event message = \<lparr>Event = event, Message = message\<rparr>"

definition requestDetails :: "string \<Rightarrow> Completion \<Rightarrow> Completion \<Rightarrow> Completion \<Rightarrow> requestTelemetry" where
  "requestDetails op success rejected failed =
     \<lparr>details_operation = op, details_completions = \<lparr>Success = success, Rejected = rejected, Failed = failed\<rparr>\<rparr>"

definition authenticationRequestTelemetry :: "(string \<times> requestTelemetry) list" where
  "authenticationRequestTelemetry =
     [
      (''GET /account'', requestDetails ''user.account.load''
         (completion ''user.account.loaded'' ''User account loaded'')
         (completion ''user.sign_in.required'' ''User needs to sign in'')
         (completion ''user.account.load.failed'' ''Could not load user account'')),
      (''POST /auth/sign-up'', requestDetails ''user.sign_up''
         (completion ''user.signed_up'' ''User signed up'')
         (completion ''user.sign_up.rejected'' ''Sign-up request rejected'')
         (completion ''user.sign_up.failed'' ''Could not sign up user'')),
      (''POST /auth/sign-in'', requestDetails ''user.sign_in''
         (completion ''user.signed_in'' ''User signed in'')
         (completion ''user.sign_in.rejected'' ''Sign-in attempt rejected'')
         (completion ''user.sign_in.failed'' ''Could not sign in user'')),
      (''POST /auth/sign-out'', requestDetails ''user.sign_out''
         (completion ''user.signed_out'' ''User signed out'')
         (completion ''user.sign_out.rejected'' ''Sign-out request rejected'')
         (completion ''user.sign_out.failed'' ''Could not sign out user'')),
      (''GET /auth/session'', requestDetails ''user.session.load''
         (completion ''user.session.loaded'' ''User session loaded'')
         (completion ''user.session.missing'' ''No active user session'')
         (completion ''user.session.load.failed'' ''Could not load user session'')),
      (''GET /auth/list-sessions'', requestDetails ''user.sessions.list''
         (completion ''user.sessions.loaded'' ''User sessions loaded'')
         (completion ''user.sign_in.required'' ''User needs to sign in'')
         (completion ''user.sessions.list.failed'' ''Could not load user sessions'')),
      (''POST /auth/revoke-session'', requestDetails ''user.session.revoke''
         (completion ''user.session.revoked'' ''User session revoked'')
         (completion ''user.session.revoke.rejected'' ''Session revoke request rejected'')
         (completion ''user.session.revoke.failed'' ''Could not revoke user session'')),
      (''POST /auth/revoke-other-sessions'', requestDetails ''user.sessions.revoke_others''
         (completion ''user.sessions.others_revoked'' ''Other user sessions revoked'')
         (completion ''user.sessions.revoke_others.rejected'' ''Session revoke request rejected'')
         (completion ''user.sessions.revoke_others.failed'' ''Could not revoke other user sessions'')),
      (''POST /auth/revoke-sessions'', requestDetails ''user.sessions.revoke_all''
         (completion ''user.sessions.revoked'' ''User sessions revoked'')
         (completion ''user.sessions.revoke_all.rejected'' ''Session revoke request rejected'')
         (completion ''user.sessions.revoke_all.failed'' ''Could not revoke user sessions'')),
      (''POST /auth/change-password'', requestDetails ''user.password.change''
         (completion ''user.password.changed'' ''User password changed'')
         (completion ''user.password.change.rejected'' ''Password change rejected'')
         (completion ''user.password.change.failed'' ''Could not change user password'')),
      (''POST /auth/set-password'', requestDetails ''user.password.set''
         (completion ''user.password.set'' ''User password set'')
         (completion ''user.password.set.rejected'' ''Password setup rejected'')
         (completion ''user.password.set.failed'' ''Could not set user password'')),
      (''POST /auth/remove-password'', requestDetails ''user.password.remove''
         (completion ''user.password.removed'' ''User password removed'')
         (completion ''user.password.remove.rejected'' ''Password removal rejected'')
         (completion ''user.password.remove.failed'' ''Could not remove user password'')),
      (''POST /auth/resend-verification'', requestDetails ''user.email_verification.send''
         (completion ''user.email_verification.sent'' ''Verification email request accepted'')
         (completion ''user.email_verification.send.rejected'' ''Verification email request rejected'')
         (completion ''user.email_verification.send.failed'' ''Could not handle verification email request'')),
      (''POST /auth/verify-email'', requestDetails ''user.email.verify''
         (completion ''user.email.verified'' ''User email verified'')
         (completion ''user.email.verify.rejected'' ''Email verification rejected'')
         (completion ''user.email.verify.failed'' ''Could not verify user email'')),
      (''POST /auth/forgot-password'', requestDetails ''user.password_reset.request''
         (completion ''user.password_reset.requested'' ''Password reset request accepted'')
         (completion ''user.password_reset.request.rejected'' ''Password reset request rejected'')
         (completion ''user.password_reset.request.failed'' ''Could not handle password reset request'')),
      (''POST /auth/reset-password'', requestDetails ''user.password_reset.complete''
         (completion ''user.password_reset.completed'' ''User password reset'')
         (completion ''user.password_reset.rejected'' ''Password reset rejected'')
         (completion ''user.password_reset.failed'' ''Could not reset user password'')),
      (''POST /auth/google'', requestDetails ''user.google_sign_in.start''
         (completion ''user.google_sign_in.started'' ''Google sign-in started'')
         (completion ''user.google_sign_in.start.rejected'' ''Google sign-in request rejected'')
         (completion ''user.google_sign_in.start.failed'' ''Could not start Google sign-in'')),
      (''GET /auth/google/callback'', requestDetails ''user.google_sign_in.complete''
         (completion ''user.google_sign_in.completed'' ''User signed in with Google'')
         (completion ''user.google_sign_in.rejected'' ''Google sign-in rejected'')
         (completion ''user.google_sign_in.failed'' ''Could not sign in user with Google'')),
      (''POST /account/google'', requestDetails ''user.google_account.link''
         (completion ''user.google_account.link_started'' ''Google account linking started'')
         (completion ''user.google_account.link.rejected'' ''Google account linking rejected'')
         (completion ''user.google_account.link.failed'' ''Could not start Google account linking'')),
      (''DELETE /account/google'', requestDetails ''user.google_account.unlink''
         (completion ''user.google_account.unlinked'' ''Google account unlinked'')
         (completion ''user.google_account.unlink.rejected'' ''Google account unlink rejected'')
         (completion ''user.google_account.unlink.failed'' ''Could not unlink Google account''))
     ]"

definition unknownAuthenticationRequest :: requestTelemetry where
  "unknownAuthenticationRequest =
     requestDetails ''user.account.request''
       (completion ''user.account.request.completed'' ''Account request completed'')
       (completion ''user.account.request.rejected'' ''Account request rejected'')
       (completion ''user.account.request.failed'' ''Account request failed'')"

definition request_details :: "request \<Rightarrow> requestTelemetry" where
  "request_details r =
     (case map_of authenticationRequestTelemetry (req_method r @ '' '' @ req_path r) of
        None \<Rightarrow> unknownAuthenticationRequest
      | Some details \<Rightarrow> details)"

definition RequestTelemetry :: "'d middleware" where
  "RequestTelemetry next c =
     (let details = request_details (req c)
      in next (SetRequestOperation (details_operation details) (details_completions details) c))"

section \<open>Request ids\<close>

text \<open>The characters of a safe request id, as bytes.\<close>

definition safe_id :: "string \<Rightarrow> bool" where
  "safe_id s \<longleftrightarrow> s \<noteq> [] \<and> length s \<le> 128 \<and> list_all (\<lambda>c. request_id_rune (of_char c)) s"

lemma request_id_rune_ascii: "request_id_rune r \<Longrightarrow> r < 0x80"
  by (auto simp: request_id_rune_def)

lemma request_id_rune_digit: "d < 10 \<Longrightarrow> request_id_rune (of_char (digit_char d))"
  by (simp add: request_id_rune_def digit_char_def)

lemma runes_safe: "list_all request_id_rune (runes s) \<longleftrightarrow> list_all (\<lambda>c. request_id_rune (of_char c)) s"
proof
  assume all: "list_all request_id_rune (runes s)"
  then have "runes s = map of_char s"
    by (intro runes_ascii_only) (auto simp: list_all_iff request_id_rune_ascii)
  with all show "list_all (\<lambda>c. request_id_rune (of_char c)) s" by (simp add: list_all_iff)
next
  assume all: "list_all (\<lambda>c. request_id_rune (of_char c)) s"
  then have "runes s = map of_char s"
    unfolding runes_def by (intro runes_of_ascii) (auto simp: list_all_iff request_id_rune_ascii)
  with all show "list_all request_id_rune (runes s)" by (simp add: list_all_iff)
qed

lemma safe_id_trimmed: "safe_id s \<Longrightarrow> trimmed s"
proof -
  assume "safe_id s"
  then have safe: "request_id_rune (of_char c)" if "c \<in> set s" for c
    using that by (simp add: safe_id_def list_all_iff)
  have space: "\<forall>e\<in>set space_encodings. \<exists>c\<in>set e. \<not> request_id_rune (of_char c)" by code_simp
  have sub: "set e \<subseteq> set t" if "starts_with e t" for e t
    using that set_take_subset [of "length e" t] by (simp add: starts_with_def)
  show ?thesis
    unfolding trimmed_def using space safe sub [of _ s] sub [of _ "rev s"] by (metis set_rev subsetD)
qed

lemma decimal_safe: "list_all (\<lambda>c. request_id_rune (of_char c)) (decimal n)"
  using decimal_digits [of n] request_id_rune_digit by (fastforce simp: list_all_iff)

lemma fallback_safe:
  assumes "0 \<le> now" "now < 2 ^ 63" "0 \<le> sequence" "sequence < 2 ^ 64"
  shows "safe_id (''fallback-'' @ Itoa now @ ''-'' @ Itoa sequence)"
proof -
  have "length (decimal (nat now)) \<le> 20" "length (decimal (nat sequence)) \<le> 20"
    using assms by (intro decimal_length; simp add: nat_less_iff)+
  moreover have "list_all (\<lambda>c. request_id_rune (of_char c)) ''fallback-''" "list_all (\<lambda>c. request_id_rune (of_char c)) ''-''"
    by (simp_all add: request_id_rune_def)
  ultimately show ?thesis
    using assms decimal_safe by (simp add: safe_id_def Itoa_nonneg)
qed

text \<open>
  C30. A request id is safe to echo and to log, whatever the client sent: one to 128 letters,
  digits, dots, underscores, colons and hyphens. A client's own id that is safe is kept, so that
  an id the server returned is accepted again unchanged; anything else, bytes that are no UTF-8
  included, is replaced by a generated id, or by a clock and a counter when none can be generated.
\<close>

theorem request_ids_are_safe:
  assumes "case generated of Inr text \<Rightarrow> safe_id text | Inl err \<Rightarrow> True"
    and "0 \<le> now" "now < 2 ^ 63" "0 \<le> sequence" "sequence < 2 ^ 64"
  shows "safe_id (resolveRequestID generated now sequence candidate) \<and>
    (safe_id (TrimSpace candidate) \<longrightarrow> resolveRequestID generated now sequence candidate = TrimSpace candidate) \<and>
    resolveRequestID generated' now' sequence' (resolveRequestID generated now sequence candidate) =
      resolveRequestID generated now sequence candidate"
proof -
  have kept: "resolveRequestID g n q c = TrimSpace c" if "safe_id (TrimSpace c)" for g n q c
    using that by (simp add: resolveRequestID_def Let_def safe_id_def runes_safe)
  have safe: "safe_id (resolveRequestID generated now sequence candidate)"
  proof (cases "safe_id (TrimSpace candidate)")
    case True
    with kept show ?thesis by simp
  next
    case False
    then have "resolveRequestID generated now sequence candidate =
        (case generated of Inr text \<Rightarrow> text | Inl err \<Rightarrow> ''fallback-'' @ Itoa now @ ''-'' @ Itoa sequence)"
      by (auto simp only: resolveRequestID_def Let_def safe_id_def runes_safe length_greater_0_conv split: if_splits)
    with assms fallback_safe [OF assms(2-5)] show ?thesis by (cases generated) simp_all
  qed
  moreover have "TrimSpace s = s" if "safe_id s" for s
    using safe_id_trimmed [OF that] by (rule TrimSpace_id)
  ultimately show ?thesis using kept by metis
qed

lemma request_ids_are_safe_witness:
  "safe_id (resolveRequestID (Inr ''0197-ab'') 0 1 '' a b'') \<and>
   resolveRequestID (Inr ''0197-ab'') 0 1 '' a b'' = ''0197-ab''"
proof
  have "safe_id ''0197-ab''" by code_simp
  then show "safe_id (resolveRequestID (Inr ''0197-ab'') 0 1 '' a b'')"
    using request_ids_are_safe [of "Inr ''0197-ab''" 0 1 "'' a b''"] by simp
  show "resolveRequestID (Inr ''0197-ab'') 0 1 '' a b'' = ''0197-ab''" by code_simp
qed

section \<open>Completions\<close>

text \<open>
  What the middleware relies on in the handlers behind it: they leave the metrics and the spans to
  it, do not touch the middlewares' headers, do not lose the request's attributes, and only add log records,
  none of which is a completion. A completion is a record that says how long the request took.
\<close>

definition is_completion :: "log_record \<Rightarrow> bool" where
  "is_completion l \<longleftrightarrow> ''duration_ms'' \<in> fst ` set (log_attrs l)"

lemma is_completion_Handle [simp]: "is_completion (Handle i sp l) \<longleftrightarrow> is_completion l"
  by (auto simp: is_completion_def Handle_def Let_def split: option.split)

lemma is_completion_logRequestCompletion [simp]:
  "is_completion (logRequestCompletion i sp op m r code d outcome category details extra)"
  by (simp add: logRequestCompletion_def Let_def) (simp add: is_completion_def completion_attrs_def)

definition only_adds_records :: "log_record list \<Rightarrow> log_record list \<Rightarrow> bool" where
  "only_adds_records ls ls' \<longleftrightarrow> (\<exists>added. ls' = ls @ added \<and> filter is_completion added = [])"

lemma only_adds_records_refl [simp]: "only_adds_records ls ls"
  by (simp add: only_adds_records_def)

lemma only_adds_records_trans: "only_adds_records a b \<Longrightarrow> only_adds_records b c \<Longrightarrow> only_adds_records a c"
  unfolding only_adds_records_def by (metis append.assoc append_Nil filter_append)

lemma only_adds_records_snoc [simp]: "only_adds_records ls (ls @ [l]) \<longleftrightarrow> \<not> is_completion l"
  by (simp add: only_adds_records_def)

lemma only_adds_records_drop:
  "only_adds_records ls ls' \<Longrightarrow> filter is_completion (drop (length ls) (ls' @ [l])) = filter is_completion [l]"
  by (auto simp: only_adds_records_def)

text \<open>The headers that belong to the middlewares: a handler must not set them.\<close>

definition reserved_headers :: "string list" where
  "reserved_headers = [requestIDHeader, ''Access-Control-Allow-Origin'', ''Access-Control-Allow-Credentials'']"

definition keeps_headers :: "'d gin_scheme \<Rightarrow> 'e gin_scheme \<Rightarrow> bool" where
  "keeps_headers c c' \<longleftrightarrow> (\<forall>k\<in>set reserved_headers. header_of c' k = header_of c k)"

lemma keeps_headers_id: "keeps_headers c c' \<Longrightarrow> header_of c' requestIDHeader = header_of c requestIDHeader"
  by (simp add: keeps_headers_def reserved_headers_def)

lemma keeps_headers_same: "headers c' = headers c \<Longrightarrow> keeps_headers c c'"
  by (simp add: keeps_headers_def header_of_def)

definition keeps_telemetry :: "'d metered_scheme \<Rightarrow> 'd metered_scheme \<Rightarrow> bool" where
  "keeps_telemetry c c' \<longleftrightarrow>
     active c' = active c \<and> requests c' = requests c \<and> durations c' = durations c \<and> errors c' = errors c \<and>
     spans c' = spans c \<and> only_adds_records (logs c) (logs c') \<and> keeps_headers c c' \<and>
     (ctx_log c \<noteq> None \<longrightarrow> ctx_log c' \<noteq> None)"

lemma keeps_telemetry_refl [simp]: "keeps_telemetry c c"
  by (simp add: keeps_telemetry_def keeps_headers_def)

lemma keeps_telemetry_trans [trans]: "keeps_telemetry a b \<Longrightarrow> keeps_telemetry b c \<Longrightarrow> keeps_telemetry a c"
  unfolding keeps_telemetry_def using only_adds_records_trans by (simp add: keeps_headers_def) metis

locale instrumented_handler =
  fixes handler :: "'d metered_scheme \<Rightarrow> 'd metered_scheme"
  assumes keeps: "keeps_telemetry c (handler c)"
begin

lemma completes:
  fixes env c
  defines "inner \<equiv> handler (opened env c)" and "after \<equiv> HTTPMiddleware env handler c"
  assumes "\<not> starts_with ''/health/'' (request_route (req c))"
  shows "status after = status inner" "body after = body inner" "active after = active c"
    "\<exists>a. ctx_log inner = Some a \<and>
       requests after = requests c @ [metric_labels (operation a) (req_method (req c)) (request_route (req c)) (status inner)] \<and>
       errors after = errors c @ (if 500 \<le> status inner
         then [metric_labels (operation a) (req_method (req c)) (request_route (req c)) (status inner)] else []) \<and>
       filter is_completion (drop (length (logs c)) (logs after)) =
         [logRequestCompletion (header_of after requestIDHeader) (request_span env)
           (operation a) (req_method (req c)) (request_route (req c)) (status inner) (elapsed env)
           (fst (classifyHTTPStatus (status inner))) (snd (classifyHTTPStatus (status inner))) (completions a) (attributes a)]"
proof -
  have kept: "keeps_telemetry (opened env c) inner" unfolding inner_def by (rule keeps)
  then obtain a where a: "ctx_log inner = Some a"
    by (auto simp: keeps_telemetry_def opened_def contextWithRequestLogAttributes_def contextWithRequestID_def Let_def)
  have same: "active inner = active c + 1" "requests inner = requests c" "errors inner = errors c"
    "only_adds_records (logs c) (logs inner)"
    "header_of inner requestIDHeader = resolveRequestID (generated_id env) (fallback_now env) (fallback_sequence env)
       (req_header (req c) requestIDHeader)"
    using kept keeps_headers_id [of "opened env c" inner] assms(3)
    by (simp_all add: keeps_telemetry_def opened_def contextWithRequestLogAttributes_def contextWithRequestID_def Let_def)
  note after = after_def HTTPMiddleware_def Let_def inner_def [symmetric] a snapshot_def end_span_def assms(3)
    metric_labels_def
  show "status after = status inner" "body after = body inner" "active after = active c"
    by (simp_all add: after same split: prod.splits)
  have header: "header_of after k = header_of inner k" for k
    by (simp add: after header_of_def split: prod.splits)
  show "\<exists>a. ctx_log inner = Some a \<and>
       requests after = requests c @ [metric_labels (operation a) (req_method (req c)) (request_route (req c)) (status inner)] \<and>
       errors after = errors c @ (if 500 \<le> status inner
         then [metric_labels (operation a) (req_method (req c)) (request_route (req c)) (status inner)] else []) \<and>
       filter is_completion (drop (length (logs c)) (logs after)) =
         [logRequestCompletion (header_of after requestIDHeader) (request_span env)
           (operation a) (req_method (req c)) (request_route (req c)) (status inner) (elapsed env)
           (fst (classifyHTTPStatus (status inner))) (snd (classifyHTTPStatus (status inner))) (completions a) (attributes a)]"
    unfolding header
    by (intro exI [of _ a]) (simp add: after same only_adds_records_drop [OF same(4)] del: drop_append split: prod.splits)
qed

end

end
