(* ===== verification/Health.thy ===== *)
theory Health
  imports Http
begin

text \<open>
  Health probes: \<open>internal/health/routes.go\<close>. \<open>ping\<close> is what pinging the database gives within the
  two seconds of the probe.
\<close>

text \<open>\<open>context.JSON\<close> of gin.\<close>

definition gin_json :: "int \<Rightarrow> json \<Rightarrow> 'd handler" where
  "gin_json code value_to_send = gin_data code ''application/json; charset=utf-8'' (Marshal value_to_send)"

definition response :: "string \<Rightarrow> json" where
  "response s = JObject [(''status'', JString s)]"

definition readinessTimeout :: duration where
  "readinessTimeout = 2 * second"

definition live :: "'d handler" where
  "live c = gin_json 200 (response ''ok'') c"

definition ready :: "(duration \<Rightarrow> go_error option) \<Rightarrow> 'd handler" where
  "ready ping c =
     (case ping readinessTimeout of
        Some err \<Rightarrow> gin_json 503 (response ''unavailable'') c
      | None \<Rightarrow> gin_json 200 (response ''ok'') c)"

lemma gin_json_fields [simp]:
  "req (gin_json code v c) = req c" "logs (gin_json code v c) = logs c" "ctx_log (gin_json code v c) = ctx_log c"
  "body (gin_json code v c) = Some (Marshal v)" "body c = None \<Longrightarrow> status (gin_json code v c) = code"
  "gin.more (gin_json code v c) = gin.more c"
  by (simp_all add: gin_json_def gin_data_def write_status_def Let_def)

end
