(* ===== verification/OpenAPI_Document.thy ===== *)
theory OpenAPI_Document
  imports Request_Telemetry Health "HOL-Library.List_Lexorder" "HOL-Library.Product_Lexorder" "HOL-Library.Char_ord" "HOL-Library.AList"
begin

text \<open>
  The API contract the server publishes: \<open>internal/openapi/document.go\<close>. A \<open>map[string]any\<close> is an
  object with its members in the order of the source; \<open>encoding/json\<close> writes them sorted by key.
  The second half is a reading of the contract, as JSON Schema defines it, and compares it with the
  routes and the bodies of the server.
\<close>

section \<open>Building blocks\<close>

fun members :: "json \<Rightarrow> (string \<times> json) list" where
  "members (JObject xs) = xs"
| "members _ = []"

definition member :: "json \<Rightarrow> string \<Rightarrow> json" where
  "member v k = (case map_of (members v) k of None \<Rightarrow> JNull | Some x \<Rightarrow> x)"

definition responseReference :: "string \<Rightarrow> json" where
  "responseReference name = JObject [(''$ref'', JString (''#/components/responses/'' @ name))]"

definition schemaReference :: "string \<Rightarrow> json" where
  "schemaReference name = JObject [(''$ref'', JString (''#/components/schemas/'' @ name))]"

definition jsonContent :: "json \<Rightarrow> json \<Rightarrow> json" where
  "jsonContent schema example =
     JObject [(''application/json'', JObject [(''schema'', schema), (''example'', example)])]"

definition object :: "string list \<Rightarrow> (string \<times> json) list \<Rightarrow> json" where
  "object required properties =
     JObject [(''type'', JString ''object''), (''additionalProperties'', JBool False),
       (''required'', JArray (map JString required)), (''properties'', JObject properties)]"

definition successDescription :: "string \<Rightarrow> string" where
  "successDescription code =
     (if code = ''201'' then ''Created.''
      else if code = ''202'' then ''Accepted without revealing whether the account exists.''
      else if code = ''204'' then ''Completed without a response body.''
      else if code = ''302'' then ''Redirects to the client after authentication.''
      else ''Completed successfully.'')"

definition tagFor :: "string \<Rightarrow> string" where
  "tagFor path = (if 7 \<le> length path \<and> take 7 path = ''/health'' then ''Health'' else ''Authentication'')"

section \<open>Operations\<close>

record documented_operation =
  Method :: string
  Path :: string
  Summary :: string
  Request :: string
  SuccessCode :: string
  Successful :: string
  Protected :: bool

definition documented ::
  "string \<Rightarrow> string \<Rightarrow> string \<Rightarrow> string \<Rightarrow> string \<Rightarrow> string \<Rightarrow> bool \<Rightarrow> documented_operation" where
  "documented method path summary requested success_code success protected =
     \<lparr>Method = method, Path = path, Summary = summary, Request = requested, SuccessCode = success_code,
      Successful = success, Protected = protected\<rparr>"

definition operations :: "documented_operation list" where
  "operations =
     [documented ''get'' ''/account'' ''Return the signed-in account and active organization access.''
        '''' ''200'' ''Account'' True,
      documented ''delete'' ''/account/google'' ''Unlink Google when another sign-in method remains.''
        '''' ''204'' '''' True,
      documented ''post'' ''/account/google'' ''Start linking Google to the signed-in account.''
        '''' ''200'' ''AuthorizationURL'' True,
      documented ''post'' ''/auth/change-password'' ''Change the account password.''
        ''ChangePasswordRequest'' ''200'' ''User'' True,
      documented ''post'' ''/auth/forgot-password'' ''Send a single-use password-reset link when the account exists.''
        ''EmailRequest'' ''202'' '''' False,
      documented ''post'' ''/auth/google'' ''Start Google sign-in.''
        '''' ''200'' ''AuthorizationURL'' False,
      documented ''get'' ''/auth/google/callback'' ''Complete Google sign-in and redirect to the client.''
        '''' ''302'' '''' False,
      documented ''get'' ''/auth/list-sessions'' ''Return the account's active sessions.''
        '''' ''200'' ''Sessions'' True,
      documented ''post'' ''/auth/remove-password'' ''Remove password sign-in when another method remains.''
        ''RemovePasswordRequest'' ''204'' '''' True,
      documented ''post'' ''/auth/resend-verification'' ''Send a new verification code when the account exists.''
        ''EmailRequest'' ''202'' '''' False,
      documented ''post'' ''/auth/reset-password'' ''Replace the password with a valid reset token.''
        ''ResetPasswordRequest'' ''200'' ''User'' False,
      documented ''post'' ''/auth/revoke-other-sessions'' ''Revoke every account session except the current session.''
        '''' ''200'' ''Session'' True,
      documented ''post'' ''/auth/revoke-session'' ''Revoke one session belonging to the account.''
        ''RevokeSessionRequest'' ''204'' '''' True,
      documented ''post'' ''/auth/revoke-sessions'' ''Revoke every session belonging to the account.''
        '''' ''204'' '''' True,
      documented ''get'' ''/auth/session'' ''Return the current Authlier session.''
        '''' ''200'' ''Session'' True,
      documented ''post'' ''/auth/set-password'' ''Add password sign-in to the account.''
        ''SetPasswordRequest'' ''200'' ''User'' True,
      documented ''post'' ''/auth/sign-in'' ''Sign in with email and password.''
        ''CredentialsRequest'' ''200'' ''UserSession'' False,
      documented ''post'' ''/auth/sign-out'' ''Revoke the current session.''
        '''' ''204'' '''' True,
      documented ''post'' ''/auth/sign-up'' ''Create an account and send its verification code.''
        ''CredentialsRequest'' ''201'' ''User'' False,
      documented ''post'' ''/auth/verify-email'' ''Verify the email code and sign in.''
        ''VerifyEmailRequest'' ''200'' ''UserSession'' False,
      documented ''get'' ''/health/live'' ''Report whether the API process is alive.''
        '''' ''200'' ''Health'' False,
      documented ''get'' ''/health/ready'' ''Report whether PostgreSQL is reachable.''
        '''' ''200'' ''Health'' False]"

section \<open>Schemas and examples\<close>

definition stringProperty :: json where
  "stringProperty = JObject [(''type'', JString ''string'')]"

definition password_schema :: json where
  "password_schema = JObject [(''type'', JString ''string''), (''minLength'', JInt 12), (''maxLength'', JInt 128),
      (''format'', JString ''password''),
      (''pattern'', JString (''^(?=.*[A-Z])(?=.*[0-9])(?=.*[^'' @ [CHR 0x5C] @ ''p{L}'' @ [CHR 0x5C] @ ''p{N}'' @ [CHR 0x5C] @ ''s]).{12,128}$''))]"

definition schemas :: "(string \<times> json) list" where
  "schemas =
     [(''Account'', object [''session'', ''user'', ''organizations''] [(''session'', schemaReference ''AccountSession''),
        (''user'', schemaReference ''AccountUser''), (''organizations'', JObject [(''type'', JString ''array''), (''items'',
        schemaReference ''OrganizationAccess'')])]),
      (''AccountSession'', object [''id'', ''createdAt'', ''expiresAt''] [(''id'', stringProperty), (''createdAt'', JObject
        [(''type'', JString ''string''), (''format'', JString ''date-time'')]), (''expiresAt'', JObject [(''type'', JString
        ''string''), (''format'', JString ''date-time'')])]),
      (''AccountUser'', object [''id''] [(''id'', stringProperty)]),
      (''AuthorizationURL'', object [''url''] [(''url'', JObject [(''type'', JString ''string''), (''format'', JString ''uri'')])]),
      (''ChangePasswordRequest'', object [''currentPassword'', ''newPassword''] [(''currentPassword'', stringProperty),
        (''newPassword'', password_schema), (''revokeOtherSessions'', JObject [(''type'', JString ''boolean'')])]),
      (''CredentialsRequest'', object [''email'', ''password''] [(''email'', JObject [(''type'', JString ''string''),
        (''format'', JString ''email'')]), (''password'', password_schema)]),
      (''EmailRequest'', object [''email''] [(''email'', JObject [(''type'', JString ''string''), (''format'', JString
        ''email'')])]),
      (''Error'', object [''error''] [(''error'', object [''code''] [(''code'', stringProperty)])]),
      (''Health'', object [''status''] [(''status'', JObject [(''type'', JString ''string''), (''example'', JString ''ok'')])]),
      (''OrganizationAccess'', object [''id'', ''name'', ''owner'', ''roleId'', ''roleName''] [(''id'', stringProperty),
        (''name'', stringProperty), (''owner'', JObject [(''type'', JString ''boolean'')]), (''roleId'', stringProperty),
        (''roleName'', stringProperty), (''roleSystemKey'', JObject [(''type'', JArray [JString ''string'', JString
        ''null''])])]),
      (''RemovePasswordRequest'', object [''currentPassword''] [(''currentPassword'', stringProperty)]),
      (''ResetPasswordRequest'', object [''token'', ''newPassword''] [(''token'', stringProperty), (''newPassword'', password_schema)]),
      (''RevokeSessionRequest'', object [''sessionId''] [(''sessionId'', stringProperty)]),
      (''Session'', object [''session''] [(''session'', schemaReference ''SessionDetails'')]),
      (''SessionDetails'', object [''id'', ''subjectId'', ''createdAt'', ''expiresAt''] [(''id'', stringProperty),
        (''subjectId'', stringProperty), (''createdAt'', JObject [(''type'', JString ''string''), (''format'', JString
        ''date-time'')]), (''expiresAt'', JObject [(''type'', JString ''string''), (''format'', JString ''date-time'')])]),
      (''ListedSession'', object [''id'', ''subjectId'', ''createdAt'', ''expiresAt'', ''current''] [(''id'',
        stringProperty), (''subjectId'', stringProperty), (''createdAt'', JObject [(''type'', JString ''string''),
        (''format'', JString ''date-time'')]), (''expiresAt'', JObject [(''type'', JString ''string''), (''format'', JString
        ''date-time'')]), (''current'', JObject [(''type'', JString ''boolean'')])]),
      (''Sessions'', object [''sessions''] [(''sessions'', JObject [(''type'', JString ''array''), (''items'',
        schemaReference ''ListedSession'')])]),
      (''SetPasswordRequest'', object [''password''] [(''password'', password_schema)]),
      (''User'', object [''user''] [(''user'', schemaReference ''UserDetails'')]),
      (''UserDetails'', object [''id'', ''email''] [(''id'', stringProperty), (''email'', JObject [(''type'', JString
        ''string''), (''format'', JString ''email'')])]),
      (''UserSession'', object [''user'', ''session''] [(''user'', schemaReference ''UserDetails''), (''session'',
        schemaReference ''SessionDetails'')]),
      (''VerifyEmailRequest'', object [''email'', ''code''] [(''email'', JObject [(''type'', JString ''string''),
        (''format'', JString ''email'')]), (''code'', JObject [(''type'', JString ''string''), (''pattern'', JString
        ''^[0-9]{6}$''), (''example'', JString ''482193'')])])]"

definition example_session :: json where
  "example_session = JObject [(''id'', JString ''01K5A7Q72E9WPJ8D4J13FQ0A6R''), (''subjectId'', JString ''01K5A7PZ9SA93YN3PX84B9G6KB''),
      (''createdAt'', JString ''2026-09-25T12:00:00Z''), (''expiresAt'', JString ''2026-10-02T12:00:00Z'')]"

definition example_user :: json where
  "example_user = JObject [(''id'', JString ''01K5A7PZ9SA93YN3PX84B9G6KB''), (''email'', JString ''developer@example.com'')]"

definition exampleFor :: "string \<Rightarrow> json" where
  "exampleFor name =
     (if name = ''CredentialsRequest''
       then JObject [(''email'', JString ''developer@example.com''), (''password'', JString ''Correct horse 7!'')]
       else if name = ''EmailRequest''
       then JObject [(''email'', JString ''developer@example.com'')]
       else if name = ''VerifyEmailRequest''
       then JObject [(''email'', JString ''developer@example.com''), (''code'', JString ''482193'')]
       else if name = ''ResetPasswordRequest''
       then JObject [(''token'', JString ''single-use-reset-token''),
         (''newPassword'', JString ''Correct horse 7!'')]
       else if name = ''ChangePasswordRequest''
       then JObject [(''currentPassword'', JString ''Previous horse 6!''),
         (''newPassword'', JString ''Correct horse 7!''),
         (''revokeOtherSessions'', JBool True)]
       else if name = ''SetPasswordRequest''
       then JObject [(''password'', JString ''Correct horse 7!'')]
       else if name = ''RemovePasswordRequest''
       then JObject [(''currentPassword'', JString ''Correct horse 7!'')]
       else if name = ''RevokeSessionRequest''
       then JObject [(''sessionId'', JString ''01K5A7Q72E9WPJ8D4J13FQ0A6R'')]
       else if name = ''AuthorizationURL''
       then JObject [(''url'', JString ''https://accounts.google.com/o/oauth2/v2/auth?...'')]
       else if name = ''Health''
       then JObject [(''status'', JString ''ok'')]
       else if name = ''Session''
       then JObject [(''session'', example_session)]
       else if name = ''Sessions''
       then (let listedSession = JObject (members example_session @ [(''current'', JBool True)])
         in JObject [(''sessions'', JArray [listedSession])])
       else if name = ''User''
       then JObject [(''user'', example_user)]
       else if name = ''UserSession''
       then JObject [(''user'', example_user), (''session'', example_session)]
       else if name = ''Account''
       then (let accountSession =
            JObject [(''id'', member example_session ''id''),
              (''createdAt'', member example_session ''createdAt''),
              (''expiresAt'', member example_session ''expiresAt'')]
         in JObject [(''user'', JObject [(''id'', member example_user ''id'')]),
           (''session'', accountSession), (''organizations'', JArray
             [JObject [(''id'', JString ''01K5A80AZ99MGRM9Q7K0SZV8XJ''), (''name'', JString ''Acme''), (''owner'', JBool True),
               (''roleId'', JString ''01K5A80JPQ1PVX1XBQXF8VZC52''), (''roleName'', JString ''Owner''),
               (''roleSystemKey'', JNull)]])])
       else JObject [])"

section \<open>Responses\<close>

definition errorResponse :: "string \<Rightarrow> string \<Rightarrow> json" where
  "errorResponse description code =
     JObject [(''description'', JString description),
       (''content'', jsonContent (schemaReference ''Error'') (JObject [(''error'', JObject [(''code'', JString code)])]))]"

definition errorResponses :: "(string \<times> json) list" where
  "errorResponses =
     [(''BadRequest'', errorResponse ''The request is invalid.'' ''invalid_request''),
      (''NotAuthenticated'', errorResponse ''Authentication is required.'' ''not_authenticated''),
      (''RateLimited'', errorResponse ''Too many attempts were made.'' ''too_many_attempts''),
      (''ServerError'', errorResponse ''The request could not be completed.'' ''authentication_failed'')]"

definition operationResponses :: "documented_operation \<Rightarrow> json \<Rightarrow> (string \<times> json) list" where
  "operationResponses endpoint success =
     (let responses = AList.update ''500'' (responseReference ''ServerError'') [(SuccessCode endpoint, success)];
          responses = (if Request endpoint \<noteq> [] \<or> Path endpoint = ''/auth/google/callback''
            then AList.update ''400'' (responseReference ''BadRequest'') responses else responses);
          responses = (if Protected endpoint
            then AList.update ''401'' (responseReference ''NotAuthenticated'') responses else responses);
          responses = (if tagFor (Path endpoint) = ''Authentication''
            then AList.update ''429'' (responseReference ''RateLimited'') responses else responses)
      in if Path endpoint = ''/health/ready''
         then AList.update ''503''
           (JObject [(''description'', JString ''PostgreSQL is unavailable.''),
              (''content'', jsonContent (schemaReference ''Health'') (JObject [(''status'', JString ''unavailable'')]))]) responses
         else responses)"

section \<open>The document\<close>

definition operationDocument :: "documented_operation \<Rightarrow> json" where
  "operationDocument endpoint =
     (let response = [(''description'', JString (successDescription (SuccessCode endpoint)))] @
            (if Successful endpoint \<noteq> []
             then [(''content'', jsonContent (schemaReference (Successful endpoint)) (exampleFor (Successful endpoint)))]
             else [])
      in JObject
        ([(''summary'', JString (Summary endpoint)), (''tags'', JArray [JString (tagFor (Path endpoint))]),
          (''responses'', JObject (operationResponses endpoint (JObject response)))] @
         (if Request endpoint \<noteq> []
          then [(''requestBody'', JObject [(''required'', JBool True),
                  (''content'', jsonContent (schemaReference (Request endpoint)) (exampleFor (Request endpoint)))])]
          else []) @
         (if Protected endpoint then [(''security'', JArray [JObject [(''cookieSession'', JArray [])]])] else [])))"

text \<open>\<open>paths\<close> collects the operations by path, then by method.\<close>

definition add_operation :: "documented_operation \<Rightarrow> (string \<times> (string \<times> json) list) list \<Rightarrow> (string \<times> (string \<times> json) list) list" where
  "add_operation endpoint paths =
     (let path = (case map_of paths (Path endpoint) of None \<Rightarrow> [] | Some path \<Rightarrow> path)
      in AList.update (Path endpoint) (AList.update (Method endpoint) (operationDocument endpoint) path) paths)"

definition document_paths :: "(string \<times> (string \<times> json) list) list" where
  "document_paths = fold add_operation (sort_key (\<lambda>endpoint. (Path endpoint, Method endpoint)) operations) []"

definition Document :: json where
  "Document =
     JObject
       [(''openapi'', JString ''3.1.0''),
        (''info'', JObject
           [(''title'', JString ''Consumel API''), (''version'', JString ''0.1.0''),
            (''description'', JString ''Consumel usage-based billing infrastructure API.'')]),
        (''paths'', JObject (map (\<lambda>(path, methods). (path, JObject methods)) document_paths)),
        (''components'', JObject
           [(''securitySchemes'', JObject
               [(''cookieSession'', JObject
                   [(''type'', JString ''apiKey''), (''in'', JString ''cookie''), (''name'', JString ''consumel_session'')])]),
            (''schemas'', JObject schemas), (''responses'', JObject errorResponses)])]"

section \<open>Reading the contract\<close>

text \<open>
  \<open>walk\<close> follows a reference of the document. \<open>conforms\<close> is the part of JSON Schema (2020-12, which
  OpenAPI 3.1 uses) that the document's schemas are written in; \<open>format\<close> and \<open>example\<close> are annotations
  there. \<open>matches\<close> decides a pattern. The first argument bounds the nesting of references.
\<close>

fun walk :: "json \<Rightarrow> string list \<Rightarrow> json option" where
  "walk v [] = Some v"
| "walk v (k # ks) = (case map_of (members v) k of None \<Rightarrow> None | Some x \<Rightarrow> walk x ks)"

definition resolve_reference :: "json \<Rightarrow> string \<Rightarrow> json option" where
  "resolve_reference root r = (case Split r CHR ''/'' of h # ks \<Rightarrow> if h = ''#'' then walk root ks else None | [] \<Rightarrow> None)"

fun references :: "json \<Rightarrow> string list" where
  "references (JObject xs) =
     concat (map (\<lambda>(k, v). (case v of JString r \<Rightarrow> if k = ''$ref'' then [r] else [] | _ \<Rightarrow> references v)) xs)"
| "references (JArray vs) = concat (map references vs)"
| "references _ = []"

fun type_of_json :: "json \<Rightarrow> string" where
  "type_of_json JNull = ''null''"
| "type_of_json (JBool b) = ''boolean''"
| "type_of_json (JInt i) = ''integer''"
| "type_of_json (JString s) = ''string''"
| "type_of_json (JTime t) = ''string''"
| "type_of_json (JArray vs) = ''array''"
| "type_of_json (JObject xs) = ''object''"

definition type_ok :: "json \<Rightarrow> json \<Rightarrow> bool" where
  "type_ok schema v =
     (case member schema ''type'' of
        JString t \<Rightarrow> type_of_json v = t
      | JArray ts \<Rightarrow> JString (type_of_json v) \<in> set ts
      | _ \<Rightarrow> True)"

definition required_ok :: "json \<Rightarrow> json \<Rightarrow> bool" where
  "required_ok schema v =
     (case (member schema ''required'', v) of
        (JArray ks, JObject xs) \<Rightarrow> list_all (\<lambda>k. k \<in> JString ` fst ` set xs) ks
      | _ \<Rightarrow> True)"

definition text_ok :: "(string \<Rightarrow> string \<Rightarrow> bool) \<Rightarrow> json \<Rightarrow> json \<Rightarrow> bool" where
  "text_ok matches schema v =
     (case v of
        JString s \<Rightarrow>
          (case member schema ''minLength'' of JInt n \<Rightarrow> n \<le> int (length (runes s)) | _ \<Rightarrow> True) \<and>
          (case member schema ''maxLength'' of JInt n \<Rightarrow> int (length (runes s)) \<le> n | _ \<Rightarrow> True) \<and>
          (case member schema ''pattern'' of JString p \<Rightarrow> matches p s | _ \<Rightarrow> True)
      | _ \<Rightarrow> True)"

fun conforms :: "nat \<Rightarrow> (string \<Rightarrow> string \<Rightarrow> bool) \<Rightarrow> json \<Rightarrow> json \<Rightarrow> json \<Rightarrow> bool" where
  "conforms 0 matches root schema v = False"
| "conforms (Suc n) matches root schema v =
     (case member schema ''$ref'' of
        JString r \<Rightarrow> (case resolve_reference root r of None \<Rightarrow> False | Some s \<Rightarrow> conforms n matches root s v)
      | _ \<Rightarrow>
          type_ok schema v \<and> required_ok schema v \<and> text_ok matches schema v \<and>
          (case v of
             JObject xs \<Rightarrow>
               list_all (\<lambda>(k, x). case map_of (members (member schema ''properties'')) k of
                   None \<Rightarrow> member schema ''additionalProperties'' \<noteq> JBool False
                 | Some s \<Rightarrow> conforms n matches root s x) xs
           | JArray xs \<Rightarrow>
               (case map_of (members schema) ''items'' of None \<Rightarrow> True | Some s \<Rightarrow> list_all (conforms n matches root s) xs)
           | _ \<Rightarrow> True))"

text \<open>\<open>described\<close>: the value fits the schema of that name in the published document.\<close>

definition described :: "(string \<Rightarrow> string \<Rightarrow> bool) \<Rightarrow> string \<Rightarrow> json \<Rightarrow> bool" where
  "described matches name v = conforms 8 matches Document (schemaReference name) v"

section \<open>The document is closed and complete\<close>

lemma operations_sorted: "sort_key (\<lambda>endpoint. (Path endpoint, Method endpoint)) operations = operations"
proof -
  have "sorted (map (\<lambda>endpoint. (Path endpoint, Method endpoint)) operations)" by code_simp
  then show ?thesis by (rule sort_key_id_if_sorted)
qed

lemma set_update_subset: "set (AList.update k v al) \<subseteq> insert (k, v) (set al)"
  by (induction al) auto

definition references_at :: "string \<times> json \<Rightarrow> string set" where
  "references_at = (\<lambda>(k, v). case v of JString r \<Rightarrow> if k = ''$ref'' then {r} else {} | _ \<Rightarrow> set (references v))"

lemma references_object: "set (references (JObject xs)) = (\<Union>x\<in>set xs. references_at x)"
proof -
  have "set (case x of (k, v) \<Rightarrow> (case v of JString r \<Rightarrow> if k = ''$ref'' then [r] else [] | _ \<Rightarrow> references v)) = references_at x" for x
    by (cases x) (simp add: references_at_def split: json.split)
  then show ?thesis by simp
qed

lemma references_at_object [simp]: "references_at (k, JObject xs) = set (references (JObject xs))"
  by (simp add: references_at_def)

lemma references_at_text [simp]: "references_at (k, JString r) = (if k = ''$ref'' then {r} else {})"
  by (simp add: references_at_def)

declare references.simps(1) [simp del]

text \<open>\<open>path_references\<close> are the references below the paths collected so far.\<close>

definition path_references :: "(string \<times> (string \<times> json) list) list \<Rightarrow> string set" where
  "path_references paths = (\<Union>(path, methods)\<in>set paths. set (references (JObject methods)))"

lemma references_paths:
  "set (references (JObject (map (\<lambda>(path, methods). (path, JObject methods)) paths))) = path_references paths"
  by (force simp: references_object [of "map f xs" for f xs] path_references_def)

lemma references_update:
  "set (references (JObject (AList.update k (JObject xs) al))) \<subseteq> set (references (JObject xs)) \<union> set (references (JObject al))"
  using UN_mono [OF set_update_subset [of k "JObject xs" al], of references_at references_at]
  unfolding references_object [of "AList.update k (JObject xs) al"] references_object [of al] by simp

lemma references_add_operation:
  "path_references (add_operation endpoint paths) \<subseteq> set (references (operationDocument endpoint)) \<union> path_references paths"
proof -
  obtain xs where doc: "operationDocument endpoint = JObject xs" by (simp add: operationDocument_def Let_def)
  let ?path = "case map_of paths (Path endpoint) of None \<Rightarrow> [] | Some path \<Rightarrow> path"
  have "set (references (JObject ?path)) \<subseteq> path_references paths"
  proof (cases "map_of paths (Path endpoint)")
    case None
    then show ?thesis by (simp add: references_object)
  next
    case (Some path)
    from map_of_SomeD [OF this] show ?thesis by (auto simp: Some path_references_def)
  qed
  moreover have "path_references (add_operation endpoint paths) \<subseteq>
      set (references (JObject (AList.update (Method endpoint) (JObject xs) ?path))) \<union> path_references paths"
    using UN_mono [OF set_update_subset [of "Path endpoint" "AList.update (Method endpoint) (JObject xs) ?path" paths],
        of "\<lambda>(path, methods). set (references (JObject methods))" "\<lambda>(path, methods). set (references (JObject methods))"]
    by (simp add: add_operation_def doc Let_def path_references_def)
  ultimately show ?thesis using references_update [of "Method endpoint" xs ?path] doc by auto
qed

lemma references_fold:
  "path_references (fold add_operation endpoints paths) \<subseteq>
    (\<Union>endpoint\<in>set endpoints. set (references (operationDocument endpoint))) \<union> path_references paths"
proof (induction endpoints arbitrary: paths)
  case (Cons endpoint endpoints)
  from Cons [of "add_operation endpoint paths"] references_add_operation [of endpoint paths] show ?case by auto
qed simp

lemma walk_components:
  "walk Document (''components'' # k # ks) = walk (JObject (if k = ''schemas'' then schemas else if k = ''responses'' then errorResponses
     else if k = ''securitySchemes'' then [(''cookieSession'', JObject
        [(''type'', JString ''apiKey''), (''in'', JString ''cookie''), (''name'', JString ''consumel_session'')])] else [])) ks"
  if "k \<in> {''schemas'', ''responses'', ''securitySchemes''}"
  using that by (auto simp: Document_def)

lemma Split_plain: "CHR ''/'' \<notin> set s \<Longrightarrow> Split s CHR ''/'' = [s]"
  by (induction s) auto

lemma Split_component: "CHR ''/'' \<notin> set name \<Longrightarrow>
    Split (''#/components/schemas/'' @ name) CHR ''/'' = [''#'', ''components'', ''schemas'', name] \<and>
    Split (''#/components/responses/'' @ name) CHR ''/'' = [''#'', ''components'', ''responses'', name]"
  by (simp add: Split_plain)

lemma resolve_component:
  assumes "CHR ''/'' \<notin> set name"
  shows "resolve_reference Document (''#/components/schemas/'' @ name) = map_of schemas name"
    and "resolve_reference Document (''#/components/responses/'' @ name) = map_of errorResponses name"
  using Split_component [OF assms] by (simp_all add: resolve_reference_def walk_components del: walk.simps(2) Split.simps)
    (simp_all split: option.split)

lemma component_names:
  "map fst schemas =
     [''Account'', ''AccountSession'', ''AccountUser'', ''AuthorizationURL'', ''ChangePasswordRequest'',
      ''CredentialsRequest'', ''EmailRequest'', ''Error'', ''Health'', ''OrganizationAccess'',
      ''RemovePasswordRequest'', ''ResetPasswordRequest'', ''RevokeSessionRequest'', ''Session'',
      ''SessionDetails'', ''ListedSession'', ''Sessions'', ''SetPasswordRequest'', ''User'', ''UserDetails'',
      ''UserSession'', ''VerifyEmailRequest'']"
  "map fst errorResponses = [''BadRequest'', ''NotAuthenticated'', ''RateLimited'', ''ServerError'']"
  by (simp_all add: schemas_def errorResponses_def)

definition known_reference :: "string \<Rightarrow> bool" where
  "known_reference r =
     (let schema = drop 21 r; response = drop 23 r
      in r = ''#/components/schemas/'' @ schema \<and> CHR ''/'' \<notin> set schema \<and>
           schema \<in> set [''Account'', ''AccountSession'', ''AccountUser'', ''AuthorizationURL'', ''ChangePasswordRequest'',
             ''CredentialsRequest'', ''EmailRequest'', ''Error'', ''Health'', ''OrganizationAccess'',
             ''RemovePasswordRequest'', ''ResetPasswordRequest'', ''RevokeSessionRequest'', ''Session'',
             ''SessionDetails'', ''ListedSession'', ''Sessions'', ''SetPasswordRequest'', ''User'', ''UserDetails'',
             ''UserSession'', ''VerifyEmailRequest''] \<or>
         r = ''#/components/responses/'' @ response \<and> CHR ''/'' \<notin> set response \<and>
           response \<in> set [''BadRequest'', ''NotAuthenticated'', ''RateLimited'', ''ServerError''])"

lemma known_reference_resolves: "known_reference r \<Longrightarrow> resolve_reference Document r \<noteq> None"
proof -
  have "map_of schemas n \<noteq> None \<longleftrightarrow> n \<in> set (map fst schemas)"
    "map_of errorResponses n \<noteq> None \<longleftrightarrow> n \<in> set (map fst errorResponses)" for n
    by (simp_all only: map_of_eq_None_iff set_map not_not not_False_eq_True)
  note names = this [unfolded component_names]
  assume known: "known_reference r"
  show ?thesis
  proof (cases "r = ''#/components/schemas/'' @ drop 21 r")
    case True
    with known have n: "CHR ''/'' \<notin> set (drop 21 r)" "map_of schemas (drop 21 r) \<noteq> None"
      unfolding names known_reference_def Let_def by auto
    from True resolve_component(1) [OF n(1)] n(2) show ?thesis by metis
  next
    case False
    with known have r: "r = ''#/components/responses/'' @ drop 23 r"
      and n: "CHR ''/'' \<notin> set (drop 23 r)" "map_of errorResponses (drop 23 r) \<noteq> None"
      unfolding names known_reference_def Let_def by blast+
    from r resolve_component(2) [OF n(1)] n(2) show ?thesis by metis
  qed
qed

lemma known_operation_references:
  "list_all (\<lambda>endpoint. list_all known_reference (references (operationDocument endpoint))) operations"
  by code_simp

lemma known_component_references:
  "list_all known_reference (references (JObject schemas))" "list_all known_reference (references (JObject errorResponses))"
  by code_simp+


lemma all_references_known: "r \<in> set (references Document) \<Longrightarrow> known_reference r"
proof -
  assume r: "r \<in> set (references Document)"
  have "set (references Document) \<subseteq> path_references document_paths \<union> set (references (JObject schemas)) \<union>
      set (references (JObject errorResponses))"
    unfolding Document_def references_object
    by (auto simp: path_references_def references_object)
  moreover have "path_references document_paths \<subseteq> (\<Union>endpoint\<in>set operations. set (references (operationDocument endpoint)))"
    using references_fold [of operations "[]"] by (simp add: document_paths_def operations_sorted path_references_def)
  ultimately show ?thesis
    using r known_operation_references known_component_references unfolding list_all_iff by blast
qed

definition lookup_operation :: "(string \<times> (string \<times> json) list) list \<Rightarrow> string \<Rightarrow> string \<Rightarrow> json option" where
  "lookup_operation paths path method = Option.bind (map_of paths path) (\<lambda>methods. map_of methods method)"

lemma lookup_add_operation:
  "lookup_operation (add_operation endpoint paths) path method =
    (if path = Path endpoint \<and> method = Method endpoint then Some (operationDocument endpoint)
     else lookup_operation paths path method)"
  by (auto simp: lookup_operation_def add_operation_def Let_def update_conv' split: option.splits)

lemma lookup_fold:
  assumes "distinct (map (\<lambda>endpoint. (Path endpoint, Method endpoint)) endpoints)"
  shows "lookup_operation (fold add_operation endpoints paths) path method =
    (case find (\<lambda>endpoint. Path endpoint = path \<and> Method endpoint = method) endpoints of
       None \<Rightarrow> lookup_operation paths path method | Some endpoint \<Rightarrow> Some (operationDocument endpoint))"
  using assms
proof (induction endpoints arbitrary: paths)
  case (Cons endpoint endpoints)
  have "find (\<lambda>e. Path e = path \<and> Method e = method) endpoints = None"
    if "path = Path endpoint" "method = Method endpoint"
    using Cons.prems that by (auto simp: find_None_iff image_iff)
  with Cons show ?case by (auto simp: lookup_add_operation split: option.split)
qed simp

lemma walk_paths:
  "walk Document [''paths'', path, method] = lookup_operation document_paths path method"
  by (simp add: Document_def map_of_map [unfolded map_prod_def id_def] lookup_operation_def o_def split: option.split)

text \<open>
  C33. The published contract is closed and complete. Every reference in it leads to a component of
  it, every operation is found under its path and method and nothing else is, and the operations
  tagged as authentication are exactly the ones whose requests get messages of their own.
\<close>

theorem published_contract:
  "list_all (\<lambda>r. resolve_reference Document r \<noteq> None) (references Document) \<and>
   walk Document [''paths'', path, method] =
     map_option operationDocument (find (\<lambda>endpoint. Path endpoint = path \<and> Method endpoint = method) operations) \<and>
   set (map fst authenticationRequestTelemetry) =
     set (map (\<lambda>endpoint. ToUpper (Method endpoint) @ '' '' @ Path endpoint)
       (filter (\<lambda>endpoint. tagFor (Path endpoint) = ''Authentication'') operations))"
proof (intro conjI)
  show "list_all (\<lambda>r. resolve_reference Document r \<noteq> None) (references Document)"
    using all_references_known known_reference_resolves by (simp add: list_all_iff)
  have "distinct (map (\<lambda>endpoint. (Path endpoint, Method endpoint)) operations)" by code_simp
  then show "walk Document [''paths'', path, method] =
      map_option operationDocument (find (\<lambda>endpoint. Path endpoint = path \<and> Method endpoint = method) operations)"
    using lookup_fold [of operations "[]" "path" "method"]
    by (simp add: walk_paths document_paths_def operations_sorted lookup_operation_def del: walk.simps split: option.split)
  show "set (map fst authenticationRequestTelemetry) =
      set (map (\<lambda>endpoint. ToUpper (Method endpoint) @ '' '' @ Path endpoint)
        (filter (\<lambda>endpoint. tagFor (Path endpoint) = ''Authentication'') operations))"
    by code_simp
qed

section \<open>Bodies against the contract\<close>

text \<open>
  No error body of the server fits the \<open>Error\<close> schema of its own contract: the schema allows the
  member \<open>code\<close> only, and the server sends \<open>code\<close> and \<open>message\<close>.
\<close>

theorem error_bodies_break_the_contract:
  "\<not> described matches ''Error'' (error_json code message)"
  by code_simp

lemma account_schemas:
  "map_of schemas ''Account'' =
     Some (object [''session'', ''user'', ''organizations''] [(''session'', schemaReference ''AccountSession''),
        (''user'', schemaReference ''AccountUser''),
        (''organizations'', JObject [(''type'', JString ''array''), (''items'', schemaReference ''OrganizationAccess'')])])"
  "map_of schemas ''AccountSession'' =
     Some (object [''id'', ''createdAt'', ''expiresAt''] [(''id'', stringProperty),
        (''createdAt'', JObject [(''type'', JString ''string''), (''format'', JString ''date-time'')]),
        (''expiresAt'', JObject [(''type'', JString ''string''), (''format'', JString ''date-time'')])])"
  "map_of schemas ''AccountUser'' = Some (object [''id''] [(''id'', stringProperty)])"
  "map_of schemas ''OrganizationAccess'' =
     Some (object [''id'', ''name'', ''owner'', ''roleId'', ''roleName''] [(''id'', stringProperty),
        (''name'', stringProperty), (''owner'', JObject [(''type'', JString ''boolean'')]), (''roleId'', stringProperty),
        (''roleName'', stringProperty), (''roleSystemKey'', JObject [(''type'', JArray [JString ''string'', JString ''null''])])])"
  by (simp_all add: schemas_def)

lemma conforms_reference:
  "CHR ''/'' \<notin> set name \<Longrightarrow> map_of schemas name = Some s \<Longrightarrow>
    conforms (Suc n) matches Document (schemaReference name) v = conforms n matches Document s v"
  using resolve_component(1) [of name] by (simp add: schemaReference_def member_def)

lemma conforms_object:
  "conforms (Suc n) matches root (object required properties) (JObject xs) \<longleftrightarrow>
    list_all (\<lambda>k. k \<in> fst ` set xs) required \<and>
    list_all (\<lambda>(k, x). case map_of properties k of None \<Rightarrow> False | Some s \<Rightarrow> conforms n matches root s x) xs"
  by (auto simp: object_def member_def type_ok_def required_ok_def text_ok_def list_all_iff image_iff split: option.splits)

lemma conforms_array:
  "conforms (Suc n) matches root (JObject [(''type'', JString ''array''), (''items'', s)]) (JArray xs) \<longleftrightarrow>
    list_all (conforms n matches root s) xs"
  by (simp add: member_def type_ok_def required_ok_def text_ok_def)

lemma conforms_typed:
  "conforms (Suc n) matches root stringProperty (JString s)"
  "conforms (Suc n) matches root (JObject [(''type'', JString ''string''), (''format'', f)]) (JTime t)"
  "conforms (Suc n) matches root (JObject [(''type'', JString ''boolean'')]) (JBool b)"
  "conforms (Suc n) matches root (JObject [(''type'', JArray [JString ''string'', JString ''null''])]) JNull"
  "conforms (Suc n) matches root (JObject [(''type'', JArray [JString ''string'', JString ''null''])]) (JString s)"
  by (simp_all add: stringProperty_def member_def type_ok_def required_ok_def text_ok_def)

end
