(* ===== verification/Accounts.thy ===== *)
theory Accounts
  imports Request_Telemetry OpenAPI_Document Organizations
begin

text \<open>
  The account endpoint:
  \<open>internal/authentication/services\<close>, \<open>internal/authentication/models\<close>,
  \<open>internal/infra/authentication/authlier.go\<close>, \<open>internal/authentication/handlers/account.go\<close>.
  Resolving a session, its user and the user's organizations joins the
  components for users and organizations.
\<close>

section \<open>The authenticated tenant\<close>

record Session =
  Session_ID :: string
  Session_SubjectID :: string
  Session_CreatedAt :: instant
  Session_ExpiresAt :: instant

record AuthenticatedTenant =
  Tenant_Session :: Session
  Tenant_User :: User
  Tenant_OrganizationAccess :: "OrganizationAccess list"

definition ErrUnauthenticated :: string where
  "ErrUnauthenticated = ''authentication.ErrUnauthenticated''"

text \<open>\<open>auth\<close> is what the authentication library answers for a request: an id, a subject and two instants.\<close>

definition AuthlierSessionResolver_ResolveSession ::
  "(request \<Rightarrow> (string \<times> string \<times> instant \<times> instant) result) \<Rightarrow> request \<Rightarrow> Session result" where
  "AuthlierSessionResolver_ResolveSession auth r =
     (case auth r of
        Inl err \<Rightarrow> Inl err
      | Inr (session_id, subject, created, expires) \<Rightarrow>
          Inr \<lparr>Session_ID = session_id, Session_SubjectID = subject, Session_CreatedAt = created,
               Session_ExpiresAt = expires\<rparr>)"

text \<open>\<open>error_text\<close> is the text of an error, as \<open>%v\<close> prints it.\<close>

type_synonym SessionResolver = "request \<Rightarrow> Session result"

type_synonym 's UserResolver = "'s \<Rightarrow> string \<Rightarrow> 's \<times> User result"

type_synonym 's OrganizationAccessRepository = "'s \<Rightarrow> uuid \<Rightarrow> OrganizationAccess list result"

record 's AuthenticatedTenantService =
  Tenant_sessions :: SessionResolver
  Tenant_users :: "'s UserResolver"
  Tenant_organizations :: "'s OrganizationAccessRepository"

definition NewAuthenticatedTenantService ::
  "SessionResolver \<Rightarrow> 's UserResolver \<Rightarrow> 's OrganizationAccessRepository \<Rightarrow> 's AuthenticatedTenantService" where
  "NewAuthenticatedTenantService sessions resolve_user active_access =
     \<lparr>Tenant_sessions = sessions, Tenant_users = resolve_user, Tenant_organizations = active_access\<rparr>"

definition AuthenticatedTenantService_Resolve ::
  "(go_error \<Rightarrow> string) \<Rightarrow> 's AuthenticatedTenantService \<Rightarrow> 's \<Rightarrow> request \<Rightarrow> 's \<times> AuthenticatedTenant result" where
  "AuthenticatedTenantService_Resolve error_text service s r =
     (case Tenant_sessions service r of
        Inl err \<Rightarrow> (s, Inl (Suffixed (Sentinel ErrUnauthenticated) (error_text err)))
      | Inr session \<Rightarrow>
          (case Tenant_users service s (Session_SubjectID session) of
             (s, Inl err) \<Rightarrow> (s, Inl (Wrap ''resolve Consumel user'' err))
           | (s, Inr user) \<Rightarrow>
               (case Tenant_organizations service s (User_ID user) of
                  Inl err \<Rightarrow> (s, Inl (Wrap ''resolve organization access'' err))
                | Inr access \<Rightarrow>
                    (s, Inr \<lparr>Tenant_Session = session, Tenant_User = user, Tenant_OrganizationAccess = access\<rparr>))))"

section \<open>The handler\<close>

text \<open>\<open>uuid_text\<close> is the text form of a UUID.\<close>

record sessionResponse =
  Response_SessionID :: string
  Response_CreatedAt :: instant
  Response_ExpiresAt :: instant

record userResponse =
  Response_UserID :: string

record organizationAccessResponse =
  Response_OrganizationID :: string
  Response_Name :: string
  Response_Owner :: bool
  Response_RoleID :: string
  Response_RoleName :: string
  Response_RoleSystemKey :: "string option"

record accountResponse =
  Response_Session :: sessionResponse
  Response_User :: userResponse
  Response_Organizations :: "organizationAccessResponse list"

text \<open>What \<open>encoding/json\<close> makes of them: the members in order, under the names of their tags.\<close>

definition session_json :: "sessionResponse \<Rightarrow> json" where
  "session_json s =
     JObject
       [(''id'', JString (Response_SessionID s)), (''createdAt'', JTime (Response_CreatedAt s)),
        (''expiresAt'', JTime (Response_ExpiresAt s))]"

definition user_json :: "userResponse \<Rightarrow> json" where
  "user_json u = JObject [(''id'', JString (Response_UserID u))]"

definition access_json :: "organizationAccessResponse \<Rightarrow> json" where
  "access_json a =
     JObject
       [(''id'', JString (Response_OrganizationID a)), (''name'', JString (Response_Name a)),
        (''owner'', JBool (Response_Owner a)), (''roleId'', JString (Response_RoleID a)),
        (''roleName'', JString (Response_RoleName a)),
        (''roleSystemKey'', case Response_RoleSystemKey a of None \<Rightarrow> JNull | Some key \<Rightarrow> JString key)]"

definition account_json :: "accountResponse \<Rightarrow> json" where
  "account_json r =
     JObject
       [(''session'', session_json (Response_Session r)), (''user'', user_json (Response_User r)),
        (''organizations'', JArray (map access_json (Response_Organizations r)))]"

definition access_response :: "(uuid \<Rightarrow> string) \<Rightarrow> OrganizationAccess \<Rightarrow> organizationAccessResponse" where
  "access_response uuid_text access =
     (let systemKey = (case Access_RoleSystemKey access of None \<Rightarrow> None | Some (Role_key value) \<Rightarrow> Some value)
      in \<lparr>Response_OrganizationID = uuid_text (Access_OrganizationID access), Response_Name = Access_OrganizationName access,
          Response_Owner = Access_Owner access, Response_RoleID = uuid_text (Access_RoleID access),
          Response_RoleName = Access_RoleName access, Response_RoleSystemKey = systemKey\<rparr>)"

definition account_response :: "(uuid \<Rightarrow> string) \<Rightarrow> AuthenticatedTenant \<Rightarrow> accountResponse" where
  "account_response uuid_text tenant =
     \<lparr>Response_Session =
        \<lparr>Response_SessionID = Session_ID (Tenant_Session tenant), Response_CreatedAt = Session_CreatedAt (Tenant_Session tenant),
         Response_ExpiresAt = Session_ExpiresAt (Tenant_Session tenant)\<rparr>,
      Response_User = \<lparr>Response_UserID = uuid_text (User_ID (Tenant_User tenant))\<rparr>,
      Response_Organizations = map (access_response uuid_text) (Tenant_OrganizationAccess tenant)\<rparr>"

definition account_body :: "(uuid \<Rightarrow> string) \<Rightarrow> AuthenticatedTenant \<Rightarrow> json" where
  "account_body uuid_text tenant = account_json (account_response uuid_text tenant)"

lemmas account_body_parts = account_body_def account_json_def account_response_def session_json_def user_json_def

text \<open>The data behind the routes: the limiter's keyspace and the tables.\<close>

record 'r api = metered +
  redis_keys :: 'r
  tenancy :: tables

definition AccountHandler_Get ::
  "(uuid \<Rightarrow> string) \<Rightarrow> (tables \<Rightarrow> request \<Rightarrow> tables \<times> AuthenticatedTenant result) \<Rightarrow> 'r api \<Rightarrow> 'r api" where
  "AccountHandler_Get uuid_text resolver c =
     (case resolver (tenancy c) (req c) of
        (db, Inl err) \<Rightarrow>
          (let c = c\<lparr>tenancy := db\<rparr>
           in if errors_is err ErrUnauthenticated
              then fst (WriteError c 401 ''unauthenticated'' ''Sign in to access your Consumel account.'')
              else
                (let c = log_to
                       \<lparr>log_level = LevelError, log_message = ''Could not load user account'',
                        log_attrs = [(''event'', AString ''user.account.load.failed''), (''operation'', AString ''user.account.load''),
                                     (''outcome'', AString ''error''), (''error'', AError err)]\<rparr> c
                 in fst (WriteError c 500 ''account_load_failed'' ''Consumel could not load your account. Try again shortly.'')))
      | (db, Inr tenant) \<Rightarrow>
          (let c = c\<lparr>tenancy := db\<rparr>;
               c = AddRequestLogAttributes
                     [(''user_id'', AString (uuid_text (User_ID (Tenant_User tenant)))),
                      (''organization_count'', AInt (int (length (Tenant_OrganizationAccess tenant))))] c
           in case WriteJSON c 200 (account_body uuid_text tenant) of
                (c, None) \<Rightarrow> c
              | (c, Some err) \<Rightarrow>
                  log_to
                    \<lparr>log_level = LevelError, log_message = ''Could not send user account response'',
                     log_attrs = [(''event'', AString ''user.account.response.failed''), (''operation'', AString ''user.account.respond''),
                                  (''outcome'', AString ''error''), (''error'', AError err)]\<rparr> c))"

section \<open>Resolving the tenant\<close>

text \<open>
  What the tenant service relies on: a resolved user is the known user of the subject, the access
  list is the one stored for the user, and no failure of either is the service's own sentinel.
\<close>

locale tenant_sources =
  fixes resolve_user :: "'s \<Rightarrow> string \<Rightarrow> 's \<times> User result"
    and active_access :: "'s \<Rightarrow> uuid \<Rightarrow> OrganizationAccess list result"
    and ok :: "'s \<Rightarrow> bool"
    and known :: "'s \<Rightarrow> string \<Rightarrow> User \<Rightarrow> bool"
    and listed :: "'s \<Rightarrow> uuid \<Rightarrow> OrganizationAccess list"
  assumes user_keeps: "ok s \<Longrightarrow> resolve_user s subject = (s', res) \<Longrightarrow> ok s'"
    and user_known: "ok s \<Longrightarrow> resolve_user s subject = (s', Inr u) \<Longrightarrow> known s' subject u"
    and user_error: "ok s \<Longrightarrow> resolve_user s subject = (s', Inl e) \<Longrightarrow> \<not> errors_is e ErrUnauthenticated"
    and access_listed: "active_access s i = Inr xs \<Longrightarrow> xs = listed s i"
    and access_error: "ok s \<Longrightarrow> active_access s i = Inl e \<Longrightarrow> \<not> errors_is e ErrUnauthenticated"
begin

lemma resolve_tenant:
  assumes "ok s" "AuthenticatedTenantService_Resolve error_text (NewAuthenticatedTenantService sessions resolve_user active_access) s r = (s', res)"
  shows "ok s'"
    and "res = Inr t \<Longrightarrow> sessions r = Inr (Tenant_Session t) \<and> known s' (Session_SubjectID (Tenant_Session t)) (Tenant_User t) \<and>
      Tenant_OrganizationAccess t = listed s' (User_ID (Tenant_User t))"
    and "res = Inl e \<Longrightarrow> errors_is e ErrUnauthenticated \<longleftrightarrow> (\<exists>e'. sessions r = Inl e')"
    and "sessions r = Inl e' \<Longrightarrow> s' = s \<and> (\<exists>e. res = Inl e)"
  using assms user_keeps [of s] user_known [of s] user_error [of s] access_listed access_error [of s']
  by (auto simp: AuthenticatedTenantService_Resolve_def NewAuthenticatedTenantService_def split: sum.splits prod.splits)

end

text \<open>The sources the server wires up: the user service over its repository, and the access query.\<close>

definition server_users :: "resolve_env \<Rightarrow> uuid result \<Rightarrow> tables \<Rightarrow> string \<Rightarrow> tables \<times> User result" where
  "server_users env newV7 db subject =
     (case UserService_ResolveUser (NewUserService (ResolveUserByAuthlierSubjectID env)) newV7 (users db) subject of
        (rows, res) \<Rightarrow> (db\<lparr>users := rows\<rparr>, res))"

definition server_tenant ::
  "(go_error \<Rightarrow> string) \<Rightarrow> (request \<Rightarrow> (string \<times> string \<times> instant \<times> instant) result) \<Rightarrow> resolve_env \<Rightarrow> uuid result \<Rightarrow>
   go_error option \<Rightarrow> tables \<Rightarrow> request \<Rightarrow> tables \<times> AuthenticatedTenant result" where
  "server_tenant error_text auth env newV7 access_fault =
     AuthenticatedTenantService_Resolve error_text
       (NewAuthenticatedTenantService (AuthlierSessionResolver_ResolveSession auth) (server_users env newV7)
          (ActiveOrganizationAccessByUser access_fault))"

text \<open>Failures of the database, the connection or the id generator are not the server's own sentinel.\<close>

definition foreign :: "go_error option \<Rightarrow> bool" where
  "foreign e \<longleftrightarrow> (case e of None \<Rightarrow> True | Some err \<Rightarrow> \<not> errors_is err ErrUnauthenticated)"

definition foreign_faults :: "resolve_env \<Rightarrow> uuid result \<Rightarrow> go_error option \<Rightarrow> bool" where
  "foreign_faults env newV7 access_fault \<longleftrightarrow>
     foreign (find_error env) \<and> foreign (again_error env) \<and> foreign access_fault \<and>
     (case resolve_link env of Answered \<Rightarrow> True | Lost_before e \<Rightarrow> foreign (Some e) | Lost_after e \<Rightarrow> foreign (Some e)) \<and>
     (case newV7 of Inl e \<Rightarrow> foreign (Some e) | Inr _ \<Rightarrow> True)"

lemma consistent_users:
  assumes "consistent lower db" "extends (users db) rows"
  shows "consistent lower (db\<lparr>users := rows\<rparr>)"
proof -
  have "u_id ` set (users db) \<subseteq> u_id ` set rows" "users_unique rows"
    using assms(2) by (auto simp: extends_def)
  with assms(1) show ?thesis by (auto simp: consistent_def) 
qed

lemma server_users_cases:
  assumes "well_behaved env" "users_unique (users db)" "server_users env newV7 db subject = (db', res)"
  obtains rows where "db' = db\<lparr>users := rows\<rparr>" "extends (users db) rows"
    "\<And>u. res = Inr u \<Longrightarrow> resolved_in rows (TrimSpace subject) u"
proof -
  obtain rows where run: "UserService_ResolveUser (NewUserService (ResolveUserByAuthlierSubjectID env)) newV7 (users db) subject = (rows, res)"
    and db': "db' = db\<lparr>users := rows\<rparr>"
    using assms(3) by (auto simp: server_users_def split: prod.splits)
  show ?thesis
  proof (cases "TrimSpace subject = [] \<or> (\<exists>e. newV7 = Inl e)")
    case True
    with run have "rows = users db \<and> (\<exists>e. res = Inl e)"
      by (auto simp: UserService_ResolveUser_def Let_def ids_new_def split: if_splits)
    with db' extends_refl [OF assms(2)] show ?thesis by (intro that [of rows]) auto
  next
    case False
    then obtain i where i: "newV7 = Inr i" by (cases newV7) auto
    let ?user = "\<lparr>User_ID = i, User_AuthlierSubjectID = TrimSpace subject, User_CreatedAt = zero_time\<rparr>"
    have call: "ResolveUserByAuthlierSubjectID env (users db) ?user = (rows, res)"
      using run False i by (simp add: UserService_ResolveUser_def Let_def ids_new_def)
    have "not_blank (User_AuthlierSubjectID ?user)" using False by (simp add: not_blank_TrimSpace)
    from resolve_user(1,2) [OF assms(1,2) this call] db' show ?thesis by (intro that [of rows]) simp_all
  qed
qed

lemma no_rows_foreign: "\<not> errors_is (Sentinel pgx_ErrNoRows) ErrUnauthenticated" "\<not> errors_is (violation t) ErrUnauthenticated"
  by (simp_all add: pgx_ErrNoRows_def ErrUnauthenticated_def violation_def)

lemma server_users_error:
  assumes "foreign_faults env newV7 access_fault" "server_users env newV7 db subject = (db', Inl e)"
  shows "\<not> errors_is e ErrUnauthenticated"
proof -
  obtain rows where run: "UserService_ResolveUser (NewUserService (ResolveUserByAuthlierSubjectID env)) newV7 (users db) subject = (rows, Inl e)"
    using assms(2) by (auto simp: server_users_def split: prod.splits)
  have get: "\<not> errors_is e ErrUnauthenticated" if "GetUserByAuthlierSubjectID t s = Inl e" for t s e
    using that no_rows_foreign by (auto simp: GetUserByAuthlierSubjectID_def one_row_def split: list.splits)
  have stmt: "\<not> errors_is e ErrUnauthenticated" if "snd (ResolveUser_statement now snap t i s) = Inl e" for now snap t i s e
    using that no_rows_foreign
    by (auto simp: ResolveUser_statement_def ResolveUser_insert_def one_row_def Let_def split: list.splits if_splits sum.splits)
  have faults: "\<not> errors_is e ErrUnauthenticated" if "or_error f (GetUserByAuthlierSubjectID t s) = Inl e" "foreign f" for f t s e
    using that get by (auto simp: or_error_def foreign_def split: option.splits)
  have outcome: "\<not> errors_is e ErrUnauthenticated"
    if "Eval (resolve_link env) (\<lambda>rows. ResolveUser_statement now snap rows i s) t = (t', out)" "flatten out = Inl e" for now snap i s t t' out e
    using that assms(1) stmt [of now snap t i s e]
    by (cases "resolve_link env") (auto simp: Eval_def flatten_def foreign_faults_def foreign_def split: prod.splits)
  have "\<not> errors_is e ErrUnauthenticated" if "ResolveUserByAuthlierSubjectID env t u = (t', Inl e)" for t u t' e
    using that assms(1) faults [where f = "find_error env"] faults [where f = "again_error env"] outcome
    by (auto simp: ResolveUserByAuthlierSubjectID_def Let_def foreign_faults_def split: sum.splits prod.splits if_splits)
  then show ?thesis
    using run assms(1)
    by (auto simp: UserService_ResolveUser_def Let_def ids_new_def foreign_faults_def foreign_def ErrAuthlierSubjectIDRequired_def
        ErrUnauthenticated_def split: if_splits sum.splits)
qed

lemma server_access_error:
  "foreign f \<Longrightarrow> ActiveOrganizationAccessByUser f db i = Inl e \<Longrightarrow> \<not> errors_is e ErrUnauthenticated"
  by (auto simp: ActiveOrganizationAccessByUser_def or_error_def foreign_def split: option.splits)

interpretation server: tenant_sources "server_users env newV7" "ActiveOrganizationAccessByUser access_fault"
  "\<lambda>db. consistent lower db \<and> well_behaved env \<and> foreign_faults env newV7 access_fault"
  "\<lambda>db subject u. resolved_in (users db) (TrimSpace subject) u"
  "\<lambda>db i. map access_of (ListActiveOrganizationAccessByUser_statement db i)"
proof unfold_locales
  fix db db' subject res u e i xs
  let ?ok = "\<lambda>db. consistent lower db \<and> well_behaved env \<and> foreign_faults env newV7 access_fault"
  show "?ok db'" if "?ok db" "server_users env newV7 db subject = (db', res)"
  proof -
    have "users_unique (users db)" "well_behaved env" using that(1) by (simp_all add: consistent_def)
    with that show ?thesis by (elim server_users_cases) (auto intro: consistent_users)
  qed
  show "resolved_in (users db') (TrimSpace subject) u" if "?ok db" "server_users env newV7 db subject = (db', Inr u)"
  proof -
    have "users_unique (users db)" "well_behaved env" using that(1) by (simp_all add: consistent_def)
    from server_users_cases [OF this(2,1) that(2)] show ?thesis by (metis tables.select_convs(1) tables.surjective tables.update_convs(1))
  qed
  show "\<not> errors_is e ErrUnauthenticated" if "?ok db" "server_users env newV7 db subject = (db', Inl e)"
    using that server_users_error by blast
  show "xs = map access_of (ListActiveOrganizationAccessByUser_statement db i)"
    if "ActiveOrganizationAccessByUser access_fault db i = Inr xs"
    using that by (simp add: ActiveOrganizationAccessByUser_Inr)
  show "\<not> errors_is e ErrUnauthenticated" if "?ok db" "ActiveOrganizationAccessByUser access_fault db i = Inl e"
    using that server_access_error by (auto simp: foreign_faults_def)
qed

section \<open>The account endpoint\<close>

lemma resolver_results:
  assumes "server_tenant error_text auth env newV7 access_fault db r = (db', res)"
    and "consistent lower db" "well_behaved env" "foreign_faults env newV7 access_fault"
  shows "consistent lower db'"
    and "res = Inr t \<Longrightarrow> AuthlierSessionResolver_ResolveSession auth r = Inr (Tenant_Session t) \<and>
      resolved_in (users db') (TrimSpace (Session_SubjectID (Tenant_Session t))) (Tenant_User t) \<and>
      Tenant_OrganizationAccess t =
        map access_of (ListActiveOrganizationAccessByUser_statement db' (User_ID (Tenant_User t)))"
    and "res = Inl e \<Longrightarrow> errors_is e ErrUnauthenticated \<longleftrightarrow> (\<exists>e'. auth r = Inl e')"
    and "auth r = Inl e' \<Longrightarrow> db' = db \<and> (\<exists>e. res = Inl e)"
proof -
  have ok: "consistent lower db \<and> well_behaved env \<and> foreign_faults env newV7 access_fault" using assms by blast
  note run = server.resolve_tenant [OF ok assms(1) [unfolded server_tenant_def]]
  have sessions: "(\<exists>e'. AuthlierSessionResolver_ResolveSession auth r = Inl e') \<longleftrightarrow> (\<exists>e'. auth r = Inl e')"
    by (auto simp: AuthlierSessionResolver_ResolveSession_def split: sum.splits)
  show "consistent lower db'" using run(1) by blast
  show "AuthlierSessionResolver_ResolveSession auth r = Inr (Tenant_Session t) \<and>
      resolved_in (users db') (TrimSpace (Session_SubjectID (Tenant_Session t))) (Tenant_User t) \<and>
      Tenant_OrganizationAccess t =
        map access_of (ListActiveOrganizationAccessByUser_statement db' (User_ID (Tenant_User t)))" if "res = Inr t"
    using run(2) [OF that] .
  show "errors_is e ErrUnauthenticated \<longleftrightarrow> (\<exists>e'. auth r = Inl e')" if "res = Inl e"
    using run(3) [OF that] sessions by blast
  show "db' = db \<and> (\<exists>e. res = Inl e)" if "auth r = Inl e'"
    using run(4) [of e'] that by (simp add: AuthlierSessionResolver_ResolveSession_def)
qed

text \<open>
  \<open>healthy\<close>: none of the statements fails, and an id is generated that no user has when the user is
  inserted. With it, a session whose subject is not blank is resolved.
\<close>

definition healthy :: "resolve_env \<Rightarrow> uuid result \<Rightarrow> go_error option \<Rightarrow> tables \<Rightarrow> bool" where
  "healthy env newV7 access_fault db \<longleftrightarrow>
     fault_free env \<and> access_fault = None \<and>
     (case newV7 of Inl e \<Rightarrow> False | Inr i \<Rightarrow> i \<notin> u_id ` set (table_at_insert env (users db)))"

lemma healthy_resolves:
  assumes "well_behaved env" "users_unique (users db)" "healthy env newV7 access_fault db"
    and auth: "auth r = Inr (session_id, subject, created, expires)" and subject: "TrimSpace subject \<noteq> []"
  obtains db' t where "server_tenant error_text auth env newV7 access_fault db r = (db', Inr t)"
proof -
  obtain i where i: "newV7 = Inr i" "i \<notin> u_id ` set (table_at_insert env (users db))" "fault_free env" "access_fault = None"
    using assms(3) by (auto simp: healthy_def split: sum.splits)
  let ?user = "\<lparr>User_ID = i, User_AuthlierSubjectID = TrimSpace subject, User_CreatedAt = zero_time\<rparr>"
  obtain rows res where run: "ResolveUserByAuthlierSubjectID env (users db) ?user = (rows, res)" by (metis prod.exhaust)
  have "not_blank (User_AuthlierSubjectID ?user)" using subject by (simp add: not_blank_TrimSpace)
  from resolve_user(3) [OF assms(1,2) this run] i obtain u where "res = Inr u" by auto
  with run i subject have "server_users env newV7 db subject = (db\<lparr>users := rows\<rparr>, Inr u)"
    by (simp add: server_users_def UserService_ResolveUser_def Let_def ids_new_def)
  with auth i(4) that show thesis
    by (auto simp: server_tenant_def AuthenticatedTenantService_Resolve_def NewAuthenticatedTenantService_def
        AuthlierSessionResolver_ResolveSession_def ActiveOrganizationAccessByUser_def or_error_def)
qed

lemma encodable_account:
  "encodable (account_body uuid_text t) \<longleftrightarrow>
     encodable_time (Session_CreatedAt (Tenant_Session t)) \<and> encodable_time (Session_ExpiresAt (Tenant_Session t))"
proof -
  have "encodable (access_json (access_response uuid_text a))" for a
    by (simp add: access_json_def access_response_def Let_def split: option.split OrganizationRoleSystemKey.split)
  then show ?thesis by (simp add: account_body_parts list_all_iff)
qed

lemma WriteError_data [simp]: "tenancy (fst (WriteError c code e m)) = tenancy c" "redis_keys (fst (WriteError c code e m)) = redis_keys c"
  by (simp_all add: WriteError_def WriteJSON_unfold write_status_def set_header_def Let_def)

lemma log_to_fields [simp]:
  "status (log_to l c) = status c" "body (log_to l c) = body c" "req (log_to l c) = req c"
  "tenancy (log_to l c') = tenancy c'" "redis_keys (log_to l c') = redis_keys c'"
  "header_of (log_to l c) k = header_of c k" "ctx_log (log_to l c) = ctx_log c"
  by (simp_all add: log_to_def header_of_def)

lemma AddRequestLogAttributes_fields [simp]:
  "status (AddRequestLogAttributes a c) = status c" "body (AddRequestLogAttributes a c) = body c"
  "req (AddRequestLogAttributes a c) = req c" "tenancy (AddRequestLogAttributes a c') = tenancy c'"
  "header_of (AddRequestLogAttributes a c) k = header_of c k"
  by (simp_all add: AddRequestLogAttributes_def header_of_def split: option.splits)

lemma AccountHandler_Get_error:
  assumes "resolver (tenancy c) (req c) = (db, Inl e)"
  shows "AccountHandler_Get uuid_text resolver c =
    (if errors_is e ErrUnauthenticated
     then fst (WriteError (c\<lparr>tenancy := db\<rparr>) 401 ''unauthenticated'' ''Sign in to access your Consumel account.'')
     else fst (WriteError (log_to
                    \<lparr>log_level = LevelError, log_message = ''Could not load user account'',
                     log_attrs = [(''event'', AString ''user.account.load.failed''), (''operation'', AString ''user.account.load''),
                                  (''outcome'', AString ''error''), (''error'', AError e)]\<rparr> (c\<lparr>tenancy := db\<rparr>)) 500
            ''account_load_failed'' ''Consumel could not load your account. Try again shortly.''))"
  using assms by (simp add: AccountHandler_Get_def Let_def)

lemma AccountHandler_Get_tenant:
  assumes "resolver (tenancy c) (req c) = (db, Inr t)" "body c = None"
  shows "status (AccountHandler_Get uuid_text resolver c) = 200" "tenancy (AccountHandler_Get uuid_text resolver c) = db"
    "body (AccountHandler_Get uuid_text resolver c) =
       (if encodable (account_body uuid_text t) then Some (Json (account_body uuid_text t)) else None)"
  using assms
  by (simp_all add: AccountHandler_Get_def Let_def WriteJSON_unfold write_status_def set_header_def split: option.splits)

text \<open>
  C27. The account endpoint shows a session its own user and nobody else. Without a session the
  answer is 401 and nothing is touched. With one it is 200 with the session, the stored user of
  the session's subject (created on first access) and exactly that user's active organizations. The
  only other answer is 500, and it is given only when a statement of the database or the id
  generator failed, the generated id was taken, or the subject is blank. The tables stay consistent.
\<close>

theorem account_is_that_of_the_session:
  assumes "consistent lower (tenancy c)" "well_behaved env" "foreign_faults env newV7 access_fault" "body c = None"
  shows "consistent lower (tenancy (AccountHandler_Get uuid_text (server_tenant error_text auth env newV7 access_fault) c)) \<and>
    (case auth (req c) of
       Inl e \<Rightarrow>
         status (AccountHandler_Get uuid_text (server_tenant error_text auth env newV7 access_fault) c) = 401 \<and>
         tenancy (AccountHandler_Get uuid_text (server_tenant error_text auth env newV7 access_fault) c) = tenancy c
     | Inr (session_id, subject, created, expires) \<Rightarrow>
         status (AccountHandler_Get uuid_text (server_tenant error_text auth env newV7 access_fault) c) = 500 \<and>
         (TrimSpace subject = [] \<or> \<not> healthy env newV7 access_fault (tenancy c)) \<or>
         status (AccountHandler_Get uuid_text (server_tenant error_text auth env newV7 access_fault) c) = 200 \<and>
         (\<exists>user db. db = tenancy (AccountHandler_Get uuid_text (server_tenant error_text auth env newV7 access_fault) c) \<and>
            resolved_in (users db) (TrimSpace subject) user \<and>
            body (AccountHandler_Get uuid_text (server_tenant error_text auth env newV7 access_fault) c) =
              (if encodable_time created \<and> encodable_time expires
               then Some (Json (account_body uuid_text
                 \<lparr>Tenant_Session = \<lparr>Session_ID = session_id, Session_SubjectID = subject, Session_CreatedAt = created,
                    Session_ExpiresAt = expires\<rparr>,
                  Tenant_User = user,
                  Tenant_OrganizationAccess = map access_of (ListActiveOrganizationAccessByUser_statement db (User_ID user))\<rparr>))
               else None)))"
proof -
  obtain db res where run: "server_tenant error_text auth env newV7 access_fault (tenancy c) (req c) = (db, res)"
    by (metis prod.exhaust)
  note results = resolver_results [OF run assms(1-3)]
  let ?c = "AccountHandler_Get uuid_text (server_tenant error_text auth env newV7 access_fault) c"
  show ?thesis
  proof (cases res)
    case (Inl e)
    with run have "server_tenant error_text auth env newV7 access_fault (tenancy c) (req c) = (db, Inl e)" by simp
    note c = AccountHandler_Get_error [where resolver = "server_tenant error_text auth env newV7 access_fault" and c = c, OF this, of uuid_text]
    show ?thesis
    proof (cases "auth (req c)")
      case (Inl e')
      with results(3) [OF \<open>res = Inl e\<close>] results(4) have "errors_is e ErrUnauthenticated" "db = tenancy c" by auto
      with Inl assms c show ?thesis by (simp add: WriteError_fields)
    next
      case (Inr session)
      obtain session_id subject created expires where session: "session = (session_id, subject, created, expires)"
        by (metis prod.exhaust)
      have "TrimSpace subject = [] \<or> \<not> healthy env newV7 access_fault (tenancy c)"
      proof (rule ccontr)
        assume "\<not> (TrimSpace subject = [] \<or> \<not> healthy env newV7 access_fault (tenancy c))"
        then have "healthy env newV7 access_fault (tenancy c)" "TrimSpace subject \<noteq> []" by simp_all
        moreover have "users_unique (users (tenancy c))" "auth (req c) = Inr (session_id, subject, created, expires)"
          using assms(1) Inr session by (simp_all add: consistent_def)
        ultimately obtain db' t where "server_tenant error_text auth env newV7 access_fault (tenancy c) (req c) = (db', Inr t)"
          using healthy_resolves [where env = env and auth = auth and r = "req c" and error_text = error_text] assms(2) by metis
        with run \<open>res = Inl e\<close> show False by simp
      qed
      moreover from results(3) [OF \<open>res = Inl e\<close>] Inr have "\<not> errors_is e ErrUnauthenticated" by auto
      ultimately show ?thesis using Inr session assms c results(1) by (simp add: WriteError_fields)
    qed
  next
    case (Inr t)
    note t = results(2) [OF Inr]
    obtain session_id subject created expires where auth: "auth (req c) = Inr (session_id, subject, created, expires)"
      using t by (cases "auth (req c)") (auto simp: AuthlierSessionResolver_ResolveSession_def)
    have tenant: "t = \<lparr>Tenant_Session = \<lparr>Session_ID = session_id, Session_SubjectID = subject, Session_CreatedAt = created,
                    Session_ExpiresAt = expires\<rparr>, Tenant_User = Tenant_User t,
        Tenant_OrganizationAccess = map access_of (ListActiveOrganizationAccessByUser_statement db (User_ID (Tenant_User t)))\<rparr>"
      using t auth by (simp add: AuthlierSessionResolver_ResolveSession_def)
    have session: "Tenant_Session t = \<lparr>Session_ID = session_id, Session_SubjectID = subject, Session_CreatedAt = created,
        Session_ExpiresAt = expires\<rparr>"
      using t auth by (simp add: AuthlierSessionResolver_ResolveSession_def)
    then have times: "encodable (account_body uuid_text t) \<longleftrightarrow> encodable_time created \<and> encodable_time expires"
      and user: "resolved_in (users db) (TrimSpace subject) (Tenant_User t)"
      using t by (simp_all add: encodable_account)
    from run Inr have "server_tenant error_text auth env newV7 access_fault (tenancy c) (req c) = (db, Inr t)" by simp
    note answered = AccountHandler_Get_tenant [where resolver = "server_tenant error_text auth env newV7 access_fault" and c = c, OF this assms(4), of uuid_text]
    have "status ?c = 200" "tenancy ?c = db"
      "body ?c = (if encodable_time created \<and> encodable_time expires then Some (Json (account_body uuid_text t)) else None)"
      using answered unfolding times by blast+
    note answer = this
    show ?thesis
      unfolding auth sum.case prod.case answer
      using results(1) user answer(3) tenant by metis
  qed
qed


definition sample_request :: "string \<Rightarrow> string \<Rightarrow> string \<Rightarrow> request" where
  "sample_request method path route =
     \<lparr>req_method = method, req_path = path, req_route = route, req_header = (\<lambda>_. []), req_ip = ''10.0.0.1'',
      req_write_error = None\<rparr>"

definition sample_context :: "request \<Rightarrow> 'r \<Rightarrow> tables \<Rightarrow> 'r api" where
  "sample_context r keys db =
     \<lparr>req = r, headers = [], status = 200, body = None, ctx_id = [], ctx_span = None, ctx_log = None, logs = [],
      active = 0, requests = [], durations = [], errors = [], spans = [], redis_keys = keys, tenancy = db\<rparr>"

definition sample_auth :: "request \<Rightarrow> (string \<times> string \<times> instant \<times> instant) result" where
  "sample_auth r = Inr (''session'', '' subject'', 5, 7)"

definition sample_account :: "nat api" where
  "sample_account =
     AccountHandler_Get (\<lambda>_. ''id'') (server_tenant (\<lambda>_. ''error'') sample_auth raced (Inr 9) None)
       (sample_context (sample_request ''GET'' ''/account'' ''/account'') 0 sample_tables)"

lemma account_is_that_of_the_session_witness:
  "consistent (\<lambda>s. s) (tenancy sample_account) \<and> status sample_account = 200 \<and>
   (\<exists>user. resolved_in (users (tenancy sample_account)) (TrimSpace '' subject'') user)"
proof -
  have ok: "consistent (\<lambda>s. s) (tenancy (sample_context r k sample_tables :: nat api))"
    "body (sample_context r k sample_tables :: nat api) = None" for r k
    using sample_tables_consistent by (simp_all add: sample_context_def)
  have faults: "foreign_faults raced (Inr 9) None"
    by (simp add: foreign_faults_def foreign_def raced_def quiet_def)
  have "TrimSpace '' subject'' \<noteq> []" "9 \<notin> u_id ` set (table_at_insert raced (users sample_tables))" by code_simp+
  then have "TrimSpace '' subject'' \<noteq> [] \<and> healthy raced (Inr 9) None sample_tables"
    by (simp add: healthy_def fault_free_def raced_def quiet_def)
  with account_is_that_of_the_session [OF ok(1) raced_well_behaved faults ok(2), where auth = sample_auth
      and error_text = "\<lambda>_. ''error''" and uuid_text = "\<lambda>_. ''id''"
      and r1 = "sample_request ''GET'' ''/account'' ''/account''" and k1 = 0]
  show ?thesis unfolding sample_account_def [symmetric] by (auto simp: sample_auth_def sample_context_def)
qed

text \<open>
  Every account body the server sends fits the \<open>Account\<close> schema of the contract it publishes,
  whatever the tenant: all members are there, no other is, and each has its documented type.
\<close>

theorem account_bodies_keep_the_contract:
  "described matches ''Account'' (account_body uuid_text t)"
proof -
  have role: "conforms (Suc n) matches Document (JObject [(''type'', JArray [JString ''string'', JString ''null''])])
      (case k of None \<Rightarrow> JNull | Some key \<Rightarrow> JString key)" for n k
    by (simp split: option.split add: conforms_typed del: conforms.simps)
  have "conforms 5 matches Document (schemaReference ''OrganizationAccess'') (access_json a)" for a
    unfolding access_json_def
    by (simp add: eval_nat_numeral conforms_reference account_schemas conforms_object conforms_typed role del: conforms.simps)
  then show ?thesis
    unfolding described_def account_body_parts
    by (simp add: eval_nat_numeral conforms_reference account_schemas conforms_object conforms_typed conforms_array
        list_all_iff del: conforms.simps)
qed

end
