(* ===== verification/Traffic.thy ===== *)
theory Traffic
  imports Accounts Rate_Limit_Properties
begin

text \<open>
  The traffic limit of the authentication routes: \<open>internal/authentication/handlers/rate_limit.go\<close>.
  A run of requests through it is a run of limiter calls, so the limiter's hard limit bounds the
  requests an address gets through.
\<close>

section \<open>The traffic limit\<close>

definition authReadPerIPLimit :: rule where
  "authReadPerIPLimit = \<lparr>ImmediateRequests = 60, RestoreImmediateRequestsOver = minute, MaximumRequests = 300,
     MaximumWindow = 5 * minute\<rparr>"

definition authWritePerIPLimit :: rule where
  "authWritePerIPLimit = \<lparr>ImmediateRequests = 20, RestoreImmediateRequestsOver = minute, MaximumRequests = 100,
     MaximumWindow = 5 * minute\<rparr>"

definition requestIP :: "string \<Rightarrow> string" where
  "requestIP v = (let v = TrimSpace v in if v = [] then ''unknown'' else v)"

definition retryAfterSeconds :: "decision \<Rightarrow> int" where
  "retryAfterSeconds d = max 1 (trunc_div (wrap64 (RetryAfter d + second - 1)) second)"

definition RateLimitRequests :: "'r RedisLimiter \<Rightarrow> call_env \<Rightarrow> ('r api \<Rightarrow> 'r api) \<Rightarrow> 'r api \<Rightarrow> 'r api" where
  "RateLimitRequests l env next c =
     (let (rule, op) = (if req_method (req c) = ''GET'' then (authReadPerIPLimit, ''read'') else (authWritePerIPLimit, ''write''))
      in case Allow l env (redis_keys c) (''authentication.http.'' @ op) ''ip'' (requestIP (req_ip (req c))) rule of
           (r, decision, err) \<Rightarrow>
             (let c = c\<lparr>redis_keys := r\<rparr>
              in case err of
                   None \<Rightarrow> next c
                 | Some e \<Rightarrow>
                     if errors_is e ErrLimitExceeded
                     then
                       (let c = gin_header ''Retry-After'' (Itoa (retryAfterSeconds decision)) c
                        in fst (WriteError c 429 ''rate_limit_exceeded''
                                  ''Too many authentication requests. Wait before trying again.''))
                     else
                       next (log_to
                         \<lparr>log_level = LevelWarn, log_message = ''authentication request rate limit unavailable'',
                          log_attrs = [(''event'', AString ''authentication.rate_limit.unavailable''), (''operation'', AString op),
                                       (''method'', AString (ToUpper (req_method (req c)))),
                                       (''outcome'', AString ''allowed_without_rate_limit''), (''error'', AError e)]\<rparr> c)))"

section \<open>One request\<close>

definition traffic_call :: "call_env \<Rightarrow> int \<Rightarrow> request \<Rightarrow> limiter_call" where
  "traffic_call env served r =
     (let (rule, op) = (if req_method r = ''GET'' then (authReadPerIPLimit, ''read'') else (authWritePerIPLimit, ''write''))
      in \<lparr>c_operation = ''authentication.http.'' @ op, c_dimension = ''ip'', c_identity = requestIP (req_ip r), c_rule = rule,
          c_env = env, c_served = served\<rparr>)"

lemma RateLimitRequests_cases:
  assumes "invoke l (redis_keys c) (traffic_call env served (req c)) = (r, d, err)"
  shows "err = None \<Longrightarrow> RateLimitRequests l env next c = next (c\<lparr>redis_keys := r\<rparr>)"
    and "err = Some (Sentinel ErrLimitExceeded) \<Longrightarrow> RateLimitRequests l env next c =
      fst (WriteError (gin_header ''Retry-After'' (Itoa (retryAfterSeconds d)) (c\<lparr>redis_keys := r\<rparr>)) 429
        ''rate_limit_exceeded'' ''Too many authentication requests. Wait before trying again.'')"
  using assms by (auto simp: RateLimitRequests_def traffic_call_def invoke_def Let_def split: if_splits)

text \<open>A reachable limiter gives one of its two verdicts.\<close>

lemma invoke_verdict:
  assumes "reaches c" "link (c_env c) = Answered"
  obtains r d where "invoke l s c = (r, d, if Allowed d then None else Some (Sentinel ErrLimitExceeded))"
proof -
  obtain r x y where run: "script_of l s c = (r, [x, y])"
    by (cases "script_of l s c") (simp add: script_of_def hybridLimitScript_def Let_def split: prod.splits)
  show ?thesis
    by (rule that [of r "decision_of [x, y]"]) (simp add: invoke_eval [OF assms(1)] assms(2) Eval_def run)
qed

lemma requestIP_given: "TrimSpace (requestIP ip) = requestIP ip" "requestIP ip \<noteq> []"
proof -
  have "TrimSpace ''unknown'' = ''unknown''" by code_simp
  then show "TrimSpace (requestIP ip) = requestIP ip" by (simp add: requestIP_def Let_def)
  show "requestIP ip \<noteq> []" by (simp add: requestIP_def Let_def)
qed

lemma traffic_rules_usable: "usable_rule authReadPerIPLimit" "usable_rule authWritePerIPLimit"
  by code_simp+

lemma traffic_call_fields [simp]:
  "c_env (traffic_call env served r) = env" "c_served (traffic_call env served r) = served"
  "c_identity (traffic_call env served r) = requestIP (req_ip r)" "c_dimension (traffic_call env served r) = ''ip''"
  "c_rule (traffic_call env served r) = (if req_method r = ''GET'' then authReadPerIPLimit else authWritePerIPLimit)"
  "c_operation (traffic_call env served r) = (if req_method r = ''GET'' then ''authentication.http.read'' else ''authentication.http.write'')"
  by (simp_all add: traffic_call_def)

lemma traffic_call_reaches:
  assumes "random env = Inr bytes" "link env = Answered"
  shows "reaches (traffic_call env served r)"
proof -
  have "TrimSpace ''authentication.http.read'' \<noteq> []" "TrimSpace ''authentication.http.write'' \<noteq> []" "TrimSpace ''ip'' \<noteq> []"
    by code_simp+
  moreover have "validateRule authReadPerIPLimit = None" "validateRule authWritePerIPLimit = None"
    using traffic_rules_usable by (simp_all add: usable_rule_def)
  ultimately show ?thesis
    using assms requestIP_given(2) by (simp add: reaches_def requestIP_given(1))
qed

lemma retryAfterSeconds_positive: "1 \<le> retryAfterSeconds d"
  by (simp add: retryAfterSeconds_def)

lemma retryAfterSeconds_enough:
  assumes "0 \<le> RetryAfter d" "RetryAfter d < 2 ^ 63 - second"
  shows "RetryAfter d \<le> retryAfterSeconds d * second"
proof -
  have "in_int64 (RetryAfter d + second - 1)" using assms by (simp add: in_int64_def second_def)
  then have s: "retryAfterSeconds d = max 1 ((RetryAfter d + second - 1) div second)"
    using assms(1) by (simp add: retryAfterSeconds_def trunc_div_pos second_def)
  have "0 < second" by (simp add: second_def)
  from pos_mod_bound [OF this, of "RetryAfter d + second - 1"] div_mult_mod_eq [of "RetryAfter d + second - 1" second]
  have "RetryAfter d \<le> ((RetryAfter d + second - 1) div second) * second"
    by linarith
  with s show ?thesis by (simp add: second_def)
qed


section \<open>Runs of requests\<close>

text \<open>
  Requests to the account route, in the order the limiter's store serves them, each with a fresh
  response. \<open>arrived_at\<close> is the time of the store.
\<close>

record 'r arrival =
  arriving :: "'r api"
  limit_env :: call_env
  arrived_at :: int

fun account_run ::
  "'r RedisLimiter \<Rightarrow> ('r \<Rightarrow> int \<Rightarrow> 'r) \<Rightarrow> ('r api \<Rightarrow> 'r api) \<Rightarrow> 'r \<Rightarrow> int \<Rightarrow> 'r arrival list \<Rightarrow>
   ('r arrival \<times> 'r api) list" where
  "account_run l elapse get r server [] = []"
| "account_run l elapse get r server (a # as) =
     (let c = RateLimitRequests l (limit_env a) get ((arriving a)\<lparr>redis_keys := elapse r (arrived_at a - server)\<rparr>)
      in (a, c) # account_run l elapse get (redis_keys c) (arrived_at a) as)"

definition arrival_call :: "'r arrival \<Rightarrow> limiter_call" where
  "arrival_call a = traffic_call (limit_env a) (arrived_at a) (req (arriving a))"

text \<open>
  A handler behind the limit that leaves the limiter's keys alone and never answers 429 itself.
\<close>

definition quiet_handler :: "('r api \<Rightarrow> 'r api) \<Rightarrow> bool" where
  "quiet_handler get \<longleftrightarrow> (\<forall>c. body c = None \<longrightarrow> redis_keys (get c) = redis_keys c \<and> status (get c) \<noteq> 429)"

lemma AccountHandler_Get_quiet: "quiet_handler (AccountHandler_Get uuid_text resolver)"
  by (auto simp: quiet_handler_def AccountHandler_Get_def AddRequestLogAttributes_def Let_def WriteError_fields WriteJSON_unfold write_status_def set_header_def
      split: prod.split sum.split option.split)

lemma one_arrival:
  assumes "quiet_handler get" "body c = None" "random env = Inr bytes" "link env = Answered"
    and "invoke l (redis_keys c) (traffic_call env served (req c)) = (r, d, e)"
  shows "redis_keys (RateLimitRequests l env get c) = r"
    and "Allowed d \<longleftrightarrow> status (RateLimitRequests l env get c) \<noteq> 429"
    and "status (RateLimitRequests l env get c) = 429 \<Longrightarrow>
      header_of (RateLimitRequests l env get c) ''Retry-After'' = Itoa (retryAfterSeconds d)"
proof -
  obtain r' d' where "invoke l (redis_keys c) (traffic_call env served (req c)) =
      (r', d', if Allowed d' then None else Some (Sentinel ErrLimitExceeded))"
    by (rule invoke_verdict [OF traffic_call_reaches [OF assms(3,4)]]) (simp_all add: assms(4))
  then have e: "e = (if Allowed d then None else Some (Sentinel ErrLimitExceeded))" using assms(5) by simp
  note run = RateLimitRequests_cases [OF assms(5), of get]
  have quiet: "redis_keys (get (c\<lparr>redis_keys := r\<rparr>)) = r" "status (get (c\<lparr>redis_keys := r\<rparr>)) \<noteq> 429"
    using assms(1,2) by (simp_all add: quiet_handler_def)
  have refused: "body (gin_header k v (c\<lparr>redis_keys := r\<rparr>)) = None" "redis_keys (gin_header k v (c\<lparr>redis_keys := r\<rparr>)) = r" for k v
    using assms(2) by (simp_all add: gin_header_def set_header_def)
  show "redis_keys (RateLimitRequests l env get c) = r"
    "Allowed d \<longleftrightarrow> status (RateLimitRequests l env get c) \<noteq> 429"
    using run quiet refused by (cases "Allowed d"; simp add: e WriteError_fields)+
  show "header_of (RateLimitRequests l env get c) ''Retry-After'' = Itoa (retryAfterSeconds d)"
    if "status (RateLimitRequests l env get c) = 429"
    using that run quiet refused by (cases "Allowed d") (simp_all add: e WriteError_fields)
qed

lemma account_run_is_allow_run:
  assumes "quiet_handler get"
    and "\<forall>a\<in>set as. body (arriving a) = None \<and> (\<exists>bytes. random (limit_env a) = Inr bytes) \<and> link (limit_env a) = Answered"
  shows "map (\<lambda>(a, c). (arrival_call a, status c \<noteq> 429)) (account_run l elapse get r server as) =
    allow_run l elapse r server (map arrival_call as)"
  using assms(2)
proof (induction as arbitrary: r server)
  case (Cons a as)
  let ?c = "(arriving a)\<lparr>redis_keys := elapse r (arrived_at a - server)\<rparr>"
  obtain r' d e where call: "invoke l (redis_keys ?c) (traffic_call (limit_env a) (arrived_at a) (req ?c)) = (r', d, e)"
    by (metis prod.exhaust)
  obtain bytes where "body ?c = None" "random (limit_env a) = Inr bytes" "link (limit_env a) = Answered"
    using Cons.prems by auto
  from one_arrival(1,2) [OF assms(1) this call] call Cons show ?case
    by (simp add: Let_def arrival_call_def)
qed simp

lemma account_run_arrivals: "map fst (account_run l elapse get r server as) = as"
  by (induction as arbitrary: r server) (simp_all add: Let_def)


lemma account_run_retries:
  assumes "quiet_handler get"
    and "\<forall>a\<in>set as. body (arriving a) = None \<and> (\<exists>bytes. random (limit_env a) = Inr bytes) \<and> link (limit_env a) = Answered"
    and "(a, c) \<in> set (account_run l elapse get r server as)" "status c = 429"
  shows "\<exists>n\<ge>1. header_of c ''Retry-After'' = Itoa n"
  using assms(2-4)
proof (induction as arbitrary: r server)
  case (Cons b as)
  let ?c = "(arriving b)\<lparr>redis_keys := elapse r (arrived_at b - server)\<rparr>"
  obtain r' d e where call: "invoke l (redis_keys ?c) (traffic_call (limit_env b) (arrived_at b) (req ?c)) = (r', d, e)"
    by (metis prod.exhaust)
  obtain bytes where "body ?c = None" "random (limit_env b) = Inr bytes" "link (limit_env b) = Answered"
    using Cons.prems by auto
  note one = one_arrival(3) [OF assms(1) this call]
  have rest: "\<forall>a\<in>set as. body (arriving a) = None \<and> (\<exists>bytes. random (limit_env a) = Inr bytes) \<and> link (limit_env a) = Answered"
    using Cons.prems(1) by simp
  from Cons.prems(2) consider "c = RateLimitRequests l (limit_env b) get ?c"
    | r' server' where "(a, c) \<in> set (account_run l elapse get r' server' as)"
    by (auto simp: Let_def)
  then show ?case
    using Cons.IH [OF rest _ Cons.prems(3)] one Cons.prems(3) retryAfterSeconds_positive [of d] by cases blast+
qed simp

definition arrival_ms :: "'r arrival \<Rightarrow> int" where
  "arrival_ms a = UnixMilli (clock (limit_env a))"

lemma arrival_members_distinct:
  assumes reached: "\<forall>a\<in>set as. \<exists>bytes. random (limit_env a) = Inr bytes"
    and distinct: "distinct (map (\<lambda>a. random (limit_env a)) as)"
  shows "distinct (map call_member (filter reaches (map arrival_call as)))"
proof (rule distinct_map_filter)
  have "inj_on (\<lambda>a. call_member (arrival_call a)) (set as)"
  proof (rule inj_onI)
    fix a b assume ab: "a \<in> set as" "b \<in> set as" "call_member (arrival_call a) = call_member (arrival_call b)"
    moreover obtain x y where "random (limit_env a) = Inr x" "random (limit_env b) = Inr y" using ab(1,2) reached by blast
    ultimately have "random (limit_env a) = random (limit_env b)"
      by (auto simp: call_member_def arrival_call_def dest: EncodeToString_inj)
    with ab(1,2) distinct_map_inj [OF distinct] show "a = b" by blast
  qed
  with distinct show "distinct (map call_member (map arrival_call as))" by (simp add: distinct_map o_def)
qed


definition sample_arrival :: "int \<Rightarrow> 8 word \<Rightarrow> mem_redis arrival" where
  "sample_arrival ms b =
     \<lparr>arriving = sample_context (sample_request ''GET'' ''/account'' ''/account'') [] sample_tables,
      limit_env = \<lparr>clock = ms * 1000000, random = Inr [b], link = Answered\<rparr>, arrived_at = ms\<rparr>"

definition sample_arrivals :: "mem_redis arrival list" where
  "sample_arrivals = [sample_arrival 1000 1, sample_arrival 2000 2]"

definition no_session :: "tables \<Rightarrow> request \<Rightarrow> tables \<times> AuthenticatedTenant result" where
  "no_session db r = (db, Inl (Sentinel ErrUnauthenticated))"


end
