(* ===== verification/Cors.thy ===== *)
theory Cors
  imports Http
begin

text \<open>
  Cross-origin requests: \<open>internal/infra/cors/middleware.go\<close>. The middleware stands before every
  other one; a preflight is answered here and goes no further.
\<close>

definition allowedHeaders :: string where
  "allowedHeaders = ''Content-Type''"

definition allowedMethods :: string where
  "allowedMethods = ''GET, POST, DELETE, OPTIONS''"

definition Middleware :: "string list \<Rightarrow> 'd middleware" where
  "Middleware allowedOrigins next c =
     (let origin = req_header (req c) ''Origin'';
          originAllowed = origin \<in> set allowedOrigins;
          c = (if originAllowed
               then gin_header ''Vary'' ''Origin''
                 (gin_header ''Access-Control-Allow-Methods'' allowedMethods
                   (gin_header ''Access-Control-Allow-Headers'' allowedHeaders
                     (gin_header ''Access-Control-Allow-Credentials'' ''true''
                       (gin_header ''Access-Control-Allow-Origin'' origin c))))
               else c)
      in if req_method (req c) \<noteq> ''OPTIONS'' then next c
         else if \<not> originAllowed then write_status 403 c
         else write_status 204 c)"

text \<open>What the middleware adds, and that a preflight does not reach the next handler.\<close>

lemma write_status_fields [simp]:
  "header_of (write_status code c) k = header_of c k" "req (write_status code c) = req c"
  "body (write_status code c) = body c" "logs (write_status code c) = logs c" "gin.more (write_status code c) = gin.more c"
  "ctx_log (write_status code c) = ctx_log c"
  by (simp_all add: write_status_def header_of_def)

lemma write_status_status [simp]: "body c = None \<Longrightarrow> status (write_status code c) = code"
  by (simp add: write_status_def)

definition cors_opened :: "string list \<Rightarrow> 'd handler" where
  "cors_opened allowedOrigins c =
     (if req_header (req c) ''Origin'' \<in> set allowedOrigins
      then gin_header ''Vary'' ''Origin''
        (gin_header ''Access-Control-Allow-Methods'' allowedMethods
          (gin_header ''Access-Control-Allow-Headers'' allowedHeaders
            (gin_header ''Access-Control-Allow-Credentials'' ''true''
              (gin_header ''Access-Control-Allow-Origin'' (req_header (req c) ''Origin'') c))))
      else c)"

lemma Middleware_cases:
  "Middleware origins next c =
     (if req_method (req c) \<noteq> ''OPTIONS'' then next (cors_opened origins c)
      else write_status (if req_header (req c) ''Origin'' \<in> set origins then 204 else 403) (cors_opened origins c))"
  by (simp add: Middleware_def cors_opened_def Let_def)

lemma cors_opened_fields [simp]:
  "req (cors_opened origins c) = req c" "status (cors_opened origins c) = status c" "body (cors_opened origins c) = body c"
  "logs (cors_opened origins c) = logs c" "ctx_log (cors_opened origins c) = ctx_log c" "ctx_id (cors_opened origins c) = ctx_id c"
  "gin.more (cors_opened origins c) = gin.more c"
  by (simp_all add: cors_opened_def)

text \<open>\<open>credentials\<close> is the answer of a browser's check: may the page of \<open>origin\<close> read the response
  of a request sent with credentials?\<close>

definition credentials :: "'d gin_scheme \<Rightarrow> string \<Rightarrow> bool" where
  "credentials c origin \<longleftrightarrow>
     header_of c ''Access-Control-Allow-Origin'' = origin \<and> header_of c ''Access-Control-Allow-Credentials'' = ''true''"

definition cors_silent :: "'d gin_scheme \<Rightarrow> bool" where
  "cors_silent c \<longleftrightarrow> header_of c ''Access-Control-Allow-Origin'' = [] \<and> header_of c ''Access-Control-Allow-Credentials'' = []"

lemma credentials_opened:
  assumes "cors_silent c"
  shows "credentials (cors_opened origins c) origin \<longleftrightarrow>
    origin = req_header (req c) ''Origin'' \<and> origin \<in> set origins"
  using assms by (auto simp: credentials_def cors_silent_def cors_opened_def)

end
