(* ===== verification/Response_Bytes.thy ===== *)
theory Response_Bytes
  imports Go_JSON OpenAPI_Document
begin

text \<open>
  The bytes of the responses: what \<open>WriteJSON\<close> of \<open>internal/common/httpresponse/json.go\<close> sends for a
  body, and the document \<open>internal/openapi/document.go\<close> returns.
\<close>

text \<open>A \<open>map[string]any\<close> is written with its keys sorted.\<close>

fun sorted_maps :: "json \<Rightarrow> json" where
  "sorted_maps (JArray vs) = JArray (map sorted_maps vs)"
| "sorted_maps (JObject entries) = JObject (sort_key fst (map (\<lambda>(k, v). (k, sorted_maps v)) entries))"
| "sorted_maps v = v"

definition document_bytes :: string where
  "document_bytes = MarshalIndent (sorted_maps Document) @ [CHR 0x0A]"

lemma plain_sorted: "plain v \<Longrightarrow> plain (sorted_maps v)"
proof (induction v rule: plain.induct)
  case (4 entries)
  then show ?case by (force simp: list_all_iff)
qed (auto simp: list_all_iff)

section \<open>The document is ASCII\<close>

definition plain_methods :: "(string \<times> json) list \<Rightarrow> bool" where
  "plain_methods methods \<longleftrightarrow> list_all (\<lambda>(k, v). ascii k \<and> plain v) methods"

definition plain_paths :: "(string \<times> (string \<times> json) list) list \<Rightarrow> bool" where
  "plain_paths paths \<longleftrightarrow> list_all (\<lambda>(path, methods). ascii path \<and> plain_methods methods) paths"

lemma plain_operations:
  "list_all (\<lambda>e. ascii (Path e) \<and> ascii (Method e) \<and> plain (operationDocument e)) operations"
  by code_simp

lemma plain_components:
  "plain (JObject schemas)" "plain (JObject errorResponses)"
  by code_simp+

lemma plain_methods_update: "plain_methods methods \<Longrightarrow> ascii k \<Longrightarrow> plain v \<Longrightarrow> plain_methods (AList.update k v methods)"
  using set_update_subset [of k v methods] by (auto simp: plain_methods_def list_all_iff)

lemma plain_add_operation:
  assumes "plain_paths paths" "ascii (Path e)" "ascii (Method e)" "plain (operationDocument e)"
  shows "plain_paths (add_operation e paths)"
proof -
  have "plain_methods (case map_of paths (Path e) of None \<Rightarrow> [] | Some path \<Rightarrow> path)"
  proof (cases "map_of paths (Path e)")
    case (Some path)
    have "ascii (Path e) \<and> plain_methods path"
      using map_of_SomeD [OF Some] assms(1) by (auto simp only: plain_paths_def list_all_iff)
    with Some show ?thesis by simp
  qed (simp add: plain_methods_def)
  from plain_methods_update [OF this assms(3,4)] show ?thesis
    using assms(1,2) set_update_subset [of "Path e" _ paths]
    by (fastforce simp: add_operation_def Let_def plain_paths_def list_all_iff)
qed

lemma plain_document_paths: "plain_paths document_paths"
proof -
  have "plain_paths (fold add_operation es paths)"
    if "list_all (\<lambda>e. ascii (Path e) \<and> ascii (Method e) \<and> plain (operationDocument e)) es" "plain_paths paths" for es paths
    using that by (induction es arbitrary: paths) (auto intro: plain_add_operation)
  then show ?thesis
    using plain_operations by (simp add: document_paths_def operations_sorted plain_paths_def [of "[]"])
qed

lemma plain_Document: "plain Document"
proof -
  have "plain (JObject (map (\<lambda>(path, methods). (path, JObject methods)) document_paths))"
    using plain_document_paths by (auto simp: plain_paths_def plain_methods_def list_all_iff)
  moreover have "ascii s" if "s \<in> {''openapi'', ''3.1.0'', ''info'', ''title'', ''Consumel API'', ''version'', ''0.1.0'', ''description'',
      ''Consumel usage-based billing infrastructure API.'', ''paths'', ''components'', ''securitySchemes'', ''cookieSession'',
      ''type'', ''apiKey'', ''in'', ''cookie'', ''name'', ''consumel_session'', ''schemas'', ''responses''}" for s
    using that by (auto simp: ascii_def)
  ultimately show ?thesis
    using plain_components by (simp add: Document_def del: plain.simps(4)) (simp add: list_all_iff)
qed

lemma plain_encodable: "plain v \<Longrightarrow> encodable v"
proof (induction v rule: plain.induct)
  case (4 entries)
  then show ?case by (force simp: list_all_iff)
qed (auto simp: list_all_iff)

section \<open>The document generator\<close>

text \<open>
  \<open>Document\<close> with the error of its encoding, and \<open>cmd/openapi\<close>, which writes it to a file:
  \<open>write_file\<close> is what writing answers, and the result is what goes to the standard error and the
  exit status.
\<close>

definition published_document :: "string result" where
  "published_document =
     (if encodable (sorted_maps Document) then Inr document_bytes else Inl (Errorf ''encode OpenAPI document''))"

definition generate_main :: "(string \<Rightarrow> string \<Rightarrow> go_error option) \<Rightarrow> go_error option \<times> int" where
  "generate_main write_file =
     (case published_document of
        Inl err \<Rightarrow> (Some err, 1)
      | Inr document \<Rightarrow>
          (case write_file ''internal/openapi/openapi.json'' document of
             Some err \<Rightarrow> (Some err, 1)
           | None \<Rightarrow> (None, 0)))"

lemma document_is_published: "published_document = Inr document_bytes"
  using plain_encodable [OF plain_sorted [OF plain_Document]] by (simp add: published_document_def)

section \<open>What clients read\<close>

text \<open>The published document is read back as the document, its keys sorted.\<close>

lemma document_read_back: "Unmarshal document_bytes = Some (sorted_maps Document)"
  using wire_plain [OF plain_sorted [OF plain_Document]] by (simp add: document_bytes_def Unmarshal_MarshalIndent)


definition sample_response :: gin where
  "sample_response =
     \<lparr>req = \<lparr>req_method = ''GET'', req_path = ''/account'', req_route = ''/account'', req_header = (\<lambda>_. []), req_ip = [],
        req_write_error = None\<rparr>, headers = [(''X-Request-Id'', ''r'')], status = 200, body = None, ctx_id = [],
      ctx_span = None, ctx_log = None, logs = []\<rparr>"


end
