(* ===== verification/Server.thy ===== *)
theory Server
  imports Traffic Cors Health Response_Bytes
begin

text \<open>
  The routes and the server: \<open>cmd/api/router.go\<close>, \<open>internal/authentication/handlers/routes.go\<close> and
  \<open>internal/openapi/routes.go\<close>. It composes the cross-origin middleware, the telemetry, the traffic
  limit and the handlers, and shows what holds of the whole.
\<close>

section \<open>Telemetry behind the middleware\<close>

lemma keeps_telemetry_log: "''duration_ms'' \<notin> fst ` set (log_attrs l) \<Longrightarrow> keeps_telemetry c (log_to l c)"
  by (simp add: keeps_telemetry_def log_to_def keeps_headers_same) (simp add: is_completion_def)

lemma keeps_telemetry_add [simp]: "keeps_telemetry c (AddRequestLogAttributes a c)"
  by (auto simp: keeps_telemetry_def AddRequestLogAttributes_def keeps_headers_same split: option.split)

lemma keeps_telemetry_operation [simp]: "keeps_telemetry c (SetRequestOperation op d c)"
  by (auto simp: keeps_telemetry_def SetRequestOperation_def keeps_headers_same split: option.split)

lemma keeps_telemetry_data [simp]:
  "keeps_telemetry c (c\<lparr>tenancy := db\<rparr>)" "keeps_telemetry c (c\<lparr>redis_keys := r\<rparr>)"
  by (simp_all add: keeps_telemetry_def keeps_headers_same)

lemma keeps_telemetry_header: "k \<notin> set reserved_headers \<Longrightarrow> keeps_telemetry c (gin_header k v c)"
  by (auto simp: keeps_telemetry_def keeps_headers_def)

lemma keeps_telemetry_set_header: "k \<notin> set reserved_headers \<Longrightarrow> keeps_telemetry c (set_header k v c)"
  by (auto simp: keeps_telemetry_def keeps_headers_def) (simp_all add: set_header_def)

lemma handler_headers: "''Content-Type'' \<notin> set reserved_headers" "''Retry-After'' \<notin> set reserved_headers"
  by (simp_all add: reserved_headers_def requestIDHeader_def)

lemmas keeps_telemetry_content = keeps_telemetry_set_header [OF handler_headers(1)]
lemmas keeps_telemetry_retry = keeps_telemetry_header [OF handler_headers(2)]

lemma keeps_telemetry_write_status: "keeps_telemetry c (write_status code c)"
  by (simp add: keeps_telemetry_def write_status_def keeps_headers_same)

lemma keeps_telemetry_body: "keeps_telemetry c (c\<lparr>body := b\<rparr>)"
  by (simp add: keeps_telemetry_def keeps_headers_same)

lemma keeps_telemetry_WriteJSON: "keeps_telemetry c (fst (WriteJSON c code v))"
  unfolding WriteJSON_unfold Let_def
  by (simp add: keeps_telemetry_trans [OF keeps_telemetry_trans [OF keeps_telemetry_content keeps_telemetry_write_status]
      keeps_telemetry_body] keeps_telemetry_trans [OF keeps_telemetry_content keeps_telemetry_write_status])

lemma keeps_telemetry_WriteError [simp]: "keeps_telemetry c (fst (WriteError c code e m))"
  unfolding WriteError_def by (rule keeps_telemetry_WriteJSON)

lemma AccountHandler_Get_keeps: "keeps_telemetry c (AccountHandler_Get uuid_text resolver c)"
proof -
  obtain db res where run: "resolver (tenancy c) (req c) = (db, res)" by (metis prod.exhaust)
  have data: "keeps_telemetry c (c\<lparr>tenancy := db\<rparr>)" by simp
  show ?thesis
  proof (cases res)
    case (Inl e)
    then show ?thesis
      by (auto simp: AccountHandler_Get_def run Let_def intro!: keeps_telemetry_trans [OF data]
          intro: keeps_telemetry_trans [OF keeps_telemetry_log keeps_telemetry_WriteError])
  next
    case (Inr t)
    let ?c = "AddRequestLogAttributes
       [(''user_id'', AString (uuid_text (User_ID (Tenant_User t)))),
        (''organization_count'', AInt (int (length (Tenant_OrganizationAccess t))))] (c\<lparr>tenancy := db\<rparr>)"
    obtain c' e where sent: "WriteJSON ?c 200 (account_body uuid_text t) = (c', e)" by (metis prod.exhaust)
    then have c': "c' = fst (WriteJSON ?c 200 (account_body uuid_text t))" by simp
    have "keeps_telemetry c c'"
      unfolding c' using keeps_telemetry_trans [OF keeps_telemetry_trans [OF data keeps_telemetry_add] keeps_telemetry_WriteJSON] .
    then show ?thesis
      using keeps_telemetry_trans [OF _ keeps_telemetry_log [of _ c']]
      by (auto simp: AccountHandler_Get_def run Inr Let_def sent split: option.split)
  qed
qed

lemma RateLimitRequests_keeps:
  assumes "\<And>c. keeps_telemetry c (next c)"
  shows "keeps_telemetry c (RateLimitRequests l env next c)"
proof -
  have after: "keeps_telemetry c (c\<lparr>redis_keys := r\<rparr>)" for r by simp
  show ?thesis
    by (auto simp: RateLimitRequests_def Let_def split: prod.split option.split
        intro!: keeps_telemetry_trans [OF after]
        intro: assms keeps_telemetry_trans [OF keeps_telemetry_retry keeps_telemetry_WriteError] keeps_telemetry_trans [OF keeps_telemetry_log assms])
qed

section \<open>Routes\<close>

definition ScalarHTML :: "string \<Rightarrow> string" where
  "ScalarHTML documentURL =
     ''<!doctype html>'' @ [CHR 0x0A] @ ''<html lang='' @ [CHR 0x22] @ ''en'' @ [CHR 0x22] @ ''>'' @ [CHR 0x0A] @
     ''<head><meta charset='' @ [CHR 0x22] @ ''utf-8'' @ [CHR 0x22] @ ''><meta name='' @ [CHR 0x22] @ ''viewport'' @
     [CHR 0x22] @ '' content='' @ [CHR 0x22] @ ''width=device-width,initial-scale=1'' @ [CHR 0x22] @ ''><link rel='' @
     [CHR 0x22] @ ''icon'' @ [CHR 0x22] @ '' href='' @ [CHR 0x22] @ ''https://consumel.com/favicon.ico'' @ [CHR 0x22] @
     ''><title>Consumel API Reference</title></head>'' @ [CHR 0x0A] @ ''<body><div id='' @ [CHR 0x22] @ ''app'' @
     [CHR 0x22] @ ''></div><script src='' @ [CHR 0x22] @ ''https://cdn.jsdelivr.net/npm/@scalar/api-reference'' @
     [CHR 0x22] @ ''></script><script>Scalar.createApiReference('#app',{url:'' @ [CHR 0x22] @ documentURL @ [CHR 0x22] @
     '',theme:'default'})</script></body>'' @ [CHR 0x0A] @ ''</html>''"

definition openapi_json :: "'d handler" where
  "openapi_json = gin_data 200 ''application/json; charset=utf-8'' document_bytes"

definition docs :: "'d handler" where
  "docs = gin_data 200 ''text/html; charset=utf-8'' (ScalarHTML ''/openapi.json'')"

text \<open>
  What the routes are built from: the answer to a ping of the database, the limiter with its
  environment, the handler of the authentication library and the resolver of tenants.
\<close>

record 'r deps =
  ping :: "duration \<Rightarrow> go_error option"
  traffic_limiter :: "'r RedisLimiter"
  limiter_env :: call_env
  authlierHandler :: "'r api \<Rightarrow> 'r api"
  uuid_string :: "uuid \<Rightarrow> string"
  tenantResolver :: "tables \<Rightarrow> request \<Rightarrow> tables \<times> AuthenticatedTenant result"

definition authentication_group :: "'r deps \<Rightarrow> ('r api \<Rightarrow> 'r api) \<Rightarrow> 'r api \<Rightarrow> 'r api" where
  "authentication_group d h = RequestTelemetry (RateLimitRequests (traffic_limiter d) (limiter_env d) h)"

text \<open>The route table: methods (\<open>None\<close> for any), pattern and handler.\<close>

definition health_routes :: "'r deps \<Rightarrow> (string option \<times> string \<times> ('r api \<Rightarrow> 'r api)) list" where
  "health_routes d = [(Some ''GET'', ''/health/live'', live), (Some ''GET'', ''/health/ready'', ready (ping d))]"

definition openapi_routes :: "(string option \<times> string \<times> ('r api \<Rightarrow> 'r api)) list" where
  "openapi_routes = [(Some ''GET'', ''/openapi.json'', openapi_json), (Some ''GET'', ''/docs'', docs)]"

definition authentication_routes :: "'r deps \<Rightarrow> (string option \<times> string \<times> ('r api \<Rightarrow> 'r api)) list" where
  "authentication_routes d =
     [(None, ''/auth/*path'', authentication_group d (authlierHandler d)),
      (Some ''GET'', ''/account'', authentication_group d (AccountHandler_Get (uuid_string d) (tenantResolver d))),
      (None, ''/account/*path'', authentication_group d (authlierHandler d))]"

definition routes :: "'r deps \<Rightarrow> (string option \<times> string \<times> ('r api \<Rightarrow> 'r api)) list" where
  "routes d = health_routes d @ openapi_routes @ authentication_routes d"

text \<open>
  gin puts the pattern it matched into \<open>req_route\<close>, and leaves it empty when no route matches;
  such a request gets status 404 after the middlewares.
\<close>

definition dispatch :: "'r deps \<Rightarrow> 'r api \<Rightarrow> 'r api" where
  "dispatch d c =
     (case find (\<lambda>(m, pattern, h). pattern = req_route (req c) \<and> (m = None \<or> m = Some (req_method (req c)))) (routes d) of
        None \<Rightarrow> write_status 404 c
      | Some (m, pattern, h) \<Rightarrow> h c)"

definition newRouter :: "string \<Rightarrow> string list \<Rightarrow> 'r deps \<Rightarrow> telemetry_env \<Rightarrow> 'r api \<Rightarrow> 'r api" where
  "newRouter base_url trusted_origins d env =
     Middleware (base_url # trusted_origins) (HTTPMiddleware env (dispatch d))"

section \<open>The routes keep the telemetry\<close>

lemma gin_data_keeps: "keeps_telemetry c (gin_data code t v c)"
  unfolding gin_data_def Let_def
  by (simp add: keeps_telemetry_trans [OF keeps_telemetry_trans [OF keeps_telemetry_write_status keeps_telemetry_content]
      keeps_telemetry_body] keeps_telemetry_trans [OF keeps_telemetry_write_status keeps_telemetry_body])

lemma gin_json_keeps: "keeps_telemetry c (gin_json code v c)"
  unfolding gin_json_def by (rule gin_data_keeps)

lemma authentication_group_keeps:
  assumes "\<And>c. keeps_telemetry c (h c)"
  shows "keeps_telemetry c (authentication_group d h c)"
  unfolding authentication_group_def RequestTelemetry_def Let_def
  by (rule keeps_telemetry_trans [OF keeps_telemetry_operation RateLimitRequests_keeps [OF assms]])

text \<open>
  The handler of the authentication library is not part of the server; it has no access to the
  telemetry and leaves the id header alone.
\<close>

definition well_wired :: "'r deps \<Rightarrow> bool" where
  "well_wired d \<longleftrightarrow> (\<forall>c. keeps_telemetry c (authlierHandler d c))"

lemma dispatch_keeps:
  assumes "well_wired d"
  shows "keeps_telemetry c (dispatch d c)"
proof -
  have "keeps_telemetry c (h c)" if "(m, pattern, h) \<in> set (routes d)" for m pattern h
    using that assms authentication_group_keeps [of "authlierHandler d"]
      authentication_group_keeps [of "AccountHandler_Get (uuid_string d) (tenantResolver d)"]
    by (auto simp: routes_def health_routes_def openapi_routes_def authentication_routes_def live_def ready_def openapi_json_def
        docs_def well_wired_def AccountHandler_Get_keeps gin_json_keeps gin_data_keeps split: option.split)
  moreover have "x \<in> set xs" if "find P xs = Some x" for P xs and x :: "string option \<times> string \<times> ('a api \<Rightarrow> 'a api)"
    using that by (auto simp: find_Some_iff)
  ultimately show ?thesis
    by (fastforce simp: dispatch_def keeps_telemetry_write_status split: option.split)
qed

text \<open>The account handler behind its group, and the whole route table, are instrumented handlers.\<close>

interpretation account_route: instrumented_handler
  "authentication_group d (AccountHandler_Get (uuid_string d) (tenantResolver d))"
  by unfold_locales (rule authentication_group_keeps [OF AccountHandler_Get_keeps])

lemma dispatch_instrumented: "well_wired d \<Longrightarrow> instrumented_handler (dispatch d)"
  by unfold_locales (rule dispatch_keeps)

section \<open>The whole server\<close>

lemma cors_opened_metered:
  "active (cors_opened origins c) = active c" "requests (cors_opened origins c) = requests c"
  "errors (cors_opened origins c) = errors c" "spans (cors_opened origins c) = spans c" "durations (cors_opened origins c) = durations c"
  by (simp_all add: cors_opened_def)

text \<open>
  C28. Every request that is no health probe and no preflight is recorded once. After the server
  has handled it the gauge of active requests is where it was, one request was counted, under the
  operation of its route and the status that was sent, as an error exactly for a status from 500
  on, and among the records logged for it there is exactly one completion, with the same status
  and the id on the response, whatever the handlers did.
\<close>

theorem each_request_is_recorded_once:
  assumes "well_wired d" "req_method (req c) \<noteq> ''OPTIONS''" "\<not> starts_with ''/health/'' (req_route (req c))"
    and "after = newRouter base_url origins d env c"
  shows "\<exists>a :: requestLogAttributes. active after = active c \<and>
    requests after = requests c @ [metric_labels (operation a) (req_method (req c)) (request_route (req c)) (status after)] \<and>
    errors after = errors c @ (if 500 \<le> status after
      then [metric_labels (operation a) (req_method (req c)) (request_route (req c)) (status after)] else []) \<and>
    filter is_completion (drop (length (logs c)) (logs after)) =
      [logRequestCompletion (header_of after requestIDHeader) (request_span env) (operation a) (req_method (req c))
        (request_route (req c)) (status after) (elapsed env) (fst (classifyHTTPStatus (status after)))
        (snd (classifyHTTPStatus (status after))) (completions a) (attributes a)]"
proof -
  let ?c = "cors_opened (base_url # origins) c"
  have after: "after = HTTPMiddleware env (dispatch d) ?c"
    using assms(2,4) by (simp add: newRouter_def Middleware_cases)
  have "\<not> starts_with ''/health/'' (request_route (req ?c))"
    using assms(3) by (auto simp: request_route_def starts_with_def)
  note one = instrumented_handler.completes [OF dispatch_instrumented [OF assms(1)] this, of env, folded after]
  show ?thesis
    by (rule ex_forward [OF one(4)]) (simp add: one(1,3) cors_opened_metered)
qed

lemma opened_keeps_headers: "k \<noteq> requestIDHeader \<Longrightarrow> header_of (opened env c) k = header_of c k"
  by (simp add: opened_def contextWithRequestLogAttributes_def contextWithRequestID_def Let_def)

lemma HTTPMiddleware_headers: "headers (HTTPMiddleware env next c) = headers (next (opened env c))"
  by (simp add: HTTPMiddleware_def Let_def recordReadinessFailure_def end_span_def split: prod.split)

lemma newRouter_credentials:
  assumes "well_wired d"
  shows "credentials (newRouter base_url origins d env c) page \<longleftrightarrow> credentials (cors_opened (base_url # origins) c) page"
proof -
  let ?c = "cors_opened (base_url # origins) c"
  have "keeps_headers (opened env ?c) (dispatch d (opened env ?c))"
    using dispatch_keeps [OF assms] by (simp add: keeps_telemetry_def)
  then have "credentials (HTTPMiddleware env (dispatch d) ?c) page \<longleftrightarrow> credentials ?c page"
    using opened_keeps_headers [of _ env ?c] HTTPMiddleware_headers [of env "dispatch d" ?c]
    by (simp add: credentials_def keeps_headers_def reserved_headers_def requestIDHeader_def) (simp add: header_of_def)
  then show ?thesis
    by (simp add: newRouter_def Middleware_cases credentials_def)
qed

text \<open>
  C29. Cross-origin answers. In every answer of the server, preflight or not, a page may read the
  body of a request sent with credentials exactly when the request comes from that page's origin
  and the origin is configured. A preflight is answered at once, with 204 for a configured origin
  and 403 for any other; it reaches no handler, changes no data and is not recorded: neither a
  metric nor a log record shows it.
\<close>

theorem cross_origin_answers:
  assumes "well_wired d" "cors_silent c" "body c = None"
  shows "(credentials (newRouter base_url origins d env c) page \<longleftrightarrow>
      page = req_header (req c) ''Origin'' \<and> page \<in> set (base_url # origins)) \<and>
    (req_method (req c) = ''OPTIONS'' \<longrightarrow>
      status (newRouter base_url origins d env c) =
        (if req_header (req c) ''Origin'' \<in> set (base_url # origins) then 204 else 403) \<and>
      body (newRouter base_url origins d env c) = None \<and> logs (newRouter base_url origins d env c) = logs c \<and>
      gin.more (newRouter base_url origins d env c) = gin.more c)"
  using newRouter_credentials [OF assms(1)] credentials_opened [OF assms(2), of "base_url # origins" page] assms(3)
  by (simp add: newRouter_def Middleware_cases)

definition sample_deps :: "mem_redis deps" where
  "sample_deps =
     \<lparr>ping = (\<lambda>_. None), traffic_limiter = sample_limiter, limiter_env = \<lparr>clock = 0, random = Inr [1], link = Answered\<rparr>,
      authlierHandler = write_status 404, uuid_string = (\<lambda>_. ''id''), tenantResolver = no_session\<rparr>"

definition sample_telemetry :: telemetry_env where
  "sample_telemetry =
     \<lparr>generated_id = Inr ''0197-ab'', fallback_now = 0, fallback_sequence = 1, delegate_samples = True, request_span = None,
      readiness_sampled = False, readiness_span = None, elapsed = millisecond\<rparr>"

lemma sample_well_wired: "well_wired sample_deps"
  by (simp add: well_wired_def sample_deps_def keeps_telemetry_write_status)

definition sample_preflight :: "mem_redis api" where
  "sample_preflight = sample_context ((sample_request ''OPTIONS'' ''/account'' [])
     \<lparr>req_header := (\<lambda>k. if k = ''Origin'' then ''https://other.example'' else [])\<rparr>) [] sample_tables"

lemma cross_origin_answers_witness:
  "\<not> credentials (newRouter ''https://a.example'' [] sample_deps sample_telemetry sample_preflight) ''https://other.example'' \<and>
   status (newRouter ''https://a.example'' [] sample_deps sample_telemetry sample_preflight) = 403"
proof -
  have "cors_silent sample_preflight" "body sample_preflight = None" "req_method (req sample_preflight) = ''OPTIONS''"
    "req_header (req sample_preflight) ''Origin'' = ''https://other.example''"
    by (simp_all add: sample_preflight_def sample_context_def sample_request_def cors_silent_def header_of_def)
  with cross_origin_answers [OF sample_well_wired, of sample_preflight "''https://a.example''" "[]" sample_telemetry "''https://other.example''"]
  show ?thesis by simp
qed

lemma each_request_is_recorded_once_witness:
  "length (filter is_completion (logs (newRouter ''https://a.example'' [] sample_deps sample_telemetry
     (sample_context (sample_request ''GET'' ''/account'' ''/account'') [] sample_tables)))) = 1"
proof -
  let ?c = "sample_context (sample_request ''GET'' ''/account'' ''/account'') [] sample_tables :: mem_redis api"
  have "req_method (req ?c) \<noteq> ''OPTIONS''" "\<not> starts_with ''/health/'' (req_route (req ?c))" "logs ?c = []"
    by (simp_all add: sample_context_def sample_request_def starts_with_def)
  with each_request_is_recorded_once [OF sample_well_wired _ _ refl, of ?c "''https://a.example''" "[]" sample_telemetry]
  show ?thesis by auto
qed

section \<open>Health probes\<close>

lemma HTTPMiddleware_health:
  assumes "request_route (req c) = ''/health/ready''"
  shows "HTTPMiddleware env next c = (let after = next (opened env c) in
     if 500 \<le> status after
     then recordReadinessFailure env (status after) (resolveRequestID (generated_id env) (fallback_now env)
        (fallback_sequence env) (req_header (req c) requestIDHeader)) after
     else after)"
proof -
  have "starts_with ''/health/'' ''/health/ready''" by code_simp
  moreover have "ShouldSample b [(''http.request.method'', AString m), (''http.route'', AString r), (''http.request_id'', AString i),
      (''consumel.operation'', AString op), (healthProbeAttribute, ABool True)] = False" for b m r i op
    by (simp add: healthProbeAttribute_def)
  ultimately show ?thesis
    using assms by (simp add: HTTPMiddleware_def Let_def end_span_def split: prod.split)
qed

text \<open>
  A readiness probe tells whether the database answers, and leaves no metric, no span of its own and
  no record behind, except one error record when the database does not answer.
\<close>

theorem readiness_probe:
  assumes "req_method (req c) = ''GET''" "req_route (req c) = ''/health/ready''" "body c = None"
    and "after = newRouter base_url origins d env c"
  shows "status after = (if ping d readinessTimeout = None then 200 else 503)"
    and "active after = active c" "requests after = requests c" "errors after = errors c" "durations after = durations c"
    and "length (logs after) = length (logs c) + (if ping d readinessTimeout = None then 0 else 1)"
proof -
  let ?c = "opened env (cors_opened (base_url # origins) c)"
  have route: "request_route (req (cors_opened (base_url # origins) c)) = ''/health/ready''"
    using assms(2) by (simp add: request_route_def)
  have health: "starts_with ''/health/'' ''/health/ready''" by code_simp
  have fields: "req ?c = req c" "body ?c = None" "logs ?c = logs c" "active ?c = active c" "requests ?c = requests c"
      "errors ?c = errors c" "durations ?c = durations c"
    using assms(3) route health
    by (simp_all add: opened_def contextWithRequestLogAttributes_def contextWithRequestID_def Let_def cors_opened_metered)
  have "dispatch d ?c = ready (ping d) ?c"
    using assms(1,2) fields(1) by (simp add: dispatch_def routes_def health_routes_def)
  then have after: "after = (let a = ready (ping d) ?c in if 500 \<le> status a
      then recordReadinessFailure env (status a) (resolveRequestID (generated_id env) (fallback_now env)
          (fallback_sequence env) (req_header (req c) requestIDHeader)) a else a)"
    using assms(1,4) HTTPMiddleware_health [OF route, of env "dispatch d"]
    by (simp add: newRouter_def Middleware_cases Let_def end_span_def)
  have ready: "ready (ping d) ?c = gin_json (if ping d readinessTimeout = None then 200 else 503)
      (response (if ping d readinessTimeout = None then ''ok'' else ''unavailable'')) ?c"
    by (simp add: ready_def split: option.split)
  have kept: "active (gin_json n v x) = active x" "requests (gin_json n v x) = requests x" "errors (gin_json n v x) = errors x"
    "durations (gin_json n v x) = durations x" for n v and x :: "'a api"
    using gin_json_keeps [of x n v] by (simp_all add: keeps_telemetry_def)
  show "status after = (if ping d readinessTimeout = None then 200 else 503)"
    "active after = active c" "requests after = requests c" "errors after = errors c" "durations after = durations c"
    "length (logs after) = length (logs c) + (if ping d readinessTimeout = None then 0 else 1)"
    using fields by (simp_all add: after ready kept recordReadinessFailure_def end_span_def Let_def)
qed

end
