(* ===== verification/Password_Policy.thy ===== *)
theory Password_Policy
  imports Go_Strings "HOL-Library.Multiset"
begin

text \<open>
  The password policy: \<open>internal/authentication/password_policy.go\<close>. The Unicode tables of the
  standard library are parameters: \<open>classes\<close> says of a rune whether it is upper case, a digit,
  punctuation or a symbol.
\<close>

record rune_classes =
  IsUpper :: "nat \<Rightarrow> bool"
  IsDigit :: "nat \<Rightarrow> bool"
  IsPunct :: "nat \<Rightarrow> bool"
  IsSymbol :: "nat \<Rightarrow> bool"

definition minimumPasswordLength :: nat where
  "minimumPasswordLength = 12"

definition maximumPasswordLength :: nat where
  "maximumPasswordLength = 128"

definition ErrPasswordTooShort :: string where "ErrPasswordTooShort = ''password must contain at least 12 characters''"
definition ErrPasswordTooLong :: string where "ErrPasswordTooLong = ''password must contain at most 128 characters''"
definition ErrPasswordUppercase :: string where "ErrPasswordUppercase = ''password must contain at least one uppercase letter''"
definition ErrPasswordNumber :: string where "ErrPasswordNumber = ''password must contain at least one number''"
definition ErrPasswordSpecial :: string where "ErrPasswordSpecial = ''password must contain at least one special character''"

text \<open>The loop over the runes: the three flags seen so far.\<close>

fun scan_password :: "rune_classes \<Rightarrow> bool \<Rightarrow> bool \<Rightarrow> bool \<Rightarrow> nat list \<Rightarrow> bool \<times> bool \<times> bool" where
  "scan_password classes hasUppercase hasNumber hasSpecial [] = (hasUppercase, hasNumber, hasSpecial)"
| "scan_password classes hasUppercase hasNumber hasSpecial (character # rest) =
     scan_password classes (hasUppercase \<or> IsUpper classes character) (hasNumber \<or> IsDigit classes character)
       (hasSpecial \<or> IsPunct classes character \<or> IsSymbol classes character) rest"

definition ValidatePassword :: "rune_classes \<Rightarrow> string \<Rightarrow> go_error option" where
  "ValidatePassword classes password =
     (let len = length (runes password)
      in if len < minimumPasswordLength then Some (Sentinel ErrPasswordTooShort)
         else if maximumPasswordLength < len then Some (Sentinel ErrPasswordTooLong)
         else
           (let (hasUppercase, hasNumber, hasSpecial) = scan_password classes False False False (runes password)
            in if \<not> hasUppercase then Some (Sentinel ErrPasswordUppercase)
               else if \<not> hasNumber then Some (Sentinel ErrPasswordNumber)
               else if \<not> hasSpecial then Some (Sentinel ErrPasswordSpecial)
               else None))"

lemma scan_password_flags:
  "scan_password classes u n s rs =
     (u \<or> list_ex (IsUpper classes) rs, n \<or> list_ex (IsDigit classes) rs,
      s \<or> list_ex (\<lambda>r. IsPunct classes r \<or> IsSymbol classes r) rs)"
  by (induction rs arbitrary: u n s) auto

text \<open>
  \<open>password_faults\<close> is the policy as a list of rules, each with the error of a password that breaks it.
\<close>

definition password_faults :: "rune_classes \<Rightarrow> nat list \<Rightarrow> string list" where
  "password_faults classes rs =
     map snd (filter (\<lambda>(ok, e). \<not> ok)
       [(minimumPasswordLength \<le> length rs, ErrPasswordTooShort), (length rs \<le> maximumPasswordLength, ErrPasswordTooLong),
        (list_ex (IsUpper classes) rs, ErrPasswordUppercase), (list_ex (IsDigit classes) rs, ErrPasswordNumber),
        (list_ex (\<lambda>r. IsPunct classes r \<or> IsSymbol classes r) rs, ErrPasswordSpecial)])"

text \<open>
  C34. The policy. A password is accepted exactly when it has 12 to 128 characters, counted as
  runes and not as bytes, with an upper-case letter, a digit and a punctuation mark or symbol
  among them; otherwise the error is the one of the first broken rule in that order. A password of
  fewer than 12 bytes is never accepted, and the order of the characters makes no difference.
\<close>

theorem password_policy:
  "ValidatePassword classes password =
     (case password_faults classes (runes password) of [] \<Rightarrow> None | e # _ \<Rightarrow> Some (Sentinel e)) \<and>
   (length password < 12 \<longrightarrow> ValidatePassword classes password = Some (Sentinel ErrPasswordTooShort)) \<and>
   (mset (runes other) = mset (runes password) \<longrightarrow> ValidatePassword classes other = ValidatePassword classes password)"
proof -
  have policy: "ValidatePassword classes s =
      (case password_faults classes (runes s) of [] \<Rightarrow> None | e # _ \<Rightarrow> Some (Sentinel e))" for s
    by (simp add: ValidatePassword_def password_faults_def scan_password_flags Let_def)
  have bytes: "length (runes password) \<le> length password"
    using runes_of_length [of "map of_char password"] by (simp add: runes_def)
  have same: "password_faults classes (runes other) = password_faults classes (runes password)"
    if "mset (runes other) = mset (runes password)"
    using mset_eq_setD [OF that] mset_eq_length [OF that] by (simp add: password_faults_def list_ex_iff)
  show ?thesis
    using policy [of password] policy [of other] same bytes
    by (simp add: password_faults_def minimumPasswordLength_def)
qed

definition ascii_classes :: rune_classes where
  "ascii_classes =
     \<lparr>IsUpper = (\<lambda>r. 65 \<le> r \<and> r \<le> 90), IsDigit = (\<lambda>r. 48 \<le> r \<and> r \<le> 57), IsPunct = (\<lambda>r. r = 33), IsSymbol = (\<lambda>r. r = 36)\<rparr>"

theorem password_policy_witness:
  "ValidatePassword ascii_classes ''Short7!'' = Some (Sentinel ErrPasswordTooShort) \<and>
   ValidatePassword ascii_classes ''7 Correct horse!'' = ValidatePassword ascii_classes ''Correct horse 7!''"
proof -
  have "length ''Short7!'' < 12" "mset (runes ''7 Correct horse!'') = mset (runes ''Correct horse 7!'')"
    by code_simp+
  then show ?thesis
    using password_policy [of ascii_classes "''Short7!''"]
      password_policy [of ascii_classes "''Correct horse 7!''" "''7 Correct horse!''"] by blast
qed

end
