(* ===== verification/Startup.thy ===== *)
theory Startup
  imports Config Server Response_Bytes Attempt_Guards Session_Store Password_Policy
begin

text \<open>
  Starting and stopping the server: \<open>cmd/api/main.go\<close>, \<open>cmd/api/server.go\<close>,
  \<open>internal/infra/telemetry/telemetry.go\<close>, \<open>internal/infra/database/database.go\<close> and
  \<open>internal/infra/cache/redis.go\<close>. Every call of a library is a parameter that tells its outcome; the
  model keeps the order of the calls and of the deferred ones, as a trace of what is opened and
  closed.
\<close>

section \<open>Traces\<close>

datatype resource = Tracer_provider | Meter_provider | Logger_provider | Database_pool | Redis_client | Listener
  | Container | Migration_connection

datatype event =
    Opened resource
  | Closed resource
  | Migrated
  | Logged string

text \<open>
  \<open>ListenAndServe\<close> always ends with an error, after it listened or without ever having listened: the
  address could not be bound, or the server had been shut down before. What ends \<open>serveHTTP\<close> is the
  end of \<open>ListenAndServe\<close>, or a signal; then \<open>Shutdown\<close> has its own outcome.
\<close>

datatype listen_result = Never_listened go_error | Listened go_error

datatype serve_outcome =
    Listener_ended listen_result
  | Signalled "go_error option" listen_result

text \<open>
  What Authlier is configured with, and the routes' settings. The first four fields of the
  environment below describe the instance's identity and exporters, in the order they are made.
\<close>

record http_client =
  instrumented_transport :: bool
  client_timeout :: duration

record ('r, 'c, 'o, 'm) authlier_config =
  AppName :: string
  Authlier_BaseURL :: string
  BasePath :: string
  AccountBasePath :: string
  Authlier_Database :: "('c, 'r RedisEmailVerificationStore, 'o) AuthlierDatabase"
  Authlier_TrustedOrigins :: "string list"
  Authlier_TrustedProxies :: "string list"
  Password_Enabled :: bool
  RequireEmailVerification :: bool
  Password_Validate :: "string \<Rightarrow> go_error option"
  PasswordGuard :: "'r guard"
  Verification_Enabled :: bool
  Delivery :: string
  OTPSecret :: string
  Verification_Sender :: "'m ResendAuthenticationEmailSender"
  SendOnSignUp :: bool
  AutoSignInAfterVerification :: bool
  OTPGuard :: "'r guard"
  Reset_Enabled :: bool
  ResetURL :: string
  Reset_Sender :: "'m ResendAuthenticationEmailSender"
  ResetGuard :: "'r guard"
  Session_Mode :: string
  Lifetime :: duration
  SessionCache :: "'c session_cache"
  CacheTTL :: duration
  CookieName :: string
  CookiePath :: string
  SameSite :: string
  Google_Enabled :: bool
  Google_ClientID :: string
  Google_ClientSecret :: string
  SuccessRedirectURL :: string
  HTTPClient :: http_client

record ('r, 'c, 'o, 'm) boot_env =
  boot_sources :: sources
  instance_id :: "uuid result"
  merge_resource :: "go_error option"
  trace_exporter :: "go_error option"
  metric_exporter :: "go_error option"
  log_exporter :: "go_error option"
  provider_shutdown :: "resource \<Rightarrow> go_error option"
  url_string :: "string \<Rightarrow> string \<Rightarrow> string \<Rightarrow> string \<Rightarrow> string \<Rightarrow> (string \<times> string) list \<Rightarrow> string"
  pool_ParseConfig :: "string \<Rightarrow> go_error option"
  pool_New :: "go_error option"
  pool_Ping :: "go_error option"
  pool_RecordStats :: "go_error option"
  postgres_New :: "('c, 'r RedisEmailVerificationStore, 'o) authlier_database result"
  redis_ParseURL :: "string \<Rightarrow> go_error option"
  redis_InstrumentTracing :: "go_error option"
  redis_InstrumentMetrics :: "go_error option"
  redis_Close :: "go_error option"
  redis :: "'r redis_commands"
  redis_NewSessionCache :: "string \<Rightarrow> 'c session_cache result"
  boot_hmac :: "string \<Rightarrow> string \<Rightarrow> 8 word list"
  boot_arith :: "rat \<Rightarrow> rat"
  boot_json :: challenge_json
  boot_unique :: "session_record list \<Rightarrow> session_record \<Rightarrow> bool"
  boot_rank :: "string \<Rightarrow> int"
  resend_client :: "http_client \<Rightarrow> string \<Rightarrow> 'm \<Rightarrow> SendEmailRequest \<Rightarrow> 'm \<times> go_error option"
  boot_classes :: rune_classes
  authlier_New :: "('r, 'c, 'o, 'm) authlier_config \<Rightarrow> unit result"
  new_instrument :: "string \<Rightarrow> go_error option"
  SetTrustedProxies :: "string list \<Rightarrow> go_error option"
  serving :: serve_outcome

section \<open>Opening the dependencies\<close>

text \<open>\<open>telemetry.New\<close>: what it opened is closed again when a later exporter fails.\<close>

definition telemetry_New :: "('r, 'c, 'o, 'm) boot_env \<Rightarrow> event list \<times> go_error option" where
  "telemetry_New env =
     (case instance_id env of
        Inl err \<Rightarrow> ([], Some (Wrap ''create service instance ID'' err))
      | Inr instanceID \<Rightarrow>
     (case merge_resource env of
        Some err \<Rightarrow> ([], Some (Wrap ''create telemetry resource'' err))
      | None \<Rightarrow>
     (case trace_exporter env of
        Some err \<Rightarrow> ([], Some (Wrap ''create OTLP trace exporter'' err))
      | None \<Rightarrow>
     (case metric_exporter env of
        Some err \<Rightarrow> ([Opened Tracer_provider, Closed Tracer_provider], Some (Wrap ''create OTLP metric exporter'' err))
      | None \<Rightarrow>
     (case log_exporter env of
        Some err \<Rightarrow>
          ([Opened Tracer_provider, Opened Meter_provider, Closed Meter_provider, Closed Tracer_provider],
           Some (Wrap ''create OTLP log exporter'' err))
      | None \<Rightarrow> ([Opened Tracer_provider, Opened Meter_provider, Opened Logger_provider], None))))))"

text \<open>Errors that are joined are kept as a list; no error is the empty list.\<close>

definition joined :: "go_error option list \<Rightarrow> go_error list" where
  "joined errs = concat (map (\<lambda>e. case e of None \<Rightarrow> [] | Some err \<Rightarrow> [err]) errs)"

definition Shutdown :: "('r, 'c, 'o, 'm) boot_env \<Rightarrow> event list \<times> go_error list" where
  "Shutdown env =
     ([Closed Logger_provider, Closed Meter_provider, Closed Tracer_provider],
      joined [provider_shutdown env Logger_provider, provider_shutdown env Meter_provider, provider_shutdown env Tracer_provider])"

definition database_Open :: "('r, 'c, 'o, 'm) boot_env \<Rightarrow> string \<Rightarrow> event list \<times> go_error option" where
  "database_Open env connectionString =
     (case pool_ParseConfig env connectionString of
        Some err \<Rightarrow> ([], Some (Wrap ''parse connection string'' err))
      | None \<Rightarrow>
     (case pool_New env of
        Some err \<Rightarrow> ([], Some (Wrap ''create pool'' err))
      | None \<Rightarrow>
     (case pool_Ping env of
        Some err \<Rightarrow> ([Opened Database_pool, Closed Database_pool], Some (Wrap ''ping database'' err))
      | None \<Rightarrow>
     (case pool_RecordStats env of
        Some err \<Rightarrow> ([Opened Database_pool, Closed Database_pool], Some (Wrap ''record database pool metrics'' err))
      | None \<Rightarrow> ([Opened Database_pool], None)))))"

definition cache_Open :: "('r, 'c, 'o, 'm) boot_env \<Rightarrow> string \<Rightarrow> event list \<times> go_error option" where
  "cache_Open env connectionString =
     (case redis_ParseURL env connectionString of
        Some err \<Rightarrow> ([], Some (Wrap ''parse Redis URL'' err))
      | None \<Rightarrow>
     (case redis_InstrumentTracing env of
        Some err \<Rightarrow> ([Opened Redis_client, Closed Redis_client], Some (Wrap ''instrument Redis tracing'' err))
      | None \<Rightarrow>
     (case redis_InstrumentMetrics env of
        Some err \<Rightarrow> ([Opened Redis_client, Closed Redis_client], Some (Wrap ''instrument Redis metrics'' err))
      | None \<Rightarrow> ([Opened Redis_client], None))))"

section \<open>Serving\<close>

definition http_ErrServerClosed :: string where
  "http_ErrServerClosed = ''http.ErrServerClosed''"

text \<open>What the goroutine sends, and the listener's part of the trace.\<close>

definition server_error :: "listen_result \<Rightarrow> go_error option" where
  "server_error listened =
     (let err = (case listened of Never_listened err \<Rightarrow> err | Listened err \<Rightarrow> err)
      in if errors_is err http_ErrServerClosed then None else Some err)"

definition while_listening :: "listen_result \<Rightarrow> event list \<Rightarrow> event list" where
  "while_listening listened events =
     (case listened of Never_listened _ \<Rightarrow> events | Listened _ \<Rightarrow> Opened Listener # events @ [Closed Listener])"

definition serveHTTP :: "('r, 'c, 'o, 'm) boot_env \<Rightarrow> string \<Rightarrow> event list \<times> go_error option" where
  "serveHTTP env address =
     (case serving env of
        Listener_ended listened \<Rightarrow>
          (Logged (''api listening '' @ address) # while_listening listened [],
           map_option (Wrap ''serve HTTP'') (server_error listened))
      | Signalled shutdown listened \<Rightarrow>
          (let events = Logged (''api listening '' @ address) # while_listening listened [Logged ''api shutdown started'']
           in case shutdown of
                Some err \<Rightarrow> (events, Some (Wrap ''shutdown HTTP server'' err))
              | None \<Rightarrow>
                  (case server_error listened of
                     Some err \<Rightarrow> (events, Some (Wrap ''stop HTTP server'' err))
                   | None \<Rightarrow> (events @ [Logged ''api shutdown completed''], None))))"

section \<open>Wiring\<close>

definition sessionLifetime :: duration where "sessionLifetime = 7 * 24 * hour"
definition sessionCacheTTL :: duration where "sessionCacheTTL = hour"
definition main_maximumActiveSessions :: int where "main_maximumActiveSessions = 3"
definition resendTimeout :: duration where "resendTimeout = 10 * second"
definition googleTimeout :: duration where "googleTimeout = 10 * second"

definition NewHTTPClient :: "duration \<Rightarrow> http_client" where
  "NewHTTPClient timeout = \<lparr>instrumented_transport = True, client_timeout = timeout\<rparr>"

text \<open>Constants of the library are written as their names.\<close>

definition authlier_settings ::
  "Config \<Rightarrow> rune_classes \<Rightarrow> ('c, 'r RedisEmailVerificationStore, 'o) AuthlierDatabase \<Rightarrow> 'c session_cache \<Rightarrow>
   'r RedisLimiter \<Rightarrow> 'm ResendAuthenticationEmailSender \<Rightarrow> ('r, 'c, 'o, 'm) authlier_config" where
  "authlier_settings cfg classes authlierDatabase sessionCache distributedLimiter authenticationEmailSender =
     \<lparr>AppName = ''Consumel'', Authlier_BaseURL = BaseURL (Auth cfg), BasePath = ''/auth'', AccountBasePath = ''/account'',
      Authlier_Database = authlierDatabase,
      Authlier_TrustedOrigins = TrustedOrigins (Auth cfg), Authlier_TrustedProxies = TrustedProxies (Auth cfg),
      Password_Enabled = True, RequireEmailVerification = True, Password_Validate = ValidatePassword classes,
      PasswordGuard = NewPasswordAttemptGuard distributedLimiter,
      Verification_Enabled = True, Delivery = ''emailverification.DeliveryMethodOTP'', OTPSecret = OTPHMACSecret (Auth cfg),
      Verification_Sender = authenticationEmailSender, SendOnSignUp = True, AutoSignInAfterVerification = True,
      OTPGuard = NewOTPAttemptGuard distributedLimiter,
      Reset_Enabled = True, ResetURL = PasswordResetURL (Auth cfg), Reset_Sender = authenticationEmailSender,
      ResetGuard = NewPasswordResetAttemptGuard distributedLimiter,
      Session_Mode = ''authlier.SessionModeCookie'', Lifetime = sessionLifetime, SessionCache = sessionCache,
      CacheTTL = sessionCacheTTL, CookieName = ''consumel_session'', CookiePath = ''/'', SameSite = ''http.SameSiteLaxMode'',
      Google_Enabled = GoogleEnabled (Auth cfg),
      Google_ClientID = GoogleClientID (Auth cfg), Google_ClientSecret = GoogleClientSecret (Auth cfg),
      SuccessRedirectURL = GoogleSuccessURL (Auth cfg), HTTPClient = NewHTTPClient googleTimeout\<rparr>"

text \<open>\<open>wrapped\<close> is the common \<open>if err != nil { return fmt.Errorf(...) }\<close>.\<close>

definition wrapped :: "string \<Rightarrow> 'a result \<Rightarrow> ('a \<Rightarrow> event list \<times> go_error option) \<Rightarrow> event list \<times> go_error option" where
  "wrapped message res continue = (case res of Inl err \<Rightarrow> ([], Some (Wrap message err)) | Inr v \<Rightarrow> continue v)"

definition failing :: "go_error option \<Rightarrow> unit result" where
  "failing e = (case e of None \<Rightarrow> Inr () | Some err \<Rightarrow> Inl err)"

text \<open>The instruments of the request telemetry, created when the router is built, in the order of the code.\<close>

definition http_instruments :: "('r, 'c, 'o, 'm) boot_env \<Rightarrow> unit result" where
  "http_instruments env =
     (case new_instrument env ''consumel.http.server.request.duration'' of
        Some err \<Rightarrow> Inl (Wrap ''create HTTP duration metric'' err)
      | None \<Rightarrow>
     (case new_instrument env ''consumel.http.server.requests'' of
        Some err \<Rightarrow> Inl (Wrap ''create HTTP request metric'' err)
      | None \<Rightarrow>
     (case new_instrument env ''consumel.http.server.errors'' of
        Some err \<Rightarrow> Inl (Wrap ''create HTTP error metric'' err)
      | None \<Rightarrow>
     (case new_instrument env ''consumel.http.server.active_requests'' of
        Some err \<Rightarrow> Inl (Wrap ''create HTTP active-request metric'' err)
      | None \<Rightarrow> Inr ()))))"

definition router_setup :: "('r, 'c, 'o, 'm) boot_env \<Rightarrow> Config \<Rightarrow> unit result" where
  "router_setup env cfg =
     (case http_instruments env of
        Inl err \<Rightarrow> Inl (Wrap ''configure HTTP telemetry'' err)
      | Inr requestTelemetry \<Rightarrow>
          (case SetTrustedProxies env (TrustedProxies (Auth cfg)) of
             Some err \<Rightarrow> Inl (Wrap ''configure trusted HTTP proxies'' err)
           | None \<Rightarrow>
               (case published_document of
                  Inl err \<Rightarrow> Inl (Wrap ''register OpenAPI routes'' err)
                | Inr document \<Rightarrow> Inr ())))"

text \<open>From the open Redis client to the end of serving.\<close>

definition run_with_redis ::
  "('r, 'c, 'o, 'm) boot_env \<Rightarrow> Config \<Rightarrow> ('c, 'r RedisEmailVerificationStore, 'o) authlier_database \<Rightarrow> event list \<times> go_error option" where
  "run_with_redis env cfg authlierPostgres =
     wrapped ''configure Authlier session cache'' (redis_NewSessionCache env ''consumel:auth'') (\<lambda>redisSessionCache.
     wrapped ''configure jittered session cache'' (NewJitteredSessionCache (Some redisSessionCache)) (\<lambda>sessionCache.
     wrapped ''configure Redis email verification storage''
       (NewRedisEmailVerificationStore True (Some (redis env)) (boot_hmac env) (boot_json env) (OTPHMACSecret (Auth cfg))
          ''consumel:auth:email-verification'') (\<lambda>emailVerificationStore.
     wrapped ''configure Consumel Authlier storage policy''
       (NewAuthlierDatabase (Some authlierPostgres) True (Some sessionCache) (Some emailVerificationStore)
          main_maximumActiveSessions True (boot_unique env) (boot_rank env)) (\<lambda>authlierDatabase.
     wrapped ''configure distributed authentication rate limiter''
       (NewRedisLimiter (Some (redis env)) (boot_arith env) (boot_hmac env) (OTPHMACSecret (Auth cfg)) ''consumel:rate-limit'')
       (\<lambda>distributedLimiter.
     wrapped ''configure authentication email sender''
       (NewResendAuthenticationEmailSender (mail_ParseAddress (boot_sources env)) (Some (resend_client env (NewHTTPClient resendTimeout) (APIKey (Resend cfg))))
          (NoReplyFrom (Resend cfg))) (\<lambda>authenticationEmailSender.
     wrapped ''configure Authlier'' (authlier_New env (authlier_settings cfg (boot_classes env) authlierDatabase sessionCache distributedLimiter
       authenticationEmailSender)) (\<lambda>auth.
     (case router_setup env cfg of
        Inl err \<Rightarrow> ([], Some err)
      | Inr router \<Rightarrow> serveHTTP env (Address (HTTP cfg))))))))))"

text \<open>From the open pool; the Redis client is closed on the way out.\<close>

definition run_with_database :: "('r, 'c, 'o, 'm) boot_env \<Rightarrow> Config \<Rightarrow> event list \<times> go_error option" where
  "run_with_database env cfg =
     wrapped ''configure Authlier PostgreSQL storage'' (postgres_New env) (\<lambda>authlierPostgres.
     wrapped ''migrate Authlier PostgreSQL storage'' (failing (database_Migrate authlierPostgres)) (\<lambda>_.
     (case cache_Open env (Redis_URL cfg) of
        (begun, Some err) \<Rightarrow> (Migrated # begun, Some (Wrap ''connect Redis'' err))
      | (begun, None) \<Rightarrow>
          (case run_with_redis env cfg authlierPostgres of
             (inside, err) \<Rightarrow>
               (Migrated # begun @ inside @ [Closed Redis_client] @
                (case redis_Close env of None \<Rightarrow> [] | Some e \<Rightarrow> [Logged ''close Redis client'']), err)))))"

text \<open>From the open telemetry; the pool is closed on the way out.\<close>

definition run_with_telemetry :: "('r, 'c, 'o, 'm) boot_env \<Rightarrow> Config \<Rightarrow> event list \<times> go_error option" where
  "run_with_telemetry env cfg =
     (case database_Open env (ConnectionString (url_string env) (Database cfg)) of
        (begun, Some err) \<Rightarrow> (begun, Some (Wrap ''connect database'' err))
      | (begun, None) \<Rightarrow>
          (case run_with_database env cfg of (inside, err) \<Rightarrow> (begun @ inside @ [Closed Database_pool], err)))"

definition run :: "('r, 'c, 'o, 'm) boot_env \<Rightarrow> event list \<times> go_error list" where
  "run env =
     (case Load (boot_sources env) of
        Inl err \<Rightarrow> ([], [Wrap ''load configuration'' err])
      | Inr cfg \<Rightarrow>
          (case telemetry_New env of
             (begun, Some err) \<Rightarrow> (begun, [Wrap ''initialize telemetry'' err])
           | (begun, None) \<Rightarrow>
               (case (run_with_telemetry env cfg, Shutdown env) of
                  ((inside, runError), (closing, errs)) \<Rightarrow>
                    (begun @ inside @ closing, joined [runError] @ map (Wrap ''shutdown telemetry'') errs))))"

text \<open>\<open>main\<close>: the trace, with the last record, and the exit status.\<close>

definition main_process :: "('r, 'c, 'o, 'm) boot_env \<Rightarrow> event list \<times> int" where
  "main_process env =
     (case run env of
        (events, runError) \<Rightarrow> if runError \<noteq> [] then (events @ [Logged ''api stopped''], 1) else (events, 0))"

section \<open>What is opened is closed\<close>

text \<open>
  \<open>brackets\<close> follows a trace with a stack of open resources; it fails when a resource is closed
  that is not the last one opened.
\<close>

fun brackets :: "resource list \<Rightarrow> event list \<Rightarrow> resource list option" where
  "brackets held [] = Some held"
| "brackets held (Opened r # es) = brackets (r # held) es"
| "brackets held (Closed r # es) = (case held of [] \<Rightarrow> None | h # held \<Rightarrow> if h = r then brackets held es else None)"
| "brackets held (e # es) = brackets held es"

definition balanced :: "event list \<Rightarrow> bool" where
  "balanced es \<longleftrightarrow> (\<forall>held. brackets held es = Some held)"

lemma brackets_append:
  "brackets held (xs @ ys) = (case brackets held xs of None \<Rightarrow> None | Some held \<Rightarrow> brackets held ys)"
  by (induction held xs rule: brackets.induct) (auto split: list.split)

lemma balanced_Nil [simp]: "balanced []"
  by (simp add: balanced_def)

lemma balanced_inside: "balanced es \<Longrightarrow> brackets held (es @ rest) = brackets held rest"
  by (simp add: balanced_def brackets_append)

lemma wrapped_balanced:
  "(\<And>v. res = Inr v \<Longrightarrow> balanced (fst (continue v))) \<Longrightarrow> balanced (fst (wrapped message res continue))"
  by (simp add: wrapped_def split: sum.split)

lemma serveHTTP_balanced: "balanced (fst (serveHTTP env address))"
  by (simp add: serveHTTP_def balanced_def while_listening_def Let_def split: serve_outcome.split option.split listen_result.split)

lemma run_with_redis_balanced: "balanced (fst (run_with_redis env cfg db))"
  unfolding run_with_redis_def
  by (intro wrapped_balanced) (simp add: serveHTTP_balanced split: sum.split)

lemma balanced_bracket: "balanced inside \<Longrightarrow> balanced (Opened r # inside @ [Closed r])"
  by (simp add: balanced_def brackets_append)

lemma balanced_append: "balanced xs \<Longrightarrow> balanced ys \<Longrightarrow> balanced (xs @ ys)"
  by (simp add: balanced_def brackets_append)

lemma balanced_note: "balanced es \<Longrightarrow> balanced (Migrated # es)" "balanced [Logged l]"
  by (simp_all add: balanced_def)

lemma open_events:
  "cache_Open env url = (begun, e) \<Longrightarrow> (case e of None \<Rightarrow> begun = [Opened Redis_client] | Some err \<Rightarrow> balanced begun)"
  "database_Open env url = (begun, e) \<Longrightarrow> (case e of None \<Rightarrow> begun = [Opened Database_pool] | Some err \<Rightarrow> balanced begun)"
  "telemetry_New env = (begun, e) \<Longrightarrow>
    (case e of None \<Rightarrow> begun = [Opened Tracer_provider, Opened Meter_provider, Opened Logger_provider] | Some err \<Rightarrow> balanced begun)"
  by (auto simp: cache_Open_def database_Open_def telemetry_New_def balanced_def split: option.splits sum.splits)

lemma run_with_database_balanced: "balanced (fst (run_with_database env cfg))"
  unfolding run_with_database_def
proof (intro wrapped_balanced)
  fix db :: "('b, 'a RedisEmailVerificationStore, 'c) authlier_database"
  obtain begun e where begun: "cache_Open env (Redis_URL cfg) = (begun, e)" by (metis prod.exhaust)
  obtain inside err where inside: "run_with_redis env cfg db = (inside, err)" by (metis prod.exhaust)
  have "balanced inside" using run_with_redis_balanced [of env cfg db] inside by simp
  then have "balanced (Migrated # (Opened Redis_client # inside @ [Closed Redis_client]) @ rest)" if "balanced rest" for rest
    using that by (intro balanced_note balanced_append balanced_bracket)
  then show "balanced (fst (case cache_Open env (Redis_URL cfg) of
       (begun, Some err) \<Rightarrow> (Migrated # begun, Some (Wrap ''connect Redis'' err))
     | (begun, None) \<Rightarrow>
         (case run_with_redis env cfg db of
            (inside, err) \<Rightarrow>
              (Migrated # begun @ inside @ [Closed Redis_client] @
               (case redis_Close env of None \<Rightarrow> [] | Some e \<Rightarrow> [Logged ''close Redis client'']), err))))"
    using open_events(1) [OF begun] by (cases e) (auto simp: begun inside balanced_note split: option.split)
qed

lemma run_with_telemetry_balanced: "balanced (fst (run_with_telemetry env cfg))"
proof -
  obtain begun e where begun: "database_Open env (ConnectionString (url_string env) (Database cfg)) = (begun, e)"
    by (metis prod.exhaust)
  obtain inside err where inside: "run_with_database env cfg = (inside, err)" by (metis prod.exhaust)
  have "balanced inside" using run_with_database_balanced [of env cfg] inside by simp
  from balanced_bracket [OF this, of Database_pool] open_events(2) [OF begun] show ?thesis
    by (cases e) (simp_all add: run_with_telemetry_def begun inside)
qed

section \<open>What serving needs\<close>

text \<open>
  \<open>closed_early\<close>: the server was closed before it listened, and \<open>ListenAndServe\<close> says so. That is a
  signal that comes before the listener is open.
\<close>

definition closed_early :: "('r, 'c, 'o, 'm) boot_env \<Rightarrow> bool" where
  "closed_early env \<longleftrightarrow>
     (case serving env of
        Listener_ended (Never_listened err) \<Rightarrow> errors_is err http_ErrServerClosed
      | Signalled None (Never_listened err) \<Rightarrow> errors_is err http_ErrServerClosed
      | _ \<Rightarrow> False)"

definition has_listened :: "('r, 'c, 'o, 'm) boot_env \<Rightarrow> event list \<Rightarrow> bool" where
  "has_listened env es \<longleftrightarrow> Opened Listener \<in> set es \<or> closed_early env"

lemma has_listened_inside:
  "has_listened env es \<Longrightarrow> has_listened env (xs @ es @ ys)" "has_listened env es \<Longrightarrow> has_listened env (e # es)"
  by (auto simp: has_listened_def)

lemma serveHTTP_listens: "snd (serveHTTP env address) = None \<Longrightarrow> has_listened env (fst (serveHTTP env address))"
  by (auto simp: serveHTTP_def has_listened_def closed_early_def while_listening_def server_error_def Let_def
      split: serve_outcome.splits option.splits listen_result.splits if_splits)

lemma wrapped_success:
  "snd (wrapped message res continue) = None \<Longrightarrow> (\<And>v. snd (continue v) = None \<Longrightarrow> P (fst (continue v))) \<Longrightarrow>
    P (fst (wrapped message res continue))"
  by (simp add: wrapped_def split: sum.splits)

lemma run_with_redis_success:
  "snd (run_with_redis env cfg db) = None \<Longrightarrow> has_listened env (fst (run_with_redis env cfg db))"
  unfolding run_with_redis_def
  by (elim wrapped_success) (simp add: serveHTTP_listens split: sum.splits)

lemma run_with_redis_listens: "run_with_redis env cfg db = (es, None) \<Longrightarrow> has_listened env es"
  using run_with_redis_success [of env cfg db] by simp

lemma run_with_database_success:
  assumes "snd (run_with_database env cfg) = None"
  shows "has_listened env (fst (run_with_database env cfg))"
  using assms
  by (auto simp: run_with_database_def wrapped_def dest: run_with_redis_listens intro!: has_listened_inside
      split: sum.splits prod.splits option.splits)

lemma run_with_telemetry_success:
  assumes "snd (run_with_telemetry env cfg) = None"
  shows "has_listened env (fst (run_with_telemetry env cfg))"
  using assms run_with_database_success [of env cfg]
  by (auto simp: run_with_telemetry_def intro!: has_listened_inside split: prod.splits option.splits)

lemma begun_without_listener:
  "database_Open env url = (begun, e) \<Longrightarrow> Opened Listener \<notin> set begun"
  "telemetry_New env = (begun, e) \<Longrightarrow> Opened Listener \<notin> set begun"
  by (auto simp: database_Open_def telemetry_New_def split: option.splits sum.splits)

text \<open>\<open>migrated_first\<close>: the API listens only after a migration.\<close>

definition migrated_first :: "event list \<Rightarrow> bool" where
  "migrated_first es \<longleftrightarrow>
     (Opened Listener \<in> set es \<longrightarrow> (\<exists>before after. es = before @ Opened Listener # after \<and> Migrated \<in> set before))"

lemma migrated_first_Cons: "migrated_first (Migrated # es)"
  unfolding migrated_first_def by (auto dest!: split_list) (metis append_Cons list.set_intros(1))

lemma migrated_first_inside:
  "migrated_first es \<Longrightarrow> Opened Listener \<notin> set xs \<Longrightarrow> Opened Listener \<notin> set ys \<Longrightarrow> migrated_first (xs @ es @ ys)"
  unfolding migrated_first_def by (auto) (metis append.assoc append_Cons set_append UnCI)

lemma migrated_first_trivial: "Opened Listener \<notin> set es \<Longrightarrow> migrated_first es"
  by (simp add: migrated_first_def)

lemma run_with_database_migrated: "migrated_first (fst (run_with_database env cfg))"
  by (auto simp: run_with_database_def wrapped_def migrated_first_Cons migrated_first_trivial split: sum.split prod.split option.split)

lemma run_with_telemetry_migrated: "migrated_first (fst (run_with_telemetry env cfg))"
proof -
  obtain begun e where begun: "database_Open env (ConnectionString (url_string env) (Database cfg)) = (begun, e)"
    by (metis prod.exhaust)
  obtain inside err where inside: "run_with_database env cfg = (inside, err)" by (metis prod.exhaust)
  have "migrated_first inside" using run_with_database_migrated [of env cfg] inside by simp
  from migrated_first_inside [OF this, of begun "[Closed Database_pool]"] begun_without_listener(1) [OF begun] show ?thesis
    by (cases e) (simp_all add: run_with_telemetry_def begun inside migrated_first_trivial)
qed

lemma run_releases:
  "brackets [] (fst (run env)) = Some [] \<and>
   (Opened Listener \<in> set (fst (run env)) \<longrightarrow>
     (\<exists>cfg before after. Load (boot_sources env) = Inr cfg \<and> fst (run env) = before @ Opened Listener # after \<and>
       Migrated \<in> set before)) \<and>
   (snd (run env) = [] \<longrightarrow> has_listened env (fst (run env)))"
proof (cases "Load (boot_sources env)")
  case (Inl err)
  then show ?thesis by (simp add: run_def)
next
  case (Inr cfg)
  obtain begun e where begun: "telemetry_New env = (begun, e)" by (metis prod.exhaust)
  obtain inside err where inside: "run_with_telemetry env cfg = (inside, err)" by (metis prod.exhaust)
  note silent = begun_without_listener(2) [OF begun]
  show ?thesis
  proof (cases e)
    case (Some err')
    with open_events(3) [OF begun] silent show ?thesis by (simp add: run_def Inr begun balanced_def)
  next
    case None
    let ?closing = "[Closed Logger_provider, Closed Meter_provider, Closed Tracer_provider]"
    have run: "fst (run env) = begun @ inside @ ?closing" "snd (run env) = [] \<Longrightarrow> err = None"
      using None by (auto simp: run_def Inr begun inside Shutdown_def joined_def split: option.splits)
    have "balanced inside" "migrated_first inside" "err = None \<Longrightarrow> has_listened env inside"
      using run_with_telemetry_balanced [of env cfg] run_with_telemetry_migrated [of env cfg]
        run_with_telemetry_success [of env cfg] inside by simp_all
    moreover have "migrated_first (begun @ inside @ ?closing)"
      using calculation(2) silent by (intro migrated_first_inside) simp_all
    moreover have "begun = [Opened Tracer_provider, Opened Meter_provider, Opened Logger_provider]"
      using open_events(3) [OF begun] None by simp
    ultimately show ?thesis
      using run Inr by (auto simp: balanced_inside migrated_first_def has_listened_def)
  qed
qed


text \<open>A process that starts, listens, and is stopped by a signal while closing Redis fails.\<close>

definition sample_boot :: "(mem_redis, mem_cache, unit, unit) boot_env" where
  "sample_boot =
     \<lparr>boot_sources = sample_sources, instance_id = Inr 1, merge_resource = None, trace_exporter = None, metric_exporter = None,
      log_exporter = None, provider_shutdown = (\<lambda>_. None), url_string = (\<lambda>scheme _ _ host _ _. scheme @ host),
      pool_ParseConfig = (\<lambda>_. None), pool_New = None, pool_Ping = None, pool_RecordStats = None,
      postgres_New = Inr \<lparr>database_Migrate = None, database_Stores =
        \<lparr>Sessions = Inr (Some (session_store sample_store)), EmailVerification = None, Other_stores = ()\<rparr>\<rparr>,
      redis_ParseURL = (\<lambda>_. None), redis_InstrumentTracing = None, redis_InstrumentMetrics = None,
      redis_Close = Some (Errorf ''closed''), redis = mem_commands,
      redis_NewSessionCache = (\<lambda>_. Inr (session_cache sample_store)), boot_hmac = sample_hmac, boot_arith = exact,
      boot_json = encoding_json, boot_unique = (\<lambda>_ _. False), boot_rank = (\<lambda>_. 0),
      resend_client = (\<lambda>_ _ m _. (m, None)), boot_classes = ascii_classes, authlier_New = (\<lambda>_. Inr ()), new_instrument = (\<lambda>_. None),
      SetTrustedProxies = (\<lambda>_. None), serving = Signalled None (Listened (Sentinel http_ErrServerClosed))\<rparr>"

lemma sample_boot_runs: "snd (run sample_boot) = []"
proof -
  obtain cfg where cfg: "Load sample_sources = Inr cfg" using sample_loads by blast
  obtain k where "Validate sample_sources cfg = None" using cfg by (rule Load_Inr)
  note valid = Validate_None(10,12) [OF this]
  have redis: "snd (run_with_redis sample_boot cfg db) = None" if "postgres_New sample_boot = Inr db" for db
    using valid that
    by (auto simp: run_with_redis_def wrapped_def sample_boot_def NewJitteredSessionCache_def NewRedisEmailVerificationStore_def
        NewAuthlierDatabase_def main_maximumActiveSessions_def NewRedisLimiter_def NewResendAuthenticationEmailSender_def
        router_setup_def http_instruments_def document_is_published serveHTTP_def server_error_def Let_def)
  have "snd (run_with_database sample_boot cfg) = None"
    using redis by (auto simp: run_with_database_def wrapped_def failing_def cache_Open_def sample_boot_def
        split: prod.splits)
  then have "snd (run_with_telemetry sample_boot cfg) = None"
    by (auto simp: run_with_telemetry_def database_Open_def sample_boot_def split: prod.splits)
  moreover have "Load (boot_sources sample_boot) = Inr cfg" "telemetry_New sample_boot =
      ([Opened Tracer_provider, Opened Meter_provider, Opened Logger_provider], None)" "snd (Shutdown sample_boot) = []"
    by (simp_all add: sample_boot_def cfg telemetry_New_def Shutdown_def joined_def)
  ultimately show ?thesis by (auto simp: run_def joined_def split: prod.splits)
qed


end
