(* ===== verification/Test_Database.thy ===== *)
theory Test_Database
  imports Startup
begin

text \<open>
  The helper of the integration tests, \<open>internal/infra/database/testdb/database.go\<close>: it starts a
  PostgreSQL container, opens the pool the server opens and migrates it. The container library and
  the migrator are parameters that tell the outcomes of their calls.
\<close>

record ('r, 'c, 'o, 'm) test_env =
  test_boot :: "('r, 'c, 'o, 'm) boot_env"
  container_Run :: "go_error option"
  container_ConnectionString :: "string result"
  TerminateContainer :: "go_error option"
  pool_Acquire :: "go_error option"
  runtime_Caller :: "string list option"
  NewMigrator :: "go_error option"
  LoadMigrations :: "string list \<Rightarrow> go_error option"
  migrator_Migrate :: "go_error option"

text \<open>A path is the list of its elements; joining \<open>..\<close> takes the last one off.\<close>

definition migrationsPath :: "string list option \<Rightarrow> string list result" where
  "migrationsPath caller =
     (case caller of
        None \<Rightarrow> Inl (Errorf ''resolve database test path'')
      | Some filename \<Rightarrow> Inr (butlast (butlast filename) @ [''migrations'']))"

definition migrate_connection :: "('r, 'c, 'o, 'm) test_env \<Rightarrow> event list \<times> go_error option" where
  "migrate_connection env =
     (case NewMigrator env of
        Some err \<Rightarrow> ([], Some (Wrap ''create migrator'' err))
      | None \<Rightarrow>
     (case migrationsPath (runtime_Caller env) of
        Inl err \<Rightarrow> ([], Some err)
      | Inr dir \<Rightarrow>
     (case LoadMigrations env dir of
        Some err \<Rightarrow> ([], Some (Wrap ''load migrations'' err))
      | None \<Rightarrow>
     (case migrator_Migrate env of
        Some err \<Rightarrow> ([], Some (Wrap ''apply migrations'' err))
      | None \<Rightarrow> ([Migrated], None)))))"

text \<open>
  What happens in the call, the cleanups it registered in their order, and the error the test ends
  with, if it does; \<open>Fatalf\<close> runs the deferred release of the connection.
\<close>

definition OpenMigratedDatabase :: "('r, 'c, 'o, 'm) test_env \<Rightarrow> event list \<times> event list list \<times> go_error option" where
  "OpenMigratedDatabase env =
     (case container_Run env of
        Some err \<Rightarrow> ([], [], Some (Wrap ''start PostgreSQL container'' err))
      | None \<Rightarrow>
          (let terminate = Closed Container #
                 (case TerminateContainer env of None \<Rightarrow> [] | Some err \<Rightarrow> [Logged ''terminate PostgreSQL container''])
           in case container_ConnectionString env of
                Inl err \<Rightarrow> ([Opened Container], [terminate], Some (Wrap ''get PostgreSQL connection string'' err))
              | Inr connectionString \<Rightarrow>
                  (case database_Open (test_boot env) connectionString of
                     (begun, Some err) \<Rightarrow> (Opened Container # begun, [terminate], Some (Wrap ''open PostgreSQL pool'' err))
                   | (begun, None) \<Rightarrow>
                       (case pool_Acquire env of
                          Some err \<Rightarrow>
                            (Opened Container # begun, [terminate, [Closed Database_pool]],
                             Some (Wrap ''acquire migration connection'' err))
                        | None \<Rightarrow>
                            (case migrate_connection env of
                               (inside, err) \<Rightarrow>
                                 (Opened Container # begun @ Opened Migration_connection # inside @ [Closed Migration_connection],
                                  [terminate, [Closed Database_pool]], err))))))"

text \<open>A test with the database: its own events come last before the cleanups, the last registered first.\<close>

definition test_events :: "('r, 'c, 'o, 'm) test_env \<Rightarrow> event list \<Rightarrow> event list" where
  "test_events env test =
     (case OpenMigratedDatabase env of
        (begun, cleanups, err) \<Rightarrow> begun @ (if err = None then test else []) @ concat (rev cleanups))"

lemma migrate_connection_events: "migrate_connection env = (inside, err) \<Longrightarrow> inside = (if err = None then [Migrated] else [])"
  by (auto simp: migrate_connection_def migrationsPath_def split: option.splits sum.splits)

text \<open>Whatever fails, the container, the pool and the connection are released in reverse order.\<close>

lemma test_database_is_released:
  assumes "balanced test"
  shows "balanced (test_events env test)"
proof -
  have terminated: "balanced (Opened Container # inside @ Closed Container #
      (case TerminateContainer env of None \<Rightarrow> [] | Some err \<Rightarrow> [Logged ''terminate PostgreSQL container'']))"
    if "balanced inside" for inside
    using that by (simp add: balanced_def brackets_append split: option.split)
  show ?thesis
  proof (cases "container_Run env")
    case None
    show ?thesis
    proof (cases "container_ConnectionString env")
      case (Inl err)
      from terminated [OF balanced_Nil] show ?thesis
        by (simp add: test_events_def OpenMigratedDatabase_def None Inl)
    next
      case (Inr url)
      obtain begun e where begun: "database_Open (test_boot env) url = (begun, e)" by (cases "database_Open (test_boot env) url")
      show ?thesis
      proof (cases e)
        case (Some err)
        with open_events(2) [OF begun] have "balanced begun" by simp
        from terminated [OF this] show ?thesis
          by (simp add: test_events_def OpenMigratedDatabase_def None Inr begun Some)
      next
        case pool: None
        with open_events(2) [OF begun] have opened: "begun = [Opened Database_pool]" by simp
        obtain inside m where inside: "migrate_connection env = (inside, m)" by (cases "migrate_connection env")
        have "balanced (Opened Database_pool # Opened Migration_connection # (if b then [Migrated] else []) @
            Closed Migration_connection # (if b then test else []) @ [Closed Database_pool])" for b
          using assms by (simp add: balanced_def brackets_append)
        from terminated [OF this [of "m = None"]] terminated [OF balanced_bracket [OF balanced_Nil, of Database_pool]]
        show ?thesis
          using migrate_connection_events [OF inside]
          by (cases "pool_Acquire env") (simp_all add: test_events_def OpenMigratedDatabase_def None Inr begun pool inside opened)
      qed
    qed
  qed (simp add: test_events_def OpenMigratedDatabase_def)
qed

end
