(* ===== verification/Spec2Isabelle.thy ===== *)
theory Spec2Isabelle
  imports Attempt_Guards Session_Concurrency Email_Verification Users Organizations Projects Migrations
    Logging Email_Templates Test_Database
begin

text \<open>
  A verification development of the consumel-server API, a Go service with gin, PostgreSQL and
  Redis around the Authlier authentication library.

  \<^bold>\<open>The program and the theories\<close>

  The process loads its configuration, opens telemetry, the PostgreSQL pool and Redis, configures
  Authlier with its own stores, limits and emails, and serves HTTP until it is stopped. A request
  passes the cross-origin middleware, the telemetry middleware and, on the authentication routes,
  the traffic limit; account requests are answered from the session, the user of its subject and
  the user's organizations.

  \<^item> \<open>Prelude\<close>: Go errors and results, 64-bit integers, durations and instants, calls to a server
    that may be lost before or after they were served. \<open>Go_Strings\<close> and \<open>Go_Numbers\<close>: the string,
    UTF-8 and decimal routines of the standard library the code uses. \<open>Lua_Numbers\<close>: binary64
    rounding, as an interface and as a function.
  \<^item> \<open>Redis_Keyspace\<close>: the Redis commands the code calls, as an interface with its laws, and an
    in-memory keyspace that satisfies them.
  \<^item> \<open>Rate_Limit\<close>, \<open>Rate_Limit_Properties\<close>: \<open>internal/infra/ratelimit/redis.go\<close>, the Lua script, the
    keys and \<open>Allow\<close>. \<open>Attempt_Guards\<close>: \<open>internal/infra/authentication/attempt_guards.go\<close> over the
    limiter. \<open>Traffic\<close>: \<open>internal/authentication/handlers/rate_limit.go\<close>.
  \<^item> \<open>Session_Cache\<close>, \<open>Session_Store\<close>: \<open>session_cache.go\<close> and \<open>session_store.go\<close> of
    \<open>internal/infra/authentication\<close>; the state is the rows of the session table and the cache.
    \<open>Session_Concurrency\<close>: concurrent transactions of \<open>Create\<close>, as a step relation.
    \<open>Email_Verification\<close>: \<open>email_verification_store.go\<close>; the state is the keyspace and the user rows.
  \<^item> \<open>Tenancy_Tables\<close>: the tables of \<open>internal/infra/database/migrations\<close> and the statements in
    \<open>repositories/generated\<close>. \<open>Users\<close>, \<open>Organizations\<close>, \<open>Projects\<close>: \<open>internal/users\<close>,
    \<open>internal/organizations\<close>, \<open>internal/projects\<close>, each with its repository and service. \<open>Migrations\<close>: the migration files
    with the rows they move, in both directions.
  \<^item> \<open>Http\<close>: the request context of gin as a record, JSON bodies as trees, log records, and
    \<open>internal/common/httpresponse\<close>. \<open>Go_JSON\<close>: the bytes \<open>encoding/json\<close> writes for a body, and a
    reader of them. \<open>Request_Telemetry\<close>: \<open>internal/infra/telemetry/http.go\<close> and \<open>logging.go\<close>,
    \<open>internal/authentication/handlers/telemetry.go\<close>. \<open>Logging\<close>: the handler chain of the process
    logger in \<open>logging.go\<close> and \<open>telemetry.go\<close>.
  \<^item> \<open>Accounts\<close>: \<open>internal/authentication/services\<close>, \<open>models\<close>, \<open>handlers/account.go\<close> and
    \<open>internal/infra/authentication/authlier.go\<close>. \<open>Cors\<close>: \<open>internal/infra/cors\<close>. \<open>Health\<close>:
    \<open>internal/health\<close>. \<open>OpenAPI_Document\<close>: \<open>internal/openapi/document.go\<close>. \<open>Response_Bytes\<close>:
    the bytes of responses and of the document, and \<open>cmd/openapi\<close>. \<open>Server\<close>: \<open>cmd/api/router.go\<close> and
    the route files, composing all of these.
  \<^item> \<open>Password_Policy\<close>: \<open>internal/authentication/password_policy.go\<close>. \<open>Emails\<close>:
    \<open>internal/authentication/templates\<close> and \<open>internal/infra/clients/resend.go\<close>. \<open>Email_Templates\<close>: the
    HTML files of the same directory with the escaping of \<open>html/template\<close>. \<open>Config\<close>:
    \<open>internal/config/config.go\<close>. \<open>Startup\<close>: \<open>cmd/api/main.go\<close>, \<open>cmd/api/server.go\<close>,
    \<open>internal/infra/telemetry/telemetry.go\<close>, \<open>database/database.go\<close> and \<open>cache/redis.go\<close>.
    \<open>Test_Database\<close>: \<open>database/testdb/database.go\<close>, the database of the integration tests.

  \<^bold>\<open>How the code is modelled\<close>

  Structs are records, enumerations datatypes, and an error is a value of \<open>go_error\<close> with the
  wrapping \<open>errors.Is\<close> sees through. A function that can fail returns \<open>'a result\<close>, one that changes
  state returns the new state as well, and every early return is a branch. A Go string is a list of
  bytes. \<open>int64\<close> arithmetic wraps where it can overflow; instants and durations are nanoseconds.
  A gin middleware is a function from its continuation to a handler. Interference of other
  transactions is a function on the tables between two statements, or a step relation when all
  interleavings matter (\<open>create_step\<close>); lost requests and replies are values of \<open>link\<close>.

  \<^bold>\<open>Interfaces\<close>

  \<open>lua_arith\<close> and \<open>redis_keyspace\<close> (what the scripts rely on), \<open>limiter_redis\<close>, \<open>expiring_cache\<close>,
  \<open>aging_cache\<close> (a cache whose entries end), \<open>atomic_repository\<close>, \<open>organization_repository\<close>, \<open>project_repository\<close>, \<open>tenant_sources\<close> (what the
  tenant service needs of its sources) and \<open>instrumented_handler\<close> (what the telemetry middleware
  needs of the handlers behind it); each is interpreted on the model's own definitions.

  \<^bold>\<open>What is shown\<close>

  \<^item> The limiter: the rolling window is a hard limit in every run, with lost messages, clock skew
    and expiring keys; the script computes an abstract step; refusals come with a wait that is
    enough; \<open>Allow\<close> fails closed; and end to end, no address gets more account answers through
    than its limit in any five minutes.
  \<^item> Attempt guards admit in order, and a refused address spends nobody else's budget.
  \<^item> Sessions: the cap holds after every creation and under every interleaving, the oldest go
    first, failures roll back, the cache is invalidated; concurrent creations all finish; a cached
    session is forgotten in the given lifetime, whatever the jitter.
  \<^item> Email verification: one live challenge per user in every reachable keyspace, single use,
    justified and complete verification.
  \<^item> Tenancy: one user per subject under interference; creation of organizations and projects is
    atomic and succeeds without outside failures; access lists hold exactly the active memberships.
    Upgrading an old database keeps every member's access and fails exactly when an organization
    has no owner or a role has no successor, and going back gives the old rows.
  \<^item> Requests: ids are safe, every request is recorded exactly once, cross-origin reading is
    granted to configured origins only, an account answer is the one of its session, and its body
    fits the published contract, which is closed and complete. Bodies and the document are read
    back from their bytes. A log record reaches both outputs with the ids of its request.
  \<^item> Emails: the code or link stands in the HTML so that it is read as it is in the text part, and
    can open no tag.
  \<^item> The process: a loaded configuration is usable by everything built from it, settings are read
    back as written, and whatever was opened is closed in reverse order on every path.

  \<^bold>\<open>Bounds\<close>

  \<open>conforms\<close> follows at most eight nested schemas; the document needs six. Times in milliseconds are
  bounded by \<open>2 ^ 51\<close> where the scripts compute with them, so that their sums stay below \<open>2 ^ 53\<close> and
  are exact. The JSON reader runs on the length of its text as fuel, which is enough for everything
  the printer writes (\<open>layout_read_back\<close>). All other recursion is structural or has a measure.

  \<^bold>\<open>Parameters\<close>

  Authlier, koanf, the Redis client, HMAC-SHA256, JSON of the challenges, URL, address and base64
  parsing, the Unicode tables, the Resend service, the OpenTelemetry exporters and bridge, and the
  random and clock sources are arguments of the definitions that use them; what a property
  relies on is among its hypotheses, and the witnesses meet them with concrete functions.

  \<^bold>\<open>Not modelled\<close>

  Matching a path to a route (gin), panics and their recovery, timeouts and cancellation of
  contexts, the sqlc handles \<open>db.go\<close>, which pass statements on to the pool or the transaction and keep
  no state of their own, and tern, which runs the migration files. Locks inside a request's
  attributes have no counterpart, since one goroutine handles a request. What else of the Go code
  has no definition is import lists and assertions that a type has an interface.
\<close>

end
